(* ===== verification/Prelude.thy ===== *)
theory Prelude
  imports Main "HOL-Library.Word" "HOL-Library.Multiset" "HOL-Library.AList"
    "HOL-Library.Monad_Syntax"
begin

text \<open>
  Shared vocabulary of the development: the Rust number types, results that may panic, the
  standard collections the code uses (\<^verbatim>\<open>Vec\<close>, \<^verbatim>\<open>HashMap\<close>, \<^verbatim>\<open>BTreeMap\<close>), and the lemmas the
  component theories share.

  Representation.
  \<^item> \<^verbatim>\<open>u8\<close>, \<^verbatim>\<open>u16\<close> and \<^verbatim>\<open>u32\<close> are words of their width. \<^verbatim>\<open>u64\<close> and \<^verbatim>\<open>usize\<close> are natural
    numbers; where the code's 64-bit arithmetic can leave the range it is written with the
    checked operations below, whose first argument says whether the build has overflow checks
    (a debug build panics, a release build wraps around). \<^verbatim>\<open>as u32\<close> is \<^const>\<open>word_of_nat\<close>.
  \<^item> A computation that may panic has type \<open>'a panics\<close>: \<^const>\<open>None\<close> is the panic.
  \<^item> A \<^verbatim>\<open>HashMap\<close> is an association list with distinct keys. The list order is the order in
    which the table is iterated; insertion of a new key may change that order, so statements
    about iteration quantify over the list, and the step relations contain a step that
    permutes it.
  \<^item> A \<^verbatim>\<open>BTreeMap\<close> is an association list sorted by key.
\<close>

section \<open>Numbers and results\<close>

type_synonym u8 = "8 word"
type_synonym u16 = "16 word"
type_synonym u32 = "32 word"
type_synonym u64 = nat
type_synonym usize = nat
type_synonym 'a panics = "'a option"

text \<open>An \<^verbatim>\<open>Instant\<close> and a \<^verbatim>\<open>Duration\<close> count nanoseconds.\<close>

type_synonym Instant = nat

datatype 'a poll = Ready 'a | Pending

named_theorems inv_intros \<open>an operation keeps the invariant of its component\<close>
named_theorems op_defs \<open>the definitions of the operations of a component\<close>

definition u64_add :: "bool \<Rightarrow> u64 \<Rightarrow> u64 \<Rightarrow> u64 panics" where
  "u64_add checks a b =
     (if a + b < 2 ^ 64 then Some (a + b)
      else if checks then None else Some ((a + b) mod 2 ^ 64))"

definition u64_mul :: "bool \<Rightarrow> u64 \<Rightarrow> u64 \<Rightarrow> u64 panics" where
  "u64_mul checks a b =
     (if a * b < 2 ^ 64 then Some (a * b)
      else if checks then None else Some ((a * b) mod 2 ^ 64))"

definition u64_sub :: "bool \<Rightarrow> u64 \<Rightarrow> u64 \<Rightarrow> u64 panics" where
  "u64_sub checks a b =
     (if b \<le> a then Some (a - b)
      else if checks then None else Some (a + 2 ^ 64 - b))"

section \<open>Vectors\<close>

text \<open>\<^verbatim>\<open>iter().position(p)\<close>: the index of the first element that satisfies the predicate.\<close>

fun position :: "('a \<Rightarrow> bool) \<Rightarrow> 'a list \<Rightarrow> nat option" where
  "position p [] = None"
| "position p (x # xs) = (if p x then Some 0 else map_option Suc (position p xs))"

text \<open>\<^verbatim>\<open>Vec::remove(i)\<close>: shifts the tail down.\<close>

definition vec_remove :: "nat \<Rightarrow> 'a list \<Rightarrow> 'a list" where
  "vec_remove i xs = take i xs @ drop (Suc i) xs"

text \<open>\<^verbatim>\<open>Vec::swap_remove(i)\<close>: the last element takes the removed one's place.\<close>

definition swap_remove :: "nat \<Rightarrow> 'a list \<Rightarrow> 'a list" where
  "swap_remove i xs = (if Suc i = length xs then butlast xs else butlast (xs[i := last xs]))"

text \<open>\<^verbatim>\<open>&xs[a..b]\<close>: panics out of range.\<close>

definition slice :: "'a list \<Rightarrow> nat \<Rightarrow> nat \<Rightarrow> 'a list panics" where
  "slice xs a b = (if a \<le> b \<and> b \<le> length xs then Some (take (b - a) (drop a xs)) else None)"

section \<open>Hash maps and ordered maps\<close>

type_synonym ('k, 'v) hash_map = "('k \<times> 'v) list"
type_synonym ('k, 'v) btree_map = "('k \<times> 'v) list"

abbreviation keys :: "('k \<times> 'v) list \<Rightarrow> 'k list" where
  "keys m \<equiv> map fst m"

definition hm_get :: "('k, 'v) hash_map \<Rightarrow> 'k \<Rightarrow> 'v option" where
  "hm_get m k = map_of m k"

definition hm_insert :: "'k \<Rightarrow> 'v \<Rightarrow> ('k, 'v) hash_map \<Rightarrow> ('k, 'v) hash_map" where
  "hm_insert k v m = AList.update k v m"

definition hm_remove :: "'k \<Rightarrow> ('k, 'v) hash_map \<Rightarrow> ('k, 'v) hash_map" where
  "hm_remove k m = AList.delete k m"

definition hm_contains_key :: "('k, 'v) hash_map \<Rightarrow> 'k \<Rightarrow> bool" where
  "hm_contains_key m k = (hm_get m k \<noteq> None)"

fun bt_insert :: "'k::linorder \<Rightarrow> 'v \<Rightarrow> ('k, 'v) btree_map \<Rightarrow> ('k, 'v) btree_map" where
  "bt_insert k v [] = [(k, v)]"
| "bt_insert k v (e # es) =
     (if k = fst e then (k, v) # es
      else if k < fst e then (k, v) # e # es
      else e # bt_insert k v es)"

section \<open>The interface of a map\<close>

text \<open>
  What a client of a map relies on: a lookup after an insertion or a removal, and that the
  operations keep the representation invariant. The components reason about their maps
  through these laws only.
\<close>

locale map_iface =
  fixes get :: "'m \<Rightarrow> 'k \<Rightarrow> 'v option"
    and insert :: "'k \<Rightarrow> 'v \<Rightarrow> 'm \<Rightarrow> 'm"
    and wf :: "'m \<Rightarrow> bool"
  assumes get_insert: "wf m \<Longrightarrow> get (insert k v m) k' = (if k' = k then Some v else get m k')"
    and wf_insert: "wf m \<Longrightarrow> wf (insert k v m)"
begin

lemma get_insert_same: "wf m \<Longrightarrow> get (insert k v m) k = Some v"
  by (simp add: get_insert)

lemma get_insert_twice:
  "wf m \<Longrightarrow> get (insert k v (insert k w m)) k' = get (insert k v m) k'"
  by (simp add: get_insert wf_insert)

lemma get_insert_commute:
  "wf m \<Longrightarrow> k \<noteq> j \<Longrightarrow>
   get (insert k v (insert j w m)) i = get (insert j w (insert k v m)) i"
  by (simp add: get_insert wf_insert)

lemma insert_keeps_dom: "wf m \<Longrightarrow> get m k \<noteq> None \<Longrightarrow> get (insert j v m) k \<noteq> None"
  by (simp add: get_insert)

end

locale removable_map = map_iface get insert wf
  for get :: "'m \<Rightarrow> 'k \<Rightarrow> 'v option" and insert :: "'k \<Rightarrow> 'v \<Rightarrow> 'm \<Rightarrow> 'm"
    and wf :: "'m \<Rightarrow> bool" +
  fixes remove :: "'k \<Rightarrow> 'm \<Rightarrow> 'm"
  assumes get_remove: "wf m \<Longrightarrow> get (remove k m) k' = (if k' = k then None else get m k')"
    and wf_remove: "wf m \<Longrightarrow> wf (remove k m)"
begin

lemma get_remove_insert:
  "wf m \<Longrightarrow> get (remove k (insert k v m)) k' = get (remove k m) k'"
  by (simp add: get_remove get_insert wf_insert)

lemma get_insert_remove:
  "wf m \<Longrightarrow> get (insert k v (remove k m)) k' = get (insert k v m) k'"
  by (simp add: get_insert get_remove wf_remove)

end

section \<open>Lemmas on the collections\<close>

lemma u64_add_small [simp]: "a + b < 2 ^ 64 \<Longrightarrow> u64_add c a b = Some (a + b)"
  by (simp add: u64_add_def)

lemma u64_mul_small [simp]: "a * b < 2 ^ 64 \<Longrightarrow> u64_mul c a b = Some (a * b)"
  by (simp add: u64_mul_def)

lemma u64_sub_small [simp]: "b \<le> a \<Longrightarrow> u64_sub c a b = Some (a - b)"
  by (simp add: u64_sub_def)

lemma position_Some:
  "position p xs = Some i \<Longrightarrow> i < length xs \<and> p (xs ! i) \<and> (\<forall>j < i. \<not> p (xs ! j))"
proof (induction xs arbitrary: i)
  case Nil
  then show ?case by simp
next
  case (Cons x xs)
  show ?case
  proof (cases "p x")
    case True
    with Cons.prems show ?thesis by simp
  next
    case False
    with Cons.prems obtain j where j: "position p xs = Some j" and i: "i = Suc j" by auto
    from Cons.IH [OF j] False i show ?thesis by (auto simp: nth_Cons split: nat.splits)
  qed
qed

lemma position_None: "position p xs = None \<longleftrightarrow> (\<forall>x \<in> set xs. \<not> p x)"
  by (induction xs) auto

lemma position_append_new:
  "\<forall>x \<in> set xs. \<not> p x \<Longrightarrow> p y \<Longrightarrow> position p (xs @ [y]) = Some (length xs)"
  by (induction xs) auto

lemma vec_remove_last [simp]: "vec_remove (length xs) (xs @ [y]) = xs"
  by (simp add: vec_remove_def)

lemma mset_vec_remove:
  "i < length xs \<Longrightarrow> mset xs = add_mset (xs ! i) (mset (vec_remove i xs))"
  by (metis (no_types) id_take_nth_drop mset.simps(2) mset_append union_mset_add_mset_right
      vec_remove_def)

lemma set_vec_remove_subset: "set (vec_remove i xs) \<subseteq> set xs"
  by (auto simp: vec_remove_def dest: in_set_takeD in_set_dropD)

lemma distinct_vec_remove: "distinct xs \<Longrightarrow> distinct (vec_remove i xs)"
  by (simp add: vec_remove_def set_take_disj_set_drop_if_distinct)

lemma set_vec_remove:
  assumes "distinct xs" and "i < length xs"
  shows "set (vec_remove i xs) = set xs - {xs ! i}"
proof -
  have xs: "xs = take i xs @ xs ! i # drop (Suc i) xs" using assms(2) by (rule id_take_nth_drop)
  with assms(1) have "distinct (take i xs @ xs ! i # drop (Suc i) xs)" by simp
  moreover have "set xs = set (take i xs @ xs ! i # drop (Suc i) xs)" using xs by simp
  ultimately show ?thesis by (auto simp: vec_remove_def)
qed

lemma mset_butlast_last: "xs \<noteq> [] \<Longrightarrow> mset xs = add_mset (last xs) (mset (butlast xs))"
  by (metis append_butlast_last_id mset.simps(2) mset_append union_mset_add_mset_right
      mset.simps(1) add_0_right)

lemma length_swap_remove [simp]: "i < length xs \<Longrightarrow> length (swap_remove i xs) = length xs - 1"
  by (simp add: swap_remove_def)

lemma mset_swap_remove:
  assumes "i < length xs"
  shows "mset xs = add_mset (xs ! i) (mset (swap_remove i xs))"
proof (cases "Suc i = length xs")
  case True
  then have "xs \<noteq> []" by auto
  with True have "last xs = xs ! i" by (simp add: last_conv_nth flip: True)
  with \<open>xs \<noteq> []\<close> True show ?thesis using mset_butlast_last [of xs] by (simp add: swap_remove_def)
next
  case False
  have ne: "xs \<noteq> []" using assms by auto
  have last: "last (xs[i := last xs]) = last xs"
    using assms False ne by (auto simp: last_list_update)
  have "mset (xs[i := last xs]) = add_mset (last xs) (mset xs - {#xs ! i#})"
    using assms by (simp add: mset_update)
  moreover have "mset (xs[i := last xs]) = add_mset (last xs) (mset (butlast (xs[i := last xs])))"
    using mset_butlast_last [of "xs[i := last xs]"] ne last by simp
  ultimately have "mset (butlast (xs[i := last xs])) = mset xs - {#xs ! i#}" by simp
  with assms False show ?thesis by (simp add: swap_remove_def)
qed

lemma set_swap_remove: "i < length xs \<Longrightarrow> set xs = insert (xs ! i) (set (swap_remove i xs))"
  using mset_swap_remove [of i xs] by (metis set_mset_add_mset_insert set_mset_mset)

lemma slice_append [simp]: "slice (xs @ ys) 0 (length xs) = Some xs"
  by (simp add: slice_def)

lemma keys_update: "set (keys (AList.update k v m)) = insert k (set (keys m))"
  by (induction m) auto

lemma update_absent: "k \<notin> set (keys m) \<Longrightarrow> AList.update k v m = m @ [(k, v)]"
  by (induction m) auto

lemma hm_get_None: "hm_get m k = None \<longleftrightarrow> k \<notin> set (keys m)"
  by (simp add: hm_get_def map_of_eq_None_iff)

lemma hm_get_in: "hm_get m k = Some v \<Longrightarrow> (k, v) \<in> set m"
  by (simp add: hm_get_def map_of_SomeD)

lemma hm_get_distinct: "distinct (keys m) \<Longrightarrow> hm_get m k = Some v \<longleftrightarrow> (k, v) \<in> set m"
  by (simp add: hm_get_def)

lemma distinct_hm_insert [simp]: "distinct (keys m) \<Longrightarrow> distinct (keys (hm_insert k v m))"
  by (simp add: hm_insert_def distinct_update)

lemma distinct_hm_remove [simp]: "distinct (keys m) \<Longrightarrow> distinct (keys (hm_remove k m))"
  by (simp add: hm_remove_def distinct_delete)

lemma keys_hm_insert: "set (keys (hm_insert k v m)) = insert k (set (keys m))"
  unfolding hm_insert_def by (rule keys_update)

lemma keys_hm_remove: "set (keys (hm_remove k m)) = set (keys m) - {k}"
  by (simp add: hm_remove_def delete_keys)

interpretation hash_map: removable_map hm_get hm_insert "\<lambda>m. distinct (keys m)" hm_remove
proof unfold_locales
  fix m :: "('k \<times> 'v) list" and k k' :: 'k and v :: 'v
  show "hm_get (hm_insert k v m) k' = (if k' = k then Some v else hm_get m k')"
    by (simp add: hm_get_def hm_insert_def update_conv')
  show "hm_get (hm_remove k m) k' = (if k' = k then None else hm_get m k')"
    by (simp add: hm_get_def hm_remove_def delete_conv')
qed simp_all

text \<open>Removal of a bound key takes exactly its entry out of the table.\<close>

lemma mset_hm_remove:
  "distinct (keys m) \<Longrightarrow> hm_get m k = Some v \<Longrightarrow> mset m = add_mset (k, v) (mset (hm_remove k m))"
proof (induction m)
  case Nil
  then show ?case by (simp add: hm_get_def)
next
  case (Cons e m)
  show ?case
  proof (cases "fst e = k")
    case True
    with Cons.prems have "k \<notin> set (keys m)" and "e = (k, v)"
      by (auto simp: hm_get_def prod_eq_iff)
    then show ?thesis by (auto simp: hm_remove_def delete_conv filter_id_conv image_iff)
  next
    case False
    with Cons show ?thesis by (cases e) (auto simp: hm_get_def hm_remove_def)
  qed
qed

lemma mset_hm_insert_new:
  "hm_get m k = None \<Longrightarrow> mset (hm_insert k v m) = add_mset (k, v) (mset m)"
  by (simp add: hm_get_None hm_insert_def update_absent)

lemma hm_get_perm:
  assumes "mset m = mset m'" and "distinct (keys m)"
  shows "hm_get m' k = hm_get m k"
proof -
  from assms(1) have "mset (keys m) = mset (keys m')" by (metis mset_map)
  with assms(2) have d: "distinct (keys m')" by (metis mset_eq_imp_distinct_iff)
  from assms(1) have "set m = set m'" by (metis set_mset_mset)
  with assms(2) d show ?thesis unfolding hm_get_def by (metis map_of_inject_set)
qed

abbreviation bt_wf :: "('k::linorder \<times> 'v) list \<Rightarrow> bool" where
  "bt_wf m \<equiv> sorted_wrt (<) (keys m)"

lemma keys_bt_insert: "set (keys (bt_insert k v m)) = insert k (set (keys m))"
  by (induction m) auto

lemma sorted_bt_insert: "bt_wf m \<Longrightarrow> bt_wf (bt_insert k v m)"
proof (induction m)
  case (Cons e m)
  then show ?case using keys_bt_insert [of k v m] by auto
qed simp

interpretation btree_map: map_iface hm_get bt_insert bt_wf
proof unfold_locales
  fix m :: "('k::linorder \<times> 'v) list" and k k' :: 'k and v :: 'v
  show "hm_get (bt_insert k v m) k' = (if k' = k then Some v else hm_get m k')"
    by (induction m) (auto simp: hm_get_def)
qed (rule sorted_bt_insert)

lemma mset_bt_insert_new:
  "k \<notin> set (keys m) \<Longrightarrow> mset (bt_insert k v m) = add_mset (k, v) (mset m)"
  by (induction m) auto

lemma bt_wf_distinct: "bt_wf m \<Longrightarrow> distinct (keys m)"
  by (simp add: strict_sorted_iff)

end
