(* ===== verification/Bitfield.thy ===== *)
theory Bitfield
  imports Prelude
begin

text \<open>
  The piece bitfield (\<^verbatim>\<open>src/bitfield.rs\<close>), the SHA-1 hash wrapper (\<^verbatim>\<open>src/util.rs\<close>) and the
  piece constants (\<^verbatim>\<open>src/piece.rs\<close>).

  A \<^verbatim>\<open>BitField\<close> wraps the bit vector of the bit-vec crate and dereferences to it; it is the
  list of its bits. The crate's conversions from and to bytes are parameters (see theory
  \<^verbatim>\<open>Messages\<close>). The SHA-1 function itself is a parameter \<open>sha1\<close>.
\<close>

section \<open>Bitfields\<close>

type_synonym BitField = "bool list"

fun first_set_from :: "nat \<Rightarrow> BitField \<Rightarrow> u32 option" where
  "first_set_from i [] = None"
| "first_set_from i (nbit # bits) =
     (if nbit then Some (word_of_nat i) else first_set_from (Suc i) bits)"

definition first_set :: "BitField \<Rightarrow> u32 option" where
  "first_set bf = first_set_from 0 bf"

definition new_all_set :: "usize \<Rightarrow> BitField" where
  "new_all_set nbits = replicate nbits True"

definition new_all_clear :: "usize \<Rightarrow> BitField" where
  "new_all_clear nbits = replicate nbits False"

text \<open>
  The bit vector's \<^verbatim>\<open>get\<close>, \<^verbatim>\<open>all\<close> and \<^verbatim>\<open>clear\<close>; \<^verbatim>\<open>set\<close> is list update, which the code only
  calls with an index in range.
\<close>

definition bv_get :: "BitField \<Rightarrow> usize \<Rightarrow> bool option" where
  "bv_get bf i = (if i < length bf then Some (bf ! i) else None)"

definition bv_all :: "BitField \<Rightarrow> bool" where
  "bv_all bf = list_all (\<lambda>b. b) bf"

definition bv_clear :: "BitField \<Rightarrow> BitField" where
  "bv_clear bf = map (\<lambda>_. False) bf"

section \<open>Hashes\<close>

type_synonym ShaHash = "u8 list"

definition SHA_HASH_LEN :: usize where
  "SHA_HASH_LEN = 20"

text \<open>\<^verbatim>\<open>TryFrom<&[u8]> for ShaHash\<close>: too short a slice is an error, a longer one is cut.\<close>

definition ShaHash_try_from :: "u8 list \<Rightarrow> ShaHash option" where
  "ShaHash_try_from value =
     (if length value < SHA_HASH_LEN then None else Some (take SHA_HASH_LEN value))"

text \<open>\<^verbatim>\<open>PartialEq<[u8]> for ShaHash\<close>: the loop over the zipped bytes.\<close>

definition ShaHash_eq_slice :: "ShaHash \<Rightarrow> u8 list \<Rightarrow> bool" where
  "ShaHash_eq_slice h other =
     fold (\<lambda>(a, b) prev. prev \<and> a = b) (zip h other) (length other = length h)"

text \<open>\<^verbatim>\<open>Display for ShaHash\<close>: \<^verbatim>\<open>{:08x}\<close> pads the digits of every byte to eight characters.\<close>

definition hex_digit :: "nat \<Rightarrow> char" where
  "hex_digit n = ''0123456789abcdef'' ! n"

definition ShaHash_display :: "ShaHash \<Rightarrow> string" where
  "ShaHash_display h =
     concat (map (\<lambda>i. replicate 6 (hex_digit 0) @ [hex_digit (unat i div 16), hex_digit (unat i mod 16)]) h)"

section \<open>Piece constants\<close>

definition BLOCK_SIZE_MIN :: usize where
  "BLOCK_SIZE_MIN = 16384"

definition BLOCK_SIZE_MAX :: usize where
  "BLOCK_SIZE_MAX = 16777216"

datatype PieceSelection = Random | Rarest

section \<open>Lemmas\<close>

lemma first_set_from_Some:
  "first_set_from i bf = Some w \<Longrightarrow>
   \<exists>j < length bf. w = word_of_nat (i + j) \<and> bf ! j \<and> (\<forall>k < j. \<not> bf ! k)"
proof (induction bf arbitrary: i)
  case Nil
  then show ?case by simp
next
  case (Cons b bf)
  show ?case
  proof (cases b)
    case True
    with Cons.prems show ?thesis by (intro exI [of _ 0]) auto
  next
    case False
    with Cons.prems have "first_set_from (Suc i) bf = Some w" by simp
    from Cons.IH [OF this] obtain j
      where "j < length bf" "w = word_of_nat (Suc i + j)" "bf ! j" "\<forall>k < j. \<not> bf ! k" by blast
    with False show ?thesis
      by (intro exI [of _ "Suc j"]) (auto simp: nth_Cons split: nat.splits)
  qed
qed

lemma first_set_from_None: "first_set_from i bf = None \<longleftrightarrow> True \<notin> set bf"
  by (induction bf arbitrary: i) auto

lemma bv_all_iff: "bv_all bf \<longleftrightarrow> (\<forall>i < length bf. bf ! i)"
  by (simp add: bv_all_def list_all_length)

lemma length_bv_clear [simp]: "length (bv_clear bf) = length bf"
  by (simp add: bv_clear_def)

lemma ShaHash_eq_fold:
  "length xs = length ys \<Longrightarrow>
   fold (\<lambda>(a, b) prev. prev \<and> a = b) (zip xs ys) acc \<longleftrightarrow> acc \<and> xs = ys"
  by (induction xs ys arbitrary: acc rule: list_induct2) auto

lemma fold_conj_False: "\<not> fold (\<lambda>(a, b) prev. prev \<and> a = b) ps False"
  by (induction ps) auto

lemma ShaHash_eq_slice_iff: "ShaHash_eq_slice h other \<longleftrightarrow> other = h"
proof (cases "length other = length h")
  case True
  then show ?thesis using ShaHash_eq_fold [of h other True] by (auto simp: ShaHash_eq_slice_def)
next
  case False
  then show ?thesis using fold_conj_False by (auto simp: ShaHash_eq_slice_def)
qed

lemma ShaHash_try_from_exact [simp]:
  "length h = 20 \<Longrightarrow> ShaHash_try_from h = Some h"
  by (simp add: ShaHash_try_from_def SHA_HASH_LEN_def)

lemma ShaHash_display_length: "length h = SHA_HASH_LEN \<Longrightarrow> length (ShaHash_display h) = 160"
proof -
  have "length (ShaHash_display h) = 8 * length h" by (induction h) (simp_all add: ShaHash_display_def)
  then show "length h = SHA_HASH_LEN \<Longrightarrow> length (ShaHash_display h) = 160" by (simp add: SHA_HASH_LEN_def)
qed

end
