(* ===== verification/Messages.thy ===== *)
theory Messages
  imports Bitfield
begin

text \<open>
  The peer wire messages (\<^verbatim>\<open>src/proto/message.rs\<close>, \<^verbatim>\<open>src/piece.rs\<close>): their data, the length a
  message reserves and its serialisation.

  The byte order routines of the byteorder crate and the byte conversions of the bit-vec
  crate are the fields of a parameter of type \<open>wire_ext\<close>; what the code relies on is the
  locale \<open>wire_laws\<close>, whose assumptions are the documented behaviour of those two crates
  (big endian, the first bit of the vector in the high bit of the first byte, zero padding).
\<close>

section \<open>Data\<close>

record PeerRequest =
  pr_index :: u32
  pr_begin :: u32
  pr_length :: u32

record Piece =
  pc_index :: u32
  pc_begin :: u32
  pc_block :: "u8 list"

record Handshake =
  hs_reserved :: "u8 list"
  hs_info_hash :: ShaHash
  hs_peer_id :: ShaHash

definition Handshake_new :: "ShaHash \<Rightarrow> ShaHash \<Rightarrow> Handshake" where
  "Handshake_new info_hash peer_id =
     \<lparr>hs_reserved = [0, 0, 0, 0, 0, 0, 0, 0], hs_info_hash = info_hash, hs_peer_id = peer_id\<rparr>"

definition BITTORRENT_IDENTIFIER :: "u8 list" where
  "BITTORRENT_IDENTIFIER =
     [66, 105, 116, 84, 111, 114, 114, 101, 110, 116, 32, 112, 114, 111, 116, 111, 99, 111, 108]"

datatype PeerMessage =
    KeepAlive
  | Choke
  | UnChoke
  | Interested
  | NotInterested
  | Have u32
  | Bitfield BitField
  | Request PeerRequest
  | Cancel PeerRequest
  | Piece Piece
  | Handshake Handshake
  | Port u16

definition CHOKE_ID :: u8 where "CHOKE_ID = 0"
definition UNCHOKE_ID :: u8 where "UNCHOKE_ID = 1"
definition INTERESTED_ID :: u8 where "INTERESTED_ID = 2"
definition NOT_INTERESTED_ID :: u8 where "NOT_INTERESTED_ID = 3"
definition HAVE_ID :: u8 where "HAVE_ID = 4"
definition BITFIELD_ID :: u8 where "BITFIELD_ID = 5"
definition REQUEST_ID :: u8 where "REQUEST_ID = 6"
definition PIECE_ID :: u8 where "PIECE_ID = 7"
definition CANCEL_ID :: u8 where "CANCEL_ID = 8"
definition PORT_ID :: u8 where "PORT_ID = 9"
definition HANDSHAKE_ID :: u8 where "HANDSHAKE_ID = 19"

lemmas message_ids = CHOKE_ID_def UNCHOKE_ID_def INTERESTED_ID_def NOT_INTERESTED_ID_def
  HAVE_ID_def BITFIELD_ID_def REQUEST_ID_def PIECE_ID_def CANCEL_ID_def PORT_ID_def
  HANDSHAKE_ID_def

section \<open>The external routines\<close>

record wire_ext =
  read_u32 :: "u8 list \<Rightarrow> u32"
  write_u32 :: "u32 \<Rightarrow> u8 list"
  read_u16 :: "u8 list \<Rightarrow> u16"
  write_u16 :: "u16 \<Rightarrow> u8 list"
  bv_from_bytes :: "u8 list \<Rightarrow> BitField"
  bv_to_bytes :: "BitField \<Rightarrow> u8 list"

section \<open>Length and serialisation\<close>

fun PeerMessage_len :: "PeerMessage \<Rightarrow> usize" where
  "PeerMessage_len KeepAlive = 4 + 0"
| "PeerMessage_len Choke = 4 + 1"
| "PeerMessage_len UnChoke = 4 + 1"
| "PeerMessage_len Interested = 4 + 1"
| "PeerMessage_len NotInterested = 4 + 1"
| "PeerMessage_len (Have _) = 4 + (1 + 4)"
| "PeerMessage_len (Bitfield index_field) =
     4 + (let len = length index_field div 8;
              rem = length index_field mod 8;
              len' = (if rem > 0 then len + 1 else len)
          in 1 + len')"
| "PeerMessage_len (Request _) = 4 + (1 + 12)"
| "PeerMessage_len (Cancel _) = 4 + (1 + 12)"
| "PeerMessage_len (Piece piece) = 4 + (1 + 8 + length (pc_block piece))"
| "PeerMessage_len (Handshake _) = 4 + (45 + 19)"
| "PeerMessage_len (Port _) = 4 + (1 + 4)"

text \<open>
  \<^verbatim>\<open>as_bytes\<close>; writing to a \<^verbatim>\<open>Vec\<close> cannot fail, so the \<^verbatim>\<open>io::Result\<close> is always \<^verbatim>\<open>Ok\<close>. The length
  prefix of \<^verbatim>\<open>Bitfield\<close> and \<^verbatim>\<open>Piece\<close> is computed in 32 bits.
\<close>

fun as_bytes :: "wire_ext \<Rightarrow> PeerMessage \<Rightarrow> u8 list" where
  "as_bytes E KeepAlive = write_u32 E 0"
| "as_bytes E Choke = write_u32 E 1 @ [0]"
| "as_bytes E UnChoke = write_u32 E 1 @ [1]"
| "as_bytes E Interested = write_u32 E 1 @ [2]"
| "as_bytes E NotInterested = write_u32 E 1 @ [3]"
| "as_bytes E (Have index) = write_u32 E 5 @ [4] @ write_u32 E index"
| "as_bytes E (Bitfield index_field) =
     write_u32 E (1 + word_of_nat (length index_field)) @ [5] @ bv_to_bytes E index_field"
| "as_bytes E (Request r) =
     write_u32 E 13 @ [6] @ write_u32 E (pr_index r) @ write_u32 E (pr_begin r)
       @ write_u32 E (pr_length r)"
| "as_bytes E (Piece p) =
     write_u32 E (9 + word_of_nat (length (pc_block p))) @ [7] @ write_u32 E (pc_index p)
       @ write_u32 E (pc_begin p) @ pc_block p"
| "as_bytes E (Cancel r) =
     write_u32 E 13 @ [8] @ write_u32 E (pr_index r) @ write_u32 E (pr_begin r)
       @ write_u32 E (pr_length r)"
| "as_bytes E (Port port) = write_u32 E 3 @ [9] @ write_u16 E port"
| "as_bytes E (Handshake h) =
     [19] @ BITTORRENT_IDENTIFIER @ hs_reserved h @ hs_info_hash h @ hs_peer_id h"

text \<open>The fixed-size arrays of the handshake, which Rust's types guarantee.\<close>

fun msg_wf :: "PeerMessage \<Rightarrow> bool" where
  "msg_wf (Handshake h) \<longleftrightarrow>
     length (hs_reserved h) = 8 \<and> length (hs_info_hash h) = 20 \<and> length (hs_peer_id h) = 20"
| "msg_wf _ \<longleftrightarrow> True"

section \<open>A reference implementation of the external routines\<close>

text \<open>
  Big endian integers and bit vectors written out. They show that the laws below can hold
  and evaluate the witnesses; the theorems are about any routines that satisfy the laws.
\<close>

definition be_write_u32 :: "u32 \<Rightarrow> u8 list" where
  "be_write_u32 w = [ucast (drop_bit 24 w), ucast (drop_bit 16 w), ucast (drop_bit 8 w), ucast w]"

definition be_read_u32 :: "u8 list \<Rightarrow> u32" where
  "be_read_u32 bs =
     word_of_nat (fold (\<lambda>b acc. acc * 256 + unat b) (take 4 bs) 0)"

definition be_write_u16 :: "u16 \<Rightarrow> u8 list" where
  "be_write_u16 w = [ucast (drop_bit 8 w), ucast w]"

definition be_read_u16 :: "u8 list \<Rightarrow> u16" where
  "be_read_u16 bs = word_of_nat (fold (\<lambda>b acc. acc * 256 + unat b) (take 2 bs) 0)"

definition byte_bits :: "u8 \<Rightarrow> bool list" where
  "byte_bits b = map (\<lambda>i. bit b (7 - i)) [0..<8]"

definition bits_byte :: "bool list \<Rightarrow> u8" where
  "bits_byte bs = word_of_nat (fold (\<lambda>b acc. 2 * acc + of_bool b) bs 0)"

fun bits_to_bytes :: "bool list \<Rightarrow> u8 list" where
  "bits_to_bytes [] = []"
| "bits_to_bytes (b # bs) =
     bits_byte (take 8 (b # bs) @ replicate (8 - length (b # bs)) False)
       # bits_to_bytes (drop 8 (b # bs))"

definition bits_from_bytes :: "u8 list \<Rightarrow> bool list" where
  "bits_from_bytes bs = concat (map byte_bits bs)"

definition std_wire :: wire_ext where
  "std_wire = \<lparr>read_u32 = be_read_u32, write_u32 = be_write_u32, read_u16 = be_read_u16,
     write_u16 = be_write_u16, bv_from_bytes = bits_from_bytes, bv_to_bytes = bits_to_bytes\<rparr>"

lemma unat_drop_bit: "unat (drop_bit k w) = unat w div 2 ^ k"
  unfolding unat_drop_bit_eq by (simp add: drop_bit_eq_div)

lemma unat_byte: "unat (ucast (drop_bit k w) :: u8) = unat w div 2 ^ k mod 256"
  by (simp add: unsigned_ucast_eq unat_drop_bit take_bit_eq_mod)

lemma unat_byte0: "unat (ucast w :: u8) = unat w mod 256"
  using unat_byte [of 0 w] by simp

section \<open>The laws of the external routines\<close>

locale wire_laws =
  fixes E :: wire_ext
  assumes length_write_u32: "length (write_u32 E w) = 4"
    and write_u32_msb_first: "write_u32 E w ! 0 = ucast (drop_bit 24 w)"
    and read_write_u32: "read_u32 E (write_u32 E w) = w"
    and length_write_u16: "length (write_u16 E p) = 2"
    and read_write_u16: "read_u16 E (write_u16 E p) = p"
    and length_to_bytes: "length (bv_to_bytes E bf) = (length bf + 7) div 8"
    and from_to_bytes: "take (length bf) (bv_from_bytes E (bv_to_bytes E bf)) = bf"
begin

lemmas write_lengths [simp] = length_write_u32 length_write_u16 length_to_bytes

lemma length_bitfield_bytes:
  "(n + 7) div 8 = (if (n::nat) mod 8 > 0 then n div 8 + 1 else n div 8)"
  by arith

lemma as_bytes_length:
  assumes "msg_wf m"
  shows "length (as_bytes E m) = (case m of Port _ \<Rightarrow> 7 | _ \<Rightarrow> PeerMessage_len m)"
proof (cases m)
  case (Bitfield f)
  then show ?thesis
    using length_bitfield_bytes [of "length f"] by (simp add: Let_def)
next
  case (Handshake h)
  with assms show ?thesis by (simp add: BITTORRENT_IDENTIFIER_def)
qed simp_all

text \<open>A length prefix that does not start with the byte 19 is told apart from a handshake.\<close>

lemma write_u32_not_handshake:
  assumes "unat w < 19 * 2 ^ 24"
  shows "write_u32 E w ! 0 \<noteq> HANDSHAKE_ID"
proof -
  have "unat (ucast (drop_bit 24 w) :: u8) = unat w div 2 ^ 24 mod 256"
    by (rule unat_byte)
  also from assms have "\<dots> \<noteq> 19" by simp
  finally have "(ucast (drop_bit 24 w) :: u8) \<noteq> 19" by (auto)
  then show ?thesis by (simp add: write_u32_msb_first HANDSHAKE_ID_def)
qed

end

section \<open>The reference implementation satisfies the laws\<close>

lemma byte_digits: "(n::nat) div (256 * m) * 256 + n div m mod 256 = n div m"
  by (metis div_mult2_eq div_mult_mod_eq mult.commute)

lemma unat_u32_bound: "unat (w :: u32) < 4294967296"
  using unsigned_less [of w, where ?'a = nat] by simp

lemma unat_u16_bound: "unat (w :: u16) < 65536"
  using unsigned_less [of w, where ?'a = nat] by simp

lemma u32_digits:
  "n < 4294967296 \<Longrightarrow>
   ((n div 16777216 * 256 + n div 65536 mod 256) * 256 + n div 256 mod 256) * 256 + n mod 256
     = (n::nat)"
  using byte_digits [of n "256 * 256"] byte_digits [of n 256] byte_digits [of n 1] by simp

lemma be_read_write_u32: "be_read_u32 (be_write_u32 w) = w"
proof -
  have "unat w div 16777216 mod 256 = unat w div 16777216"
    using unat_u32_bound [of w] by simp
  with u32_digits [OF unat_u32_bound [of w]] show ?thesis
    by (simp add: be_read_u32_def be_write_u32_def unat_drop_bit unat_byte unat_byte0
        del: of_nat_add of_nat_mult)
qed

lemma be_read_write_u16: "be_read_u16 (be_write_u16 w) = w"
proof -
  have "unat w div 256 mod 256 = unat w div 256"
    using unat_u16_bound [of w] by simp
  with byte_digits [of "unat w" 1] show ?thesis
    by (simp add: be_read_u16_def be_write_u16_def unat_drop_bit unat_byte unat_byte0
        del: of_nat_add of_nat_mult)
qed

lemma eight_bits:
  "byte_bits (bits_byte [a, b, c, d, e, f, g, h]) = [a, b, c, d, e, f, g, h]"
  by (cases a; cases b; cases c; cases d; cases e; cases f; cases g; cases h;
      simp add: byte_bits_def bits_byte_def upt_rec)

lemma length_8_conv: "length bs = 8 \<Longrightarrow> \<exists>a b c d e f g h. bs = [a, b, c, d, e, f, g, h]"
  by (auto simp: eval_nat_numeral length_Suc_conv)

lemma byte_bits_byte: "length bs = 8 \<Longrightarrow> byte_bits (bits_byte bs) = bs"
  using length_8_conv eight_bits by metis

lemma length_bits_to_bytes: "length (bits_to_bytes bs) = (length bs + 7) div 8"
proof (induction bs rule: bits_to_bytes.induct)
  case (2 b bs)
  then show ?case by (cases "7 \<le> length bs") auto
qed simp

lemma bits_from_to_bytes: "take (length bs) (bits_from_bytes (bits_to_bytes bs)) = bs"
proof (induction bs rule: bits_to_bytes.induct)
  case (2 b bs)
  let ?xs = "b # bs" and ?pad = "replicate (8 - length (b # bs)) False"
  have len: "length (take 8 ?xs @ ?pad) = 8" by simp
  have "bits_from_bytes (bits_to_bytes ?xs)
      = (take 8 ?xs @ ?pad) @ bits_from_bytes (bits_to_bytes (drop 8 ?xs))"
    using byte_bits_byte [OF len] by (simp add: bits_from_bytes_def)
  moreover have
    "take (length ?xs) ((take 8 ?xs @ ?pad) @ ys) = take 8 ?xs @ take (length (drop 8 ?xs)) ys"
    if "length ?xs > 8" for ys using that by simp
  ultimately show ?case using 2
    by (cases "length ?xs > 8")
      (simp_all del: bits_to_bytes.simps drop_Suc_Cons add: append_take_drop_id)
qed (simp add: bits_from_bytes_def)

interpretation std: wire_laws std_wire
  by unfold_locales
    (simp_all add: std_wire_def be_read_write_u32 be_read_write_u16 length_bits_to_bytes
      bits_from_to_bytes, simp_all add: be_write_u32_def be_write_u16_def)

end
