(* ===== verification/Codec.thy ===== *)
theory Codec
  imports Messages
begin

text \<open>
  The frame codec (\<^verbatim>\<open>src/proto/codec.rs\<close>). \<^verbatim>\<open>PeerWireCodec::decode\<close> reads at most one message from
  the front of the receive buffer; its result is a panic, an error, a request for more bytes
  or a message, together with the buffer that is left. A \<^verbatim>\<open>BytesMut\<close> is the list of its bytes:
  \<^verbatim>\<open>split_to(n)\<close> takes the first \<^verbatim>\<open>n\<close> bytes out, \<^verbatim>\<open>advance(n)\<close> drops them, and \<^verbatim>\<open>reserve\<close> has no
  visible effect.
\<close>

section \<open>The decoder\<close>

text \<open>The codec keeps a limit that neither the decoder nor the encoder reads.\<close>

record PeerWireCodec =
  pwc_max :: usize

definition new_with_max_length :: "usize \<Rightarrow> PeerWireCodec" where
  "new_with_max_length max_length = \<lparr>pwc_max = max_length\<rparr>"

definition PeerWireCodec_default :: PeerWireCodec where
  "PeerWireCodec_default = \<lparr>pwc_max = 4 + 1 + 8 + BLOCK_SIZE_MAX\<rparr>"

text \<open>
  The upgrades of \<^verbatim>\<open>src/proto/mod.rs\<close> wrap a connection in a \<^verbatim>\<open>Framed\<close> with the default codec;
  \<open>framed_new\<close> is the constructor of futures_codec. The configuration and the name agreed on are not used.
\<close>

definition upgrade_inbound :: "('c \<Rightarrow> PeerWireCodec \<Rightarrow> 's) \<Rightarrow> 'c \<Rightarrow> 'e + 's" where
  "upgrade_inbound framed_new incoming = Inr (framed_new incoming PeerWireCodec_default)"

definition upgrade_outbound :: "('c \<Rightarrow> PeerWireCodec \<Rightarrow> 's) \<Rightarrow> 'c \<Rightarrow> 'e + 's" where
  "upgrade_outbound framed_new incoming = Inr (framed_new incoming PeerWireCodec_default)"

datatype decode_error =
    UnsupportedHandshake
  | UnexpectedLength1 u8
  | UnexpectedLength5 u8
  | EmptyBitField
  | UnexpectedMessage u8

type_synonym decode_result = "((decode_error + PeerMessage option) \<times> u8 list) panics"

abbreviation need_more :: "u8 list \<Rightarrow> decode_result" where
  "need_more src \<equiv> Some (Inr None, src)"

abbreviation decoded :: "PeerMessage \<Rightarrow> u8 list \<Rightarrow> decode_result" where
  "decoded m src \<equiv> Some (Inr (Some m), src)"

abbreviation decode_err :: "decode_error \<Rightarrow> u8 list \<Rightarrow> decode_result" where
  "decode_err e src \<equiv> Some (Inl e, src)"

definition decode_handshake :: "u8 list \<Rightarrow> decode_result" where
  "decode_handshake src =
     (if length src < 68 then need_more src
      else do {
        ident \<leftarrow> slice src 1 20;
        if ident \<noteq> BITTORRENT_IDENTIFIER then decode_err UnsupportedHandshake src
        else do {
          let msg = drop 20 (take 68 src);
          reserved \<leftarrow> slice msg 0 8;
          info \<leftarrow> slice msg 8 28;
          info_hash \<leftarrow> ShaHash_try_from info;
          pid \<leftarrow> slice msg 28 48;
          peer_id \<leftarrow> ShaHash_try_from pid;
          decoded (Handshake \<lparr>hs_reserved = reserved, hs_info_hash = info_hash,
                              hs_peer_id = peer_id\<rparr>) (drop 68 src)
        }
      })"

definition read_request :: "wire_ext \<Rightarrow> u8 list \<Rightarrow> PeerRequest panics" where
  "read_request E msg = do {
     i \<leftarrow> slice msg 5 9;
     b \<leftarrow> slice msg 9 13;
     l \<leftarrow> slice msg 13 17;
     Some \<lparr>pr_index = read_u32 E i, pr_begin = read_u32 E b, pr_length = read_u32 E l\<rparr>
   }"

definition read_piece :: "wire_ext \<Rightarrow> u8 list \<Rightarrow> Piece panics" where
  "read_piece E msg = do {
     i \<leftarrow> slice msg 5 9;
     b \<leftarrow> slice msg 9 13;
     block \<leftarrow> slice msg 13 (length msg);
     Some \<lparr>pc_index = read_u32 E i, pc_begin = read_u32 E b, pc_block = block\<rparr>
   }"

text \<open>\<^verbatim>\<open>BigEndian::read_u16\<close> panics on fewer than two bytes.\<close>

definition read_port :: "wire_ext \<Rightarrow> u8 list \<Rightarrow> u16 panics" where
  "read_port E msg = do {
     p \<leftarrow> slice msg 5 (length msg);
     if length p < 2 then None else Some (read_u16 E p)
   }"

text \<open>The \<^verbatim>\<open>length => ...\<close> arm: \<^verbatim>\<open>src[4]\<close> is read before the buffer is known to hold it.\<close>

definition decode_long :: "wire_ext \<Rightarrow> nat \<Rightarrow> u8 list \<Rightarrow> decode_result" where
  "decode_long E len src =
     (if length src \<le> 4 then None
      else if src ! 4 = BITFIELD_ID then
        let number_of_pieces = len - 1 in
        if number_of_pieces = 0 then decode_err EmptyBitField src
        else
          let bitfield_bytes_len =
                (if number_of_pieces mod 8 > 0 then number_of_pieces div 8 + 1
                 else number_of_pieces div 8);
              msg_bytes_length = bitfield_bytes_len + 5
          in if length src < msg_bytes_length then need_more src
             else
               let msg = take msg_bytes_length src;
                   index_field = take number_of_pieces (bv_from_bytes E (drop 5 msg))
               in decoded (Bitfield index_field) (drop msg_bytes_length src)
      else
        let msg_bytes_length = 4 + len in
        if length src < msg_bytes_length then need_more src
        else
          let msg = take msg_bytes_length src; rest = drop msg_bytes_length src in
          if src ! 4 = REQUEST_ID then
            do { request \<leftarrow> read_request E msg; decoded (Request request) rest }
          else if src ! 4 = PIECE_ID then
            do { piece \<leftarrow> read_piece E msg; decoded (Piece piece) rest }
          else if src ! 4 = CANCEL_ID then
            do { request \<leftarrow> read_request E msg; decoded (Cancel request) rest }
          else if src ! 4 = PORT_ID then
            do { port \<leftarrow> read_port E msg; decoded (Port port) rest }
          else decode_err (UnexpectedMessage (src ! 4)) src)"

definition decode_frame :: "wire_ext \<Rightarrow> nat \<Rightarrow> u8 list \<Rightarrow> decode_result" where
  "decode_frame E len src =
     (if len = 0 then decoded KeepAlive (drop 4 src)
      else if len = 1 then
        if length src < 5 then need_more src
        else if src ! 4 = CHOKE_ID then decoded Choke (drop 5 src)
        else if src ! 4 = UNCHOKE_ID then decoded UnChoke (drop 5 src)
        else if src ! 4 = INTERESTED_ID then decoded Interested (drop 5 src)
        else if src ! 4 = NOT_INTERESTED_ID then decoded NotInterested (drop 5 src)
        else decode_err (UnexpectedLength1 (src ! 4)) src
      else if len = 5 then
        if length src < 9 then need_more src
        else if src ! 4 = HAVE_ID then
          do { i \<leftarrow> slice (take 9 src) 5 9; decoded (Have (read_u32 E i)) (drop 9 src) }
        else decode_err (UnexpectedLength5 (src ! 4)) src
      else decode_long E len src)"

definition decode :: "wire_ext \<Rightarrow> u8 list \<Rightarrow> decode_result" where
  "decode E src =
     (if length src < 4 then need_more src
      else if src ! 0 = HANDSHAKE_ID then decode_handshake src
      else decode_frame E (unat (read_u32 E (take 4 src))) src)"

text \<open>\<^verbatim>\<open>Encoder::encode\<close> appends the message's bytes to the send buffer.\<close>

definition encode :: "wire_ext \<Rightarrow> PeerMessage \<Rightarrow> u8 list \<Rightarrow> u8 list" where
  "encode E item dst = dst @ as_bytes E item"

section \<open>What the statements are about\<close>

text \<open>The messages that take the \<^verbatim>\<open>length => ...\<close> arm of the decoder.\<close>

fun long_frame :: "PeerMessage \<Rightarrow> bool" where
  "long_frame (Bitfield _) \<longleftrightarrow> True"
| "long_frame (Request _) \<longleftrightarrow> True"
| "long_frame (Cancel _) \<longleftrightarrow> True"
| "long_frame (Piece _) \<longleftrightarrow> True"
| "long_frame (Port _) \<longleftrightarrow> True"
| "long_frame _ \<longleftrightarrow> False"

text \<open>
  The messages whose frame can be told apart: a bitfield with 0 or 4 pieces has the length
  prefix of the one-byte and the \<^verbatim>\<open>Have\<close> frames, and a length prefix of \<^term>\<open>19 * 2 ^ 24 :: nat\<close> or
  more may start with the handshake's byte.
\<close>

fun encodable :: "PeerMessage \<Rightarrow> bool" where
  "encodable (Bitfield f) \<longleftrightarrow> length f \<noteq> 0 \<and> length f \<noteq> 4 \<and> length f + 1 < 19 * 2 ^ 24"
| "encodable (Piece p) \<longleftrightarrow> length (pc_block p) + 9 < 19 * 2 ^ 24"
| "encodable m \<longleftrightarrow> msg_wf m"

text \<open>Decoding repeatedly, as the framing layer does, and encoding a list of messages.\<close>

fun decode_many :: "wire_ext \<Rightarrow> nat \<Rightarrow> u8 list \<Rightarrow> (PeerMessage list \<times> u8 list) option" where
  "decode_many E 0 src = Some ([], src)"
| "decode_many E (Suc n) src =
     (case decode E src of
        Some (Inr (Some m), src') \<Rightarrow>
          (case decode_many E n src' of
             Some (ms, rest) \<Rightarrow> Some (m # ms, rest)
           | None \<Rightarrow> None)
      | _ \<Rightarrow> None)"

definition encode_all :: "wire_ext \<Rightarrow> PeerMessage list \<Rightarrow> u8 list \<Rightarrow> u8 list" where
  "encode_all E ms dst = fold (encode E) ms dst"

section \<open>Lemmas\<close>

lemma encodable_wf: "encodable m \<Longrightarrow> msg_wf m"
  by (cases m) auto

lemma slice_mid: "length xs = a \<Longrightarrow> length ys = b - a \<Longrightarrow> a \<le> b \<Longrightarrow>
  slice (xs @ ys @ zs) a b = Some ys"
  by (simp add: slice_def)

lemma slice_end: "length xs = a \<Longrightarrow> b = a + length ys \<Longrightarrow> slice (xs @ ys) a b = Some ys"
  by (simp add: slice_def)

lemma unat_small_add: "k + n < 2 ^ 32 \<Longrightarrow> unat (word_of_nat k + word_of_nat n :: u32) = k + n"
  by (simp add: unsigned_of_nat take_bit_eq_mod flip: of_nat_add)

lemma decode_handshake_bytes:
  assumes "msg_wf (Handshake h)"
  shows "decode_handshake (as_bytes E (Handshake h) @ rest) = decoded (Handshake h) rest"
proof -
  let ?I = "BITTORRENT_IDENTIFIER"
  have I: "length ?I = 19" by (simp add: BITTORRENT_IDENTIFIER_def)
  have id: "slice (19 # ?I @ ys) 1 20 = Some ?I" for ys
    using I by (simp add: slice_def)
  have "drop 20 (take 68 (19 # ?I @ hs_reserved h @ hs_info_hash h @ hs_peer_id h @ rest))
      = hs_reserved h @ hs_info_hash h @ hs_peer_id h"
    using assms I by simp
  with assms I id show ?thesis
    by (simp add: decode_handshake_def slice_def Let_def)
qed

context wire_laws
begin

lemma take4 [simp]: "take 4 (write_u32 E w @ r) = write_u32 E w"
  by simp

lemma nth4 [simp]: "(write_u32 E w @ x # r) ! 4 = x"
  by (simp add: nth_append)

lemma decode_prefixed:
  assumes "unat w < 19 * 2 ^ 24"
  shows "decode E (write_u32 E w @ r) = decode_frame E (unat w) (write_u32 E w @ r)"
proof -
  have "(write_u32 E w @ r) ! 0 \<noteq> HANDSHAKE_ID"
    using write_u32_not_handshake [OF assms] length_write_u32 [of w] by (simp add: nth_append)
  then show ?thesis by (simp add: decode_def read_write_u32)
qed

lemma read_request_bytes:
  "read_request E (write_u32 E w @ x # write_u32 E a @ write_u32 E b @ write_u32 E c)
     = Some \<lparr>pr_index = a, pr_begin = b, pr_length = c\<rparr>"
  by (simp add: read_request_def slice_def read_write_u32)

lemma read_piece_bytes:
  "read_piece E (write_u32 E w @ x # write_u32 E a @ write_u32 E b @ blk)
     = Some \<lparr>pc_index = a, pc_begin = b, pc_block = blk\<rparr>"
  by (simp add: read_piece_def slice_def read_write_u32)

lemma decode_bitfield_bytes:
  assumes "encodable (Bitfield f)"
  shows "decode E (as_bytes E (Bitfield f) @ rest) = decoded (Bitfield f) rest"
proof -
  let ?n = "length f"
  let ?w = "1 + word_of_nat ?n :: u32"
  let ?src = "write_u32 E ?w @ 5 # bv_to_bytes E f @ rest"
  from assms have w: "unat ?w = Suc ?n"
    using unat_small_add [of 1 ?n] by simp
  with assms have small: "unat ?w < 19 * 2 ^ 24" by simp
  have k: "(if ?n mod 8 > 0 then ?n div 8 + 1 else ?n div 8) = (?n + 7) div 8"
    using length_bitfield_bytes [of ?n] by simp
  have "drop 5 (take ((?n + 7) div 8 + 5) ?src) = bv_to_bytes E f" by simp
  then have "decode_long E (Suc ?n) ?src = decoded (Bitfield f) rest"
    using assms from_to_bytes [of f]
    by (simp add: decode_long_def message_ids Let_def k)
  then show ?thesis
    using assms decode_prefixed [OF small, of "5 # bv_to_bytes E f @ rest"]
    by (simp add: decode_frame_def w)
qed

lemma decode_piece_bytes:
  assumes "encodable (Piece p)"
  shows "decode E (as_bytes E (Piece p) @ rest) = decoded (Piece p) rest"
proof -
  let ?n = "length (pc_block p)"
  let ?w = "9 + word_of_nat ?n :: u32"
  let ?msg = "write_u32 E ?w @ 7 # write_u32 E (pc_index p) @ write_u32 E (pc_begin p) @ pc_block p"
  from assms have w: "unat ?w = 9 + ?n"
    using unat_small_add [of 9 ?n] by simp
  with assms have small: "unat ?w < 19 * 2 ^ 24" by simp
  have "length ?msg = 4 + (9 + ?n)" by simp
  then have "take (4 + (9 + ?n)) (?msg @ rest) = ?msg"
    and "drop (4 + (9 + ?n)) (?msg @ rest) = rest"
    by (metis append_eq_conv_conj)+
  then have "decode_long E (9 + ?n) (?msg @ rest) = decoded (Piece p) rest"
    by (simp add: decode_long_def message_ids Let_def read_piece_bytes)
  then show ?thesis
    using decode_prefixed [OF small]
    by (simp add: decode_frame_def w)
qed

lemma decode_as_bytes:
  assumes "encodable m"
  shows "decode E (as_bytes E m @ rest) = decoded m rest"
proof (cases m)
  case (Handshake h)
  with assms decode_handshake_bytes [of h E rest] show ?thesis
    by (simp add: decode_def HANDSHAKE_ID_def BITTORRENT_IDENTIFIER_def)
next
  case (Bitfield f)
  with assms decode_bitfield_bytes show ?thesis by blast
next
  case (Piece p)
  with assms decode_piece_bytes show ?thesis by blast
qed (simp_all add: decode_prefixed decode_frame_def decode_long_def message_ids Let_def
    read_request_bytes read_port_def slice_def read_write_u16 read_write_u32)

lemma decode_prefix_short:
  "n < 4 \<Longrightarrow> decode E (take n src) = need_more (take n src)"
  by (simp add: decode_def min_less_iff_disj)

lemma decode_handshake_incomplete:
  "4 \<le> length src \<Longrightarrow> length src < 68 \<Longrightarrow> src ! 0 = HANDSHAKE_ID \<Longrightarrow>
   decode E src = need_more src"
  by (simp add: decode_def decode_handshake_def)

lemma decode_handshake_prefix:
  assumes "msg_wf (Handshake h)" and "4 \<le> n" and "n < 68"
  shows "decode E (take n (as_bytes E (Handshake h))) = need_more (take n (as_bytes E (Handshake h)))"
  using assms as_bytes_length [OF assms(1)]
  by (intro decode_handshake_incomplete) (simp_all add: HANDSHAKE_ID_def nth_Cons')

lemma decode_long_incomplete:
  assumes "x \<noteq> BITFIELD_ID" and "length r + 1 < len"
  shows "decode_long E len (write_u32 E w @ x # r) = need_more (write_u32 E w @ x # r)"
  using assms by (simp add: decode_long_def Let_def)

lemma decode_prefix_4:
  assumes "encodable m" and "4 < length (as_bytes E m)"
  shows "decode E (take 4 (as_bytes E m))
    = (if long_frame m then None else need_more (take 4 (as_bytes E m)))"
proof (cases m)
  case (Bitfield f)
  let ?w = "1 + word_of_nat (length f) :: u32"
  from assms Bitfield have "unat ?w = Suc (length f)"
    using unat_small_add [of 1 "length f"] by simp
  with assms Bitfield decode_prefixed [of ?w "[]"] show ?thesis
    by (simp add: decode_frame_def decode_long_def)
next
  case (Piece p)
  let ?w = "9 + word_of_nat (length (pc_block p)) :: u32"
  from assms Piece have "unat ?w = 9 + length (pc_block p)"
    using unat_small_add [of 9 "length (pc_block p)"] by simp
  with assms Piece decode_prefixed [of ?w "[]"] show ?thesis
    by (simp add: decode_frame_def decode_long_def)
next
  case (Handshake h)
  with assms decode_handshake_prefix [of h 4] show ?thesis by simp
qed (use assms decode_prefixed [of _ "[]"] in
      \<open>simp_all add: decode_frame_def decode_long_def\<close>)

lemma take_past_id:
  "take (5 + k) (write_u32 E w @ x # r) = write_u32 E w @ x # take k r"
  by simp

lemma decode_prefix_past_id:
  assumes "encodable m" and "5 + k < length (as_bytes E m)"
  shows "decode E (take (5 + k) (as_bytes E m)) = need_more (take (5 + k) (as_bytes E m))"
proof (cases m)
  case (Bitfield f)
  let ?n = "length f" and ?w = "1 + word_of_nat (length f) :: u32"
  from assms Bitfield have "unat ?w = Suc ?n"
    using unat_small_add [of 1 ?n] by simp
  moreover have "(if ?n mod 8 > 0 then ?n div 8 + 1 else ?n div 8) = (?n + 7) div 8"
    using length_bitfield_bytes [of ?n] by simp
  ultimately show ?thesis
    using assms Bitfield decode_prefixed [of ?w "5 # take k (bv_to_bytes E f)"]
    by (simp add: decode_frame_def decode_long_def message_ids Let_def)
next
  case (Piece p)
  let ?w = "9 + word_of_nat (length (pc_block p)) :: u32"
  let ?r = "write_u32 E (pc_index p) @ write_u32 E (pc_begin p) @ pc_block p"
  from assms Piece have "unat ?w = 9 + length (pc_block p)"
    using unat_small_add [of 9 "length (pc_block p)"] by simp
  moreover have "take (5 + k) (as_bytes E m) = write_u32 E ?w @ 7 # take k ?r"
    using Piece by simp
  moreover have "length (take k ?r) + 1 < 9 + length (pc_block p)"
    using assms Piece by simp
  ultimately show ?thesis
    using assms Piece decode_prefixed [of ?w "7 # take k ?r"]
      decode_long_incomplete [of 7 "take k ?r" "9 + length (pc_block p)" ?w]
    by (simp add: decode_frame_def message_ids)
next
  case (Request q)
  let ?r = "write_u32 E (pr_index q) @ write_u32 E (pr_begin q) @ write_u32 E (pr_length q)"
  have "take (5 + k) (as_bytes E m) = write_u32 E 13 @ 6 # take k ?r"
    using Request by simp
  moreover have "length (take k ?r) + 1 < 13"
    using assms Request by simp
  ultimately show ?thesis
    using decode_prefixed [of 13 "6 # take k ?r"] decode_long_incomplete [of 6 "take k ?r" 13 13]
    by (simp add: decode_frame_def message_ids)
next
  case (Cancel q)
  let ?r = "write_u32 E (pr_index q) @ write_u32 E (pr_begin q) @ write_u32 E (pr_length q)"
  have "take (5 + k) (as_bytes E m) = write_u32 E 13 @ 8 # take k ?r"
    using Cancel by simp
  moreover have "length (take k ?r) + 1 < 13"
    using assms Cancel by simp
  ultimately show ?thesis
    using decode_prefixed [of 13 "8 # take k ?r"] decode_long_incomplete [of 8 "take k ?r" 13 13]
    by (simp add: decode_frame_def message_ids)
next
  case (Handshake h)
  with assms as_bytes_length [of m] decode_handshake_prefix [of h "5 + k"] show ?thesis by simp
qed (use assms in \<open>simp_all add: decode_prefixed decode_frame_def decode_long_def message_ids
      Let_def\<close>)

lemma decode_prefix:
  assumes "encodable m" and "n < length (as_bytes E m)"
  shows "decode E (take n (as_bytes E m))
    = (if n = 4 \<and> long_frame m then None else need_more (take n (as_bytes E m)))"
proof -
  consider "n < 4" | "n = 4" | k where "n = 5 + k"
    by (metis add.commute add_Suc_right le_Suc_ex linorder_cases not_less_eq_eq numeral_eq_Suc
        pred_numeral_simps(3) Suc_leI)
  then show ?thesis
    using assms decode_prefix_short decode_prefix_4 decode_prefix_past_id by cases auto
qed

lemma decode_many_encoded:
  "\<forall>m \<in> set ms. encodable m \<Longrightarrow>
   decode_many E (length ms) (concat (map (as_bytes E) ms) @ rest) = Some (ms, rest)"
  by (induction ms) (simp_all add: decode_as_bytes)

end

lemma encode_all_concat: "encode_all E ms dst = dst @ concat (map (as_bytes E) ms)"
  by (induction ms arbitrary: dst) (simp_all add: encode_all_def encode_def)

lemma decode_handshake_Some: "\<exists>r. decode_handshake src = Some r"
  by (simp add: decode_handshake_def slice_def ShaHash_try_from_def SHA_HASH_LEN_def Let_def)

lemma read_request_None: "read_request E msg = None \<longleftrightarrow> length msg < 17"
  by (auto simp: read_request_def slice_def)

lemma read_piece_None: "read_piece E msg = None \<longleftrightarrow> length msg < 13"
  by (auto simp: read_piece_def slice_def)

lemma read_port_None: "read_port E msg = None \<longleftrightarrow> length msg < 7"
  by (auto simp: read_port_def slice_def)

lemma bind_decoded_None: "(do { x \<leftarrow> p; Some (f x) }) = None \<longleftrightarrow> p = None"
  by (cases p) auto

lemmas read_None = read_request_None read_piece_None read_port_None

lemma decode_long_None:
  assumes "4 \<le> length src" and "2 \<le> len"
  shows "decode_long E len src = None \<longleftrightarrow>
    length src = 4 \<or> 4 + len \<le> length src \<and>
      (src ! 4 \<in> {REQUEST_ID, CANCEL_ID} \<and> len < 13 \<or> src ! 4 = PIECE_ID \<and> len < 9
       \<or> src ! 4 = PORT_ID \<and> len < 3)"
  using assms unfolding decode_long_def Let_def
  by (auto simp: message_ids read_None bind_decoded_None)

definition rest_ok :: "u8 list \<Rightarrow> (decode_error + PeerMessage option) \<times> u8 list \<Rightarrow> bool" where
  "rest_ok src r \<longleftrightarrow>
     (case fst r of
        Inr (Some m) \<Rightarrow> (\<exists>n \<ge> 4. n \<le> length src \<and> snd r = drop n src)
      | _ \<Rightarrow> snd r = src)"

lemma rest_ok_simps [simp]:
  "rest_ok src (Inl e, src)"
  "rest_ok src (Inr None, src)"
  by (simp_all add: rest_ok_def)

lemma rest_ok_drop: "4 \<le> n \<Longrightarrow> n \<le> length src \<Longrightarrow> rest_ok src (Inr (Some m), drop n src)"
  by (auto simp: rest_ok_def)

lemma bind_rest_ok:
  "(\<And>x. rest_ok src (f x)) \<Longrightarrow> (do { x \<leftarrow> p; Some (f x) }) = Some r \<Longrightarrow> rest_ok src r"
  by (cases p) auto

lemma decode_handshake_rest: "decode_handshake src = Some r \<Longrightarrow> rest_ok src r"
  by (auto simp: decode_handshake_def Let_def bind_eq_Some_conv intro: rest_ok_drop
      split: if_splits)

lemma decode_long_rest: "decode_long E len src = Some r \<Longrightarrow> rest_ok src r"
  by (auto simp: decode_long_def Let_def bind_eq_Some_conv intro!: rest_ok_drop split: if_splits)

lemma decode_frame_rest: "4 \<le> length src \<Longrightarrow> decode_frame E len src = Some r \<Longrightarrow> rest_ok src r"
  by (auto simp: decode_frame_def bind_eq_Some_conv intro!: rest_ok_drop
      intro: decode_long_rest split: if_splits)

lemma decode_rest: "decode E src = Some r \<Longrightarrow> rest_ok src r"
  by (auto simp: decode_def dest: decode_handshake_rest decode_frame_rest [rotated]
      split: if_splits)

section \<open>Properties\<close>

text \<open>
  C1. Round trip: for every message whose frame can be told apart (\<^const>\<open>encodable\<close>), decoding
  a buffer that starts with the message's bytes returns exactly that message and leaves
  exactly the bytes after it.
\<close>

theorem decode_encode_roundtrip:
  assumes "wire_laws E" and "encodable m"
  shows "decode E (encode E m [] @ rest) = Some (Inr (Some m), rest)"
  using wire_laws.decode_as_bytes [OF assms] by (simp add: encode_def)

theorem decode_encode_roundtrip_witness:
  "decode std_wire (encode std_wire (Bitfield [True, False, True]) [] @ [0, 0, 0, 0])
     = Some (Inr (Some (Bitfield [True, False, True])), [0, 0, 0, 0])"
  by (rule decode_encode_roundtrip [OF std.wire_laws_axioms]) simp



text \<open>
  C32. Incomplete frames: on a strict prefix of an encoded message the decoder asks for more
  bytes and keeps the buffer, with one exception: when exactly the four bytes of the length
  prefix of a \<^verbatim>\<open>Bitfield\<close>, \<^verbatim>\<open>Request\<close>, \<^verbatim>\<open>Cancel\<close>, \<^verbatim>\<open>Piece\<close> or \<^verbatim>\<open>Port\<close> frame have arrived it panics,
  because it reads \<^verbatim>\<open>src[4]\<close> without a length check.
\<close>

theorem decode_incomplete_frame:
  assumes "wire_laws E" and "encodable m" and "n < length (as_bytes E m)"
  shows "decode E (take n (as_bytes E m))
    = (if n = 4 \<and> long_frame m then None else Some (Inr None, take n (as_bytes E m)))"
  using wire_laws.decode_prefix [OF assms] .

theorem decode_incomplete_frame_witness:
  "decode std_wire (take 4 (as_bytes std_wire (Port 8080))) = None \<and>
   decode std_wire (take 5 (as_bytes std_wire (Port 8080)))
     = Some (Inr None, take 5 (as_bytes std_wire (Port 8080)))"
proof -
  have len: "length (as_bytes std_wire (Port 8080)) = 7"
    using std.as_bytes_length [of "Port 8080"] by simp
  then show ?thesis
    using decode_incomplete_frame [OF std.wire_laws_axioms, of "Port 8080" 4]
      decode_incomplete_frame [OF std.wire_laws_axioms, of "Port 8080" 5] by simp
qed

text \<open>
  C33. Exactly which buffers make the decoder panic: a non-handshake frame whose length prefix
  is not 0, 1 or 5 and of which only the prefix has arrived, or a complete \<^verbatim>\<open>Request\<close>, \<^verbatim>\<open>Cancel\<close>,
  \<^verbatim>\<open>Piece\<close> or \<^verbatim>\<open>Port\<close> frame whose length prefix is too small for its fixed fields. A remote can
  send either.
\<close>

theorem decode_panics_iff:
  "decode E src = None \<longleftrightarrow>
     4 \<le> length src \<and> src ! 0 \<noteq> HANDSHAKE_ID \<and>
     (let len = unat (read_u32 E (take 4 src)) in
        len \<notin> {0, 1, 5} \<and>
        (length src = 4 \<or> 4 + len \<le> length src \<and>
           (src ! 4 \<in> {REQUEST_ID, CANCEL_ID} \<and> len < 13 \<or> src ! 4 = PIECE_ID \<and> len < 9
            \<or> src ! 4 = PORT_ID \<and> len < 3)))"
proof (cases "length src < 4 \<or> src ! 0 = HANDSHAKE_ID")
  case True
  then show ?thesis using decode_handshake_Some [of src] by (auto simp: decode_def)
next
  case False
  let ?len = "unat (read_u32 E (take 4 src))"
  show ?thesis
  proof (cases "?len \<in> {0, 1, 5}")
    case True
    with False show ?thesis by (auto simp: decode_def decode_frame_def slice_def Let_def)
  next
    case long: False
    then have "2 \<le> ?len" by auto
    with False long decode_long_None [of src ?len E] show ?thesis
      by (simp add: decode_def decode_frame_def Let_def)
  qed
qed

text \<open>
  Consumption: a decoded message removes a non-empty front part (at least four bytes) of
  the buffer and leaves the rest untouched; an error or a request for more bytes leaves the
  whole buffer, so the framing layer's loop over \<^verbatim>\<open>decode\<close> always makes progress.
\<close>

theorem decode_consumes_front:
  assumes "decode E src = Some (res, src')"
  shows "(case res of
            Inr (Some m) \<Rightarrow> \<exists>n. 4 \<le> n \<and> n \<le> length src \<and> src' = drop n src
          | _ \<Rightarrow> src' = src)"
  using decode_rest [OF assms] by (auto simp: rest_ok_def split: sum.splits option.splits)

theorem decode_consumes_front_witness:
  "\<exists>n. 4 \<le> n \<and> n \<le> length [0, 0, 0, 1, 1, 9 :: u8] \<and> [9] = drop n [0, 0, 0, 1, 1, 9 :: u8]"
proof -
  have "decode std_wire [0, 0, 0, 1, 1, 9] = Some (Inr (Some UnChoke), [9])"
    by (simp add: decode_def decode_frame_def std_wire_def be_read_u32_def message_ids)
  from decode_consumes_front [OF this] show ?thesis by simp
qed

text \<open>
  A bitfield of exactly four pieces cannot be exchanged: its length prefix is 5, the
  prefix of a \<^verbatim>\<open>Have\<close> frame. Alone in the buffer the decoder waits for three bytes that never
  belong to it, and once any three more bytes have arrived it reports an error.
\<close>

theorem bitfield_of_four_undecodable:
  assumes "wire_laws E" and "length f = 4"
  shows "decode E (as_bytes E (Bitfield f) @ rest)
    = (if length rest < 3 then Some (Inr None, as_bytes E (Bitfield f) @ rest)
       else Some (Inl (UnexpectedLength5 BITFIELD_ID), as_bytes E (Bitfield f) @ rest))"
proof -
  let ?src = "as_bytes E (Bitfield f) @ rest"
  have src: "?src = write_u32 E 5 @ 5 # bv_to_bytes E f @ rest"
    using assms(2) by simp
  have len: "length ?src = 6 + length rest"
    using assms(2) wire_laws.as_bytes_length [OF assms(1), of "Bitfield f"] by simp
  have "decode E ?src = decode_frame E 5 ?src"
    unfolding src using wire_laws.decode_prefixed [OF assms(1), of 5] by simp
  moreover have "?src ! 4 = BITFIELD_ID"
    unfolding src by (simp only: wire_laws.nth4 [OF assms(1)] BITFIELD_ID_def)
  ultimately show ?thesis
    using len by (simp add: decode_frame_def message_ids del: as_bytes.simps)
qed

theorem bitfield_of_four_undecodable_witness:
  "decode std_wire (as_bytes std_wire (Bitfield [True, True, False, True]) @ [])
     = Some (Inr None, as_bytes std_wire (Bitfield [True, True, False, True]) @ [])"
  using bitfield_of_four_undecodable [OF std.wire_laws_axioms, of "[True, True, False, True]" "[]"]
  by simp

text \<open>
  \<^verbatim>\<open>PeerMessage::len\<close> reserves enough for every message, and exactly the serialised length
  for every message but \<^verbatim>\<open>Port\<close>, for which it reserves two bytes more than are written.
\<close>

theorem reserved_length_exact:
  assumes "wire_laws E" and "msg_wf m"
  shows "length (as_bytes E m) + (case m of Port _ \<Rightarrow> 2 | _ \<Rightarrow> 0) = PeerMessage_len m"
  using wire_laws.as_bytes_length [OF assms] by (cases m) simp_all

theorem reserved_length_exact_witness:
  "length (as_bytes std_wire (Request \<lparr>pr_index = 1, pr_begin = 2, pr_length = 16384\<rparr>)) + 0 = 17"
  using reserved_length_exact [OF std.wire_laws_axioms,
      of "Request \<lparr>pr_index = 1, pr_begin = 2, pr_length = 16384\<rparr>"] by simp

end
