(* ===== verification/Blocks.thy ===== *)
theory Blocks
  imports Messages
begin

text \<open>
  Blocks of a piece and their metadata (\<^verbatim>\<open>src/disk/block.rs\<close>, first part), with the conversions
  between a block, a wire \<^verbatim>\<open>Piece\<close> and a wire \<^verbatim>\<open>PeerRequest\<close>; the identifiers of torrents and
  peers (\<^verbatim>\<open>src/peer/torrent.rs\<close>). \<^verbatim>\<open>BlockMut\<close> has the same two fields as \<^verbatim>\<open>Block\<close> and differs only in
  the mutability of its buffer, so both are one record here. A \<^verbatim>\<open>PeerId\<close> of libp2p is opaque:
  the code only compares it, so it is a number.
\<close>

section \<open>Identifiers\<close>

type_synonym PeerId = nat

datatype TorrentId = TorrentId (torrent_num: usize)

instantiation TorrentId :: linorder
begin

definition less_eq_TorrentId :: "TorrentId \<Rightarrow> TorrentId \<Rightarrow> bool" where
  "less_eq_TorrentId a b \<longleftrightarrow> torrent_num a \<le> torrent_num b"

definition less_TorrentId :: "TorrentId \<Rightarrow> TorrentId \<Rightarrow> bool" where
  "less_TorrentId a b \<longleftrightarrow> torrent_num a < torrent_num b"

instance
  by standard (auto simp: less_eq_TorrentId_def less_TorrentId_def intro: TorrentId.expand)

end

section \<open>Blocks\<close>

record BlockMetadata =
  bm_piece_index :: u64
  bm_block_offset :: u64
  bm_block_length :: usize

definition BlockMetadata_new :: "u64 \<Rightarrow> u64 \<Rightarrow> usize \<Rightarrow> BlockMetadata" where
  "BlockMetadata_new piece_index block_offset block_length =
     \<lparr>bm_piece_index = piece_index, bm_block_offset = block_offset, bm_block_length = block_length\<rparr>"

definition BlockMetadata_from_request :: "PeerRequest \<Rightarrow> BlockMetadata" where
  "BlockMetadata_from_request request =
     \<lparr>bm_piece_index = unat (pr_index request), bm_block_offset = unat (pr_begin request),
      bm_block_length = unat (pr_length request)\<rparr>"

definition BlockMetadata_into_request :: "BlockMetadata \<Rightarrow> PeerRequest" where
  "BlockMetadata_into_request m =
     \<lparr>pr_index = word_of_nat (bm_piece_index m), pr_begin = word_of_nat (bm_block_offset m),
      pr_length = word_of_nat (bm_block_length m)\<rparr>"

record Block =
  bl_metadata :: BlockMetadata
  bl_data :: "u8 list"

definition Block_new :: "BlockMetadata \<Rightarrow> u8 list \<Rightarrow> Block" where
  "Block_new metadata block_data = \<lparr>bl_metadata = metadata, bl_data = block_data\<rparr>"

definition is_correct_len :: "Block \<Rightarrow> bool" where
  "is_correct_len b \<longleftrightarrow> length (bl_data b) = bm_block_length (bl_metadata b)"

definition Block_from_piece :: "Piece \<Rightarrow> Block" where
  "Block_from_piece piece =
     \<lparr>bl_metadata = BlockMetadata_new (unat (pc_index piece)) (unat (pc_begin piece))
        (length (pc_block piece)),
      bl_data = pc_block piece\<rparr>"

definition Block_into_piece :: "Block \<Rightarrow> Piece" where
  "Block_into_piece b =
     \<lparr>pc_index = word_of_nat (bm_piece_index (bl_metadata b)),
      pc_begin = word_of_nat (bm_block_offset (bl_metadata b)), pc_block = bl_data b\<rparr>"

section \<open>Lemmas\<close>

lemma unat_word_of_nat_u32: "n < 2 ^ 32 \<Longrightarrow> unat (word_of_nat n :: u32) = n"
  by (simp add: unsigned_of_nat take_bit_eq_mod)

lemma BlockMetadata_from_into:
  assumes "bm_piece_index m < 2 ^ 32" and "bm_block_offset m < 2 ^ 32"
    and "bm_block_length m < 2 ^ 32"
  shows "BlockMetadata_from_request (BlockMetadata_into_request m) = m"
  using assms
  by (simp add: BlockMetadata_from_request_def BlockMetadata_into_request_def
      unat_word_of_nat_u32)

lemma BlockMetadata_into_from: "BlockMetadata_into_request (BlockMetadata_from_request r) = r"
  by (simp add: BlockMetadata_from_request_def BlockMetadata_into_request_def)

lemma Block_from_piece_correct_len: "is_correct_len (Block_from_piece p)"
  by (simp add: is_correct_len_def Block_from_piece_def BlockMetadata_new_def)

lemma Block_into_from_piece: "Block_into_piece (Block_from_piece p) = p"
  by (simp add: Block_into_piece_def Block_from_piece_def BlockMetadata_new_def)

lemma Block_from_into_piece:
  assumes "is_correct_len b"
    and "bm_piece_index (bl_metadata b) < 2 ^ 32" and "bm_block_offset (bl_metadata b) < 2 ^ 32"
  shows "Block_from_piece (Block_into_piece b) = b"
  using assms
  by (simp add: is_correct_len_def Block_into_piece_def Block_from_piece_def
      BlockMetadata_new_def unat_word_of_nat_u32)

end
