(* ===== verification/Metainfo.thy ===== *)
theory Metainfo
  imports Blocks
begin

text \<open>
  The metainfo of a torrent (\<^verbatim>\<open>src/torrent/mod.rs\<close>): its data and the lengths computed from it;
  and the error types shared by the components (\<^verbatim>\<open>src/disk/error.rs\<close>, \<^verbatim>\<open>src/behavior.rs\<close>).
  Its encoding is in theory \<^verbatim>\<open>MetainfoFiles\<close>. A Rust \<^verbatim>\<open>String\<close> is the list of its UTF-8 bytes. A path
  (\<^verbatim>\<open>PathBuf\<close>) is the list of the strings it was joined from. The \<^verbatim>\<open>info_hash\<close> field, a finished \<^verbatim>\<open>Sha1\<close> state in the
  code, is its digest.
\<close>

section \<open>Data\<close>

type_synonym rstring = "u8 list"
type_synonym path = "rstring list"

record DhtNode =
  dn_host :: rstring
  dn_port :: u32

record SubFileInfo =
  sf_length :: u64
  sf_paths :: "rstring list"

datatype InfoContent = Single (content_length: u64) | Multi "SubFileInfo list"

record TorrentInfo =
  ti_pieces :: "ShaHash list"
  ti_piece_length :: u64
  ti_content :: InfoContent
  ti_name :: rstring

record MetaInfo =
  mi_announce :: "rstring option"
  mi_announce_list :: "rstring list"
  mi_encoding :: "rstring option"
  mi_comment :: "rstring option"
  mi_created_by :: "rstring option"
  mi_creation_date :: "int option"
  mi_httpseeds :: "rstring list"
  mi_webseeds :: "rstring list"
  mi_info :: TorrentInfo
  mi_nodes :: "DhtNode list"
  mi_info_hash :: ShaHash

datatype TorrentError =
    Io
  | ExistingFileSizeCheck path u64 u64
  | ExistingTorrent MetaInfo
  | BadBlock BlockMetadata
  | BadPiece u64
  | TorrentNotFound TorrentId
  | MismatchedHashes ShaHash ShaHash

datatype BlockErr =
    NotRequested PeerId Block
  | InvalidBlock PeerId BlockMetadata Block

section \<open>Operations\<close>

definition is_tracker_less :: "MetaInfo \<Rightarrow> bool" where
  "is_tracker_less m \<longleftrightarrow> mi_nodes m \<noteq> []"

fun is_file :: "InfoContent \<Rightarrow> bool" where
  "is_file (Single _) = True"
| "is_file (Multi _) = False"

definition is_dir :: "InfoContent \<Rightarrow> bool" where
  "is_dir c \<longleftrightarrow> \<not> is_file c"

text \<open>\<^verbatim>\<open>iter().sum()\<close> of the file lengths: 64-bit additions from the left.\<close>

fun sum_lengths :: "bool \<Rightarrow> u64 \<Rightarrow> SubFileInfo list \<Rightarrow> u64 panics" where
  "sum_lengths checks acc [] = Some acc"
| "sum_lengths checks acc (f # fs) =
     do { acc' \<leftarrow> u64_add checks acc (sf_length f); sum_lengths checks acc' fs }"

fun InfoContent_length :: "bool \<Rightarrow> InfoContent \<Rightarrow> u64 panics" where
  "InfoContent_length checks (Single len) = Some len"
| "InfoContent_length checks (Multi files) = sum_lengths checks 0 files"

definition last_piece_length :: "bool \<Rightarrow> TorrentInfo \<Rightarrow> u64 panics" where
  "last_piece_length checks ti = do {
     total \<leftarrow> InfoContent_length checks (ti_content ti);
     n \<leftarrow> u64_sub checks (length (ti_pieces ti)) 1;
     full \<leftarrow> u64_mul checks n (ti_piece_length ti);
     u64_sub checks total full
   }"

text \<open>The remainder panics when the piece length is zero, with or without overflow checks.\<close>

definition last_piece_size :: "bool \<Rightarrow> TorrentInfo \<Rightarrow> usize panics" where
  "last_piece_size checks ti = do {
     total \<leftarrow> InfoContent_length checks (ti_content ti);
     if ti_piece_length ti = 0 then None else Some (total mod ti_piece_length ti)
   }"

definition file_name :: "SubFileInfo \<Rightarrow> rstring option" where
  "file_name f = (if sf_paths f = [] then None else Some (last (sf_paths f)))"

text \<open>\<^verbatim>\<open>Path::join\<close>: an absolute path replaces what it is joined to.\<close>

fun is_absolute :: "path \<Rightarrow> bool" where
  "is_absolute ((c # cs) # ps) = (c = 47)"
| "is_absolute ps = False"

definition path_join :: "path \<Rightarrow> path \<Rightarrow> path" where
  "path_join base p = (if is_absolute p then p else base @ p)"

definition relative_file_path :: "SubFileInfo \<Rightarrow> path" where
  "relative_file_path f = fold (\<lambda>p buf. path_join buf [p]) (sf_paths f) []"

definition all_files :: "TorrentInfo \<Rightarrow> path list" where
  "all_files ti =
     (case ti_content ti of
        Multi files \<Rightarrow> map relative_file_path files
      | Single _ \<Rightarrow> [[ti_name ti]])"

section \<open>Well-formed infos\<close>

definition total_length :: "InfoContent \<Rightarrow> nat" where
  "total_length c = (case c of Single n \<Rightarrow> n | Multi fs \<Rightarrow> sum_list (map sf_length fs))"

text \<open>
  The number of pieces covers the content: every piece but the last is full and the last is
  not empty. The builder produces such infos; a metainfo file read from outside need not.
\<close>

definition info_wf :: "TorrentInfo \<Rightarrow> bool" where
  "info_wf ti \<longleftrightarrow>
     0 < ti_piece_length ti \<and> ti_pieces ti \<noteq> [] \<and> total_length (ti_content ti) < 2 ^ 64 \<and>
     (length (ti_pieces ti) - 1) * ti_piece_length ti < total_length (ti_content ti) \<and>
     total_length (ti_content ti) \<le> length (ti_pieces ti) * ti_piece_length ti"

section \<open>Lemmas\<close>

lemma sum_lengths_small:
  "acc + sum_list (map sf_length fs) < 2 ^ 64 \<Longrightarrow>
   sum_lengths c acc fs = Some (acc + sum_list (map sf_length fs))"
  by (induction fs arbitrary: acc) (auto simp: add.assoc)

lemma InfoContent_length_small:
  "total_length ct < 2 ^ 64 \<Longrightarrow> InfoContent_length c ct = Some (total_length ct)"
  using sum_lengths_small [of 0 _ c] by (cases ct) (auto simp: total_length_def)

lemma wrap_minus_one:
  assumes "0 < p" and "p < 2 ^ 64"
  shows "(2 ^ 64 - 1) * p mod 2 ^ 64 = 2 ^ 64 - (p::nat)"
proof -
  from assms obtain q where q: "p = Suc q" by (cases p) auto
  have "(2 ^ 64 - 1) * Suc q = (2 ^ 64 - Suc q) + q * (2 ^ 64 :: nat)"
    using assms q by (simp add: algebra_simps)
  with assms q show ?thesis by (metis mod_mult_self1 mod_less diff_less zero_less_power zero_less_numeral)
qed

lemma relative_file_path_eq:
  assumes "\<forall>p \<in> set (sf_paths f). \<not> is_absolute [p]"
  shows "relative_file_path f = sf_paths f"
proof -
  have "fold (\<lambda>p buf. path_join buf [p]) ps acc = acc @ ps"
    if "\<forall>p \<in> set ps. \<not> is_absolute [p]" for ps acc
    using that by (induction ps arbitrary: acc) (auto simp: path_join_def)
  with assms show ?thesis by (simp add: relative_file_path_def)
qed

lemma last_piece_length_small:
  assumes "info_wf ti"
  shows "last_piece_length c ti
    = Some (total_length (ti_content ti) - (length (ti_pieces ti) - 1) * ti_piece_length ti)"
proof -
  let ?t = "total_length (ti_content ti)" and ?n = "length (ti_pieces ti)"
  from assms have t: "InfoContent_length c (ti_content ti) = Some ?t"
    by (intro InfoContent_length_small) (simp add: info_wf_def)
  from assms have n: "1 \<le> ?n" by (cases "ti_pieces ti") (auto simp: info_wf_def)
  from assms have m: "(?n - 1) * ti_piece_length ti < 2 ^ 64"
    by (auto simp: info_wf_def)
  from assms have "(?n - 1) * ti_piece_length ti \<le> ?t" by (auto simp: info_wf_def)
  with t n m show ?thesis by (simp add: last_piece_length_def)
qed

section \<open>Properties\<close>

text \<open>
  C34. For a well-formed info, with or without overflow checks, the last piece length is
  computed without panic, lies between 1 and the piece length, and together with the full
  pieces adds up to the length of the content.
\<close>

theorem last_piece_length_correct:
  assumes "info_wf ti"
  shows "\<exists>l. last_piece_length c ti = Some l \<and> 0 < l \<and> l \<le> ti_piece_length ti \<and>
    (length (ti_pieces ti) - 1) * ti_piece_length ti + l = total_length (ti_content ti)"
proof -
  from assms obtain k where k: "length (ti_pieces ti) = Suc k"
    by (cases "ti_pieces ti") (auto simp: info_wf_def)
  show ?thesis using last_piece_length_small [OF assms, of c] assms k by (auto simp: info_wf_def)
qed

theorem last_piece_length_correct_witness:
  "let ti = \<lparr>ti_pieces = [[], [], []], ti_piece_length = 10,
             ti_content = Multi [\<lparr>sf_length = 12, sf_paths = []\<rparr>, \<lparr>sf_length = 11, sf_paths = []\<rparr>],
             ti_name = []\<rparr>
   in \<exists>l. last_piece_length True ti = Some l \<and> 2 * 10 + l = 23"
  using last_piece_length_correct [of "\<lparr>ti_pieces = [[], [], []], ti_piece_length = 10,
      ti_content = Multi [\<lparr>sf_length = 12, sf_paths = []\<rparr>, \<lparr>sf_length = 11, sf_paths = []\<rparr>],
      ti_name = []\<rparr>" True]
  by (auto simp: info_wf_def total_length_def)

text \<open>
  A torrent without pieces: a build with overflow checks panics on the last piece length,
  a build without them silently returns the 64-bit wrap-around of the content length plus the
  piece length.
\<close>

theorem last_piece_length_no_pieces:
  assumes "ti_pieces ti = []" and "total_length (ti_content ti) + ti_piece_length ti < 2 ^ 64"
  shows "last_piece_length True ti = None \<and>
    last_piece_length False ti = Some (total_length (ti_content ti) + ti_piece_length ti)"
proof -
  let ?t = "total_length (ti_content ti)" and ?p = "ti_piece_length ti"
  from assms(2) have t: "InfoContent_length c (ti_content ti) = Some ?t" for c
    by (intro InfoContent_length_small) simp
  have full: "\<exists>f. u64_mul False (2 ^ 64 - 1) ?p = Some f \<and> u64_sub False ?t f = Some (?t + ?p)"
  proof (cases "?p = 0")
    case True
    then show ?thesis by (simp add: u64_mul_def)
  next
    case False
    with assms(2) have "u64_mul False (2 ^ 64 - 1) ?p = Some (2 ^ 64 - ?p)"
      using wrap_minus_one [of ?p] by (auto simp: u64_mul_def simp del: One_nat_def)
    with assms(2) show ?thesis by (auto simp: u64_sub_def)
  qed
  with assms(1) t show ?thesis
    by (auto simp: last_piece_length_def u64_sub_def)
qed

theorem last_piece_length_no_pieces_witness:
  "last_piece_length False \<lparr>ti_pieces = [], ti_piece_length = 10, ti_content = Single 5, ti_name = []\<rparr>
     = Some 15"
  using last_piece_length_no_pieces [of "\<lparr>ti_pieces = [], ti_piece_length = 10,
      ti_content = Single 5, ti_name = []\<rparr>"]
  by (simp add: total_length_def)

end
