(* ===== verification/Bencode.thy ===== *)
theory Bencode
  imports Metainfo "HOL-Library.List_Lexorder"
begin

text \<open>
  The interface of the bendy crate, which encodes and decodes bencoded data for
  \<^verbatim>\<open>src/torrent/mod.rs\<close> and \<^verbatim>\<open>src/tracker.rs\<close>.

  An encoder receives a sequence of calls; they form a tree, and bendy turns the tree into bytes. A
  decoder gives an object, which the code opens as a dictionary, a list, a string or a number. The
  items of a dictionary or list are the results that \<^verbatim>\<open>next_pair\<close> or \<^verbatim>\<open>next_object\<close> give one after the
  other; an error ends them. The operations of bendy are the fields of a record, what its
  documentation promises about them is \<open>bendy_laws\<close>: dictionaries must be emitted in the order of
  their keys, structures nested deeper than the limit are refused (leaves do not count), and what was
  emitted is what is decoded. Reading back bencoding itself is an instance.
\<close>

section \<open>Trees\<close>

datatype Ben = BInt int | BBytes "u8 list" | BList "Ben list" | BDict "(u8 list \<times> Ben) list"

fun compound :: "Ben \<Rightarrow> bool" where
  "compound (BList _) = True"
| "compound (BDict _) = True"
| "compound _ = False"

fun ben_depth :: "Ben \<Rightarrow> nat" where
  "ben_depth (BInt _) = 0"
| "ben_depth (BBytes _) = 0"
| "ben_depth (BList vs) = Suc (foldr (\<lambda>v. max (ben_depth v)) vs 0)"
| "ben_depth (BDict kvs) = Suc (foldr (\<lambda>kv. max (ben_depth (snd kv))) kvs 0)"

fun ben_sorted :: "Ben \<Rightarrow> bool" where
  "ben_sorted (BInt _) = True"
| "ben_sorted (BBytes _) = True"
| "ben_sorted (BList vs) = (\<forall>v \<in> set vs. ben_sorted v)"
| "ben_sorted (BDict kvs) = (sorted_wrt (<) (map fst kvs) \<and> (\<forall>kv \<in> set kvs. ben_sorted (snd kv)))"

section \<open>The operations of the crate\<close>

record ('o, 'e) bendy =
  bd_to_bencode :: "nat \<Rightarrow> Ben \<Rightarrow> 'e + u8 list"
  bd_next_object :: "nat \<Rightarrow> u8 list \<Rightarrow> 'e + 'o"
  try_into_dictionary :: "'o \<Rightarrow> 'e + ('e + u8 list \<times> 'o) list"
  try_into_list :: "'o \<Rightarrow> 'e + ('e + 'o) list"
  try_into_bytes :: "'o \<Rightarrow> 'e + u8 list"
  into_raw :: "'o \<Rightarrow> 'e + u8 list"
  decode_string :: "'o \<Rightarrow> 'e + rstring"
  decode_int :: "int \<Rightarrow> int \<Rightarrow> 'o \<Rightarrow> 'e + int"
  missing_field :: "string \<Rightarrow> 'e"
  unexpected_field :: "u8 list \<Rightarrow> 'e"
  with_context :: "string \<Rightarrow> 'e \<Rightarrow> 'e"

text \<open>How much deeper an element may be nested; the items of a compound object under that limit.\<close>

definition below :: "nat \<Rightarrow> Ben \<Rightarrow> nat" where
  "below r v = (if compound v then r - 1 else r)"

fun yields :: "('a \<Rightarrow> Ben) \<Rightarrow> ('a \<Rightarrow> 'x \<Rightarrow> bool) \<Rightarrow> nat \<Rightarrow> 'a list \<Rightarrow> ('e + 'x) list \<Rightarrow> bool" where
  "yields val R r [] xs \<longleftrightarrow> xs = []"
| "yields val R r (a # as) xs \<longleftrightarrow>
     (if compound (val a) \<and> r = 0 then (\<exists>e. xs = [Inl e])
      else (\<exists>x ys. xs = Inr x # ys \<and> R a x \<and> (ben_depth (val a) \<le> r \<longrightarrow> yields val R r as ys)))"

definition bendy_laws ::
  "('o, 'e) bendy \<Rightarrow> (u8 list \<Rightarrow> bool) \<Rightarrow> (Ben \<Rightarrow> u8 list) \<Rightarrow> ('o \<Rightarrow> Ben \<times> nat) \<Rightarrow> bool" where
  "bendy_laws B utf8 ser view \<longleftrightarrow>
     (\<forall>d v. ben_sorted v \<longrightarrow> ben_depth v \<le> d \<longrightarrow> bd_to_bencode B d v = Inr (ser v)) \<and>
     (\<forall>d v. \<not> (ben_sorted v \<and> ben_depth v \<le> d) \<longrightarrow> (\<exists>e. bd_to_bencode B d v = Inl e)) \<and>
     (\<forall>d v. ben_sorted v \<longrightarrow> \<not> (compound v \<and> d = 0) \<longrightarrow>
        (\<exists>ob. bd_next_object B d (ser v) = Inr ob \<and> view ob = (v, below d v))) \<and>
     (\<forall>ob kvs r. view ob = (BDict kvs, r) \<longrightarrow>
        (\<exists>xs. try_into_dictionary B ob = Inr xs \<and>
           yields snd (\<lambda>(k, v) (k', ob'). k' = k \<and> view ob' = (v, below r v)) r kvs xs)) \<and>
     (\<forall>ob vs r. view ob = (BList vs, r) \<longrightarrow>
        (\<exists>xs. try_into_list B ob = Inr xs \<and> yields (\<lambda>v. v) (\<lambda>v ob'. view ob' = (v, below r v)) r vs xs)) \<and>
     (\<forall>ob s r. view ob = (BBytes s, r) \<longrightarrow> try_into_bytes B ob = Inr s \<and>
        (if utf8 s then decode_string B ob = Inr s else (\<exists>e. decode_string B ob = Inl e))) \<and>
     (\<forall>ob n r lo hi. view ob = (BInt n, r) \<longrightarrow>
        (if lo \<le> n \<and> n \<le> hi then decode_int B lo hi ob = Inr n else (\<exists>e. decode_int B lo hi ob = Inl e))) \<and>
     (\<forall>ob kvs r. view ob = (BDict kvs, r) \<longrightarrow> ben_sorted (BDict kvs) \<longrightarrow> ben_depth (BDict kvs) \<le> Suc r \<longrightarrow>
        into_raw B ob = Inr (ser (BDict kvs))) \<and>
     (\<forall>ob s. decode_string B ob = Inr s \<longrightarrow> utf8 s) \<and>
     (\<forall>ob n lo hi. decode_int B lo hi ob = Inr n \<longrightarrow> lo \<le> n \<and> n \<le> hi)"

text \<open>The question mark of Rust, and the integer types.\<close>

definition and_then :: "'e + 'a \<Rightarrow> ('a \<Rightarrow> 'e + 'b) \<Rightarrow> 'e + 'b" where
  "and_then r f = (case r of Inl e \<Rightarrow> Inl e | Inr a \<Rightarrow> f a)"

definition ok_or :: "'e \<Rightarrow> 'a option \<Rightarrow> 'e + 'a" where
  "ok_or e x = (case x of Some a \<Rightarrow> Inr a | None \<Rightarrow> Inl e)"

definition map_err :: "('e \<Rightarrow> 'f) \<Rightarrow> 'e + 'a \<Rightarrow> 'f + 'a" where
  "map_err f r = (case r of Inl e \<Rightarrow> Inl (f e) | Inr a \<Rightarrow> Inr a)"

definition decode_u64 :: "('o, 'e) bendy \<Rightarrow> 'o \<Rightarrow> 'e + u64" where
  "decode_u64 B ob = and_then (decode_int B 0 (2 ^ 64 - 1) ob) (\<lambda>n. Inr (nat n))"

definition decode_u32 :: "('o, 'e) bendy \<Rightarrow> 'o \<Rightarrow> 'e + u32" where
  "decode_u32 B ob = and_then (decode_int B 0 (2 ^ 32 - 1) ob) (\<lambda>n. Inr (word_of_int n))"

definition decode_i64 :: "('o, 'e) bendy \<Rightarrow> 'o \<Rightarrow> 'e + int" where
  "decode_i64 B = decode_int B (- (2 ^ 63)) (2 ^ 63 - 1)"

text \<open>Byte string literals.\<close>

definition bstr :: "string \<Rightarrow> u8 list" where
  "bstr s = map of_char s"

text \<open>The loops \<^verbatim>\<open>while let Some(x) = ...?\<close> over a list and over a dictionary.\<close>

fun list_loop :: "('o \<Rightarrow> 'e + 'a) \<Rightarrow> ('e + 'o) list \<Rightarrow> 'a list \<Rightarrow> 'e + 'a list" where
  "list_loop f [] acc = Inr acc"
| "list_loop f (x # xs) acc = and_then x (\<lambda>ob. and_then (f ob) (\<lambda>a. list_loop f xs (acc @ [a])))"

fun dict_loop :: "(u8 list \<Rightarrow> 'o \<Rightarrow> 's \<Rightarrow> 'e + 's) \<Rightarrow> ('e + u8 list \<times> 'o) list \<Rightarrow> 's \<Rightarrow> 'e + 's" where
  "dict_loop f [] s = Inr s"
| "dict_loop f (x # xs) s = and_then x (\<lambda>(k, ob). and_then (f k ob s) (dict_loop f xs))"

lemma bstr_inject [simp]: "bstr s = bstr t \<longleftrightarrow> s = t"
proof -
  have "inj (of_char :: char \<Rightarrow> u8)"
  proof (rule injI)
    fix c d :: char
    assume "(of_char c :: u8) = of_char d"
    then have "unat (of_nat (of_char c) :: u8) = unat (of_nat (of_char d) :: u8)" by (simp only: of_nat_of_char)
    then have "(of_char c :: nat) mod 256 = of_char d mod 256" by (simp only: unat_of_nat) simp
    then show "c = d" by (simp only: of_char_mod_256 of_char_eq_iff)
  qed
  then show ?thesis by (simp add: bstr_def inj_map_eq_map)
qed

lemma depth_member: "kv \<in> set kvs \<Longrightarrow> ben_depth (snd kv) < ben_depth (BDict kvs)"
  by (induction kvs) (auto simp: less_Suc_eq_le max.coboundedI1 max.coboundedI2)

lemma map_err_Inr [simp]: "map_err f r = Inr a \<longleftrightarrow> r = Inr a"
  by (auto simp: map_err_def split: sum.splits)

lemma ok_or_Inr [simp]: "ok_or e x = Inr a \<longleftrightarrow> x = Some a"
  by (auto simp: ok_or_def split: option.splits)

section \<open>Bencoding\<close>

fun digits :: "nat \<Rightarrow> u8 list" where
  "digits n = (if n < 10 then [of_nat (48 + n)] else digits (n div 10) @ [of_nat (48 + n mod 10)])"

fun ben_bytes :: "Ben \<Rightarrow> u8 list" where
  "ben_bytes (BInt i) = 105 # (if i < 0 then 45 # digits (nat (- i)) else digits (nat i)) @ [101]"
| "ben_bytes (BBytes s) = digits (length s) @ 58 # s"
| "ben_bytes (BList vs) = 108 # concat (map ben_bytes vs) @ [101]"
| "ben_bytes (BDict kvs) = 100 # concat (map (\<lambda>kv. digits (length (fst kv)) @ 58 # fst kv @ ben_bytes (snd kv)) kvs) @ [101]"

definition is_digit :: "u8 \<Rightarrow> bool" where
  "is_digit c \<longleftrightarrow> 48 \<le> c \<and> c \<le> 57"

fun parse_nat :: "nat \<Rightarrow> u8 list \<Rightarrow> nat \<times> u8 list" where
  "parse_nat acc [] = (acc, [])"
| "parse_nat acc (c # bs) = (if is_digit c then parse_nat (10 * acc + (unat c - 48)) bs else (acc, c # bs))"

fun parse_str :: "u8 list \<Rightarrow> (u8 list \<times> u8 list) option" where
  "parse_str bs = (case parse_nat 0 bs of
     (n, c # rest) \<Rightarrow> if c = 58 \<and> n \<le> length rest then Some (take n rest, drop n rest) else None
   | _ \<Rightarrow> None)"

fun parse_int :: "u8 list \<Rightarrow> (int \<times> u8 list) option" where
  "parse_int bs =
     (let (neg, bs1) = (case bs of c # cs \<Rightarrow> if c = 45 then (True, cs) else (False, bs) | [] \<Rightarrow> (False, [])) in
      case parse_nat 0 bs1 of
        (n, c # rest) \<Rightarrow> if c = 101 then Some (if neg then - int n else int n, rest) else None
      | _ \<Rightarrow> None)"

text \<open>The fuel bounds the number of objects and closing marks; the length of the data is enough.\<close>

fun parse :: "nat \<Rightarrow> u8 list \<Rightarrow> (Ben \<times> u8 list) option"
  and parse_list :: "nat \<Rightarrow> u8 list \<Rightarrow> (Ben list \<times> u8 list) option"
  and parse_dict :: "nat \<Rightarrow> u8 list \<Rightarrow> ((u8 list \<times> Ben) list \<times> u8 list) option" where
  "parse 0 bs = None"
| "parse (Suc n) bs = (case bs of [] \<Rightarrow> None | c # cs \<Rightarrow>
     if c = 105 then map_option (apfst BInt) (parse_int cs)
     else if c = 108 then map_option (apfst BList) (parse_list n cs)
     else if c = 100 then map_option (apfst BDict) (parse_dict n cs)
     else map_option (apfst BBytes) (parse_str bs))"
| "parse_list 0 bs = None"
| "parse_list (Suc n) bs = (case bs of [] \<Rightarrow> None | c # cs \<Rightarrow>
     if c = 101 then Some ([], cs)
     else do { (v, rest) \<leftarrow> parse n bs; (vs, rest') \<leftarrow> parse_list n rest; Some (v # vs, rest') })"
| "parse_dict 0 bs = None"
| "parse_dict (Suc n) bs = (case bs of [] \<Rightarrow> None | c # cs \<Rightarrow>
     if c = 101 then Some ([], cs)
     else do { (k, rest) \<leftarrow> parse_str bs; (v, rest1) \<leftarrow> parse n rest; (kvs, rest') \<leftarrow> parse_dict n rest1;
               Some ((k, v) # kvs, rest') })"

lemma digits_digit: "\<forall>c \<in> set (digits n). is_digit c" "digits n \<noteq> []"
proof -
  show "\<forall>c \<in> set (digits n). is_digit c"
  proof (induction n rule: digits.induct)
    case (1 n)
    have d: "is_digit (of_nat (48 + m))" if "m < 10" for m
    proof -
      from that have "m \<in> {0,1,2,3,4,5,6,7,8,9}" by auto
      then show ?thesis by (auto simp: is_digit_def)
    qed
    show ?case
      apply (subst digits.simps)
      using 1 d [of n] d [of "n mod 10"] by (auto simp del: digits.simps of_nat_add)
  qed
  show "digits n \<noteq> []" by (subst digits.simps) simp
qed


lemma parse_nat_append:
  "\<forall>c \<in> set ds. is_digit c \<Longrightarrow>
   parse_nat acc (ds @ rest) = parse_nat (foldl (\<lambda>a c. 10 * a + (unat c - 48)) acc ds) rest"
  by (induction ds arbitrary: acc) auto

lemma digit_value: "m < 10 \<Longrightarrow> unat (of_nat (48 + m) :: u8) - 48 = m"
  by (simp add: unat_of_nat del: of_nat_add)

lemma digits_value: "foldl (\<lambda>a c. 10 * a + (unat c - 48)) 0 (digits n) = n"
proof (induction n rule: digits.induct)
  case (1 n)
  show ?case
  proof (cases "n < 10")
    case True
    then show ?thesis by (subst digits.simps) (simp only: foldl.simps if_True digit_value mult_0_right add_0_left)
  next
    case False
    have "digits n = digits (n div 10) @ [of_nat (48 + n mod 10)]" by (subst digits.simps) (simp only: False if_False)
    with 1 [OF False] show ?thesis by (simp add: digit_value del: digits.simps of_nat_add)
  qed
qed

lemma parse_nat_digits:
  "(\<forall>c cs. rest = c # cs \<longrightarrow> \<not> is_digit c) \<Longrightarrow> parse_nat 0 (digits n @ rest) = (n, rest)"
  using parse_nat_append [OF digits_digit(1), of 0 n rest] digits_value [of n]
  by (cases rest) (simp_all del: digits.simps)

lemma parse_str_bytes: "parse_str (digits (length s) @ 58 # s @ rest) = Some (s, rest)"
proof -
  have "parse_nat 0 (digits (length s) @ 58 # s @ rest) = (length s, 58 # s @ rest)"
    by (rule parse_nat_digits) (simp add: is_digit_def)
  then show ?thesis by (simp del: digits.simps)
qed

lemma digits_hd: "\<exists>c cs. digits n = c # cs \<and> is_digit c"
  using digits_digit [of n] by (cases "digits n") (simp_all del: digits.simps)

lemma parse_int_bytes:
  "parse_int ((if i < 0 then 45 # digits (nat (- i)) else digits (nat i)) @ 101 # rest) = Some (i, rest)"
proof -
  have p: "parse_nat 0 (digits n @ 101 # rest) = (n, 101 # rest)" for n
    by (rule parse_nat_digits) (simp add: is_digit_def)
  obtain c cs where c: "digits (nat i) = c # cs" "is_digit c" using digits_hd by blast
  then have "c \<noteq> 45" by (auto simp: is_digit_def)
  with c p [of "nat i"] p [of "nat (- i)"] show ?thesis by (simp del: digits.simps)
qed

fun ben_size :: "Ben \<Rightarrow> nat" where
  "ben_size (BInt _) = 1"
| "ben_size (BBytes _) = 1"
| "ben_size (BList vs) = 2 + sum_list (map (\<lambda>v. 1 + ben_size v) vs)"
| "ben_size (BDict kvs) = 2 + sum_list (map (\<lambda>kv. 1 + ben_size (snd kv)) kvs)"

lemma ben_bytes_hd:
  "\<exists>c cs. ben_bytes v = c # cs \<and> c \<noteq> 101"
proof (cases v)
  case (BBytes s)
  with digits_hd [of "length s"] show ?thesis by (auto simp: is_digit_def simp del: digits.simps)
qed auto

lemma parse_bytes: "ben_size v \<le> n \<Longrightarrow> parse n (ben_bytes v @ rest) = Some (v, rest)"
proof (induction v arbitrary: n rest)
  case (BInt i)
  then obtain m where "n = Suc m" by (cases n) auto
  with parse_int_bytes [of i rest] show ?case by (simp del: digits.simps parse_int.simps)
next
  case (BBytes s)
  then obtain m where n: "n = Suc m" by (cases n) auto
  obtain c cs where c: "digits (length s) = c # cs" "is_digit c" using digits_hd by blast
  then have "c \<noteq> 105" "c \<noteq> 108" "c \<noteq> 100" by (auto simp: is_digit_def)
  with n c parse_str_bytes [of s rest] show ?case by (simp del: digits.simps parse_str.simps)
next
  case (BList vs)
  have "\<lbrakk>\<forall>v \<in> set vs. \<forall>n rest. ben_size v \<le> n \<longrightarrow> parse n (ben_bytes v @ rest) = Some (v, rest);
      1 + sum_list (map (\<lambda>v. 1 + ben_size v) vs) \<le> m\<rbrakk>
    \<Longrightarrow> parse_list m (concat (map ben_bytes vs) @ 101 # rest) = Some (vs, rest)" for vs m rest
  proof (induction vs arbitrary: m)
    case Nil
    then show ?case by (cases m) auto
  next
    case (Cons v vs)
    then obtain k where m: "m = Suc k" by (cases m) auto
    obtain c cs where c: "ben_bytes v = c # cs" "c \<noteq> 101" using ben_bytes_hd by blast
    from Cons m c show ?case by (auto simp del: digits.simps)
  qed
  from this [of vs "n - 1" rest] BList show ?case by (cases n) auto
next
  case (BDict kvs)
  have "\<lbrakk>\<forall>kv \<in> set kvs. \<forall>n rest. ben_size (snd kv) \<le> n \<longrightarrow> parse n (ben_bytes (snd kv) @ rest) = Some (snd kv, rest);
      1 + sum_list (map (\<lambda>kv. 1 + ben_size (snd kv)) kvs) \<le> m\<rbrakk>
    \<Longrightarrow> parse_dict m (concat (map (\<lambda>kv. digits (length (fst kv)) @ 58 # fst kv @ ben_bytes (snd kv)) kvs) @ 101 # rest)
      = Some (kvs, rest)" for kvs m rest
  proof (induction kvs arbitrary: m)
    case Nil
    then show ?case by (cases m) auto
  next
    case (Cons kv kvs)
    then obtain k where m: "m = Suc k" by (cases m) auto
    obtain c cs where c: "digits (length (fst kv)) = c # cs" "is_digit c" using digits_hd by blast
    then have "c \<noteq> 101" by (auto simp: is_digit_def)
    with Cons m c parse_str_bytes [of "fst kv"] show ?case
      by (auto simp del: digits.simps parse_str.simps)
  qed
  moreover have "\<forall>kv \<in> set kvs. \<forall>n rest. ben_size (snd kv) \<le> n \<longrightarrow> parse n (ben_bytes (snd kv) @ rest) = Some (snd kv, rest)"
    using BDict.IH by (metis prod.collapse snds.intros prod_set_simps(2) singletonI)
  ultimately show ?case using BDict.prems by (cases n) (simp_all del: digits.simps)
qed


lemma sum_list_mono2: "(\<And>x. x \<in> set xs \<Longrightarrow> f x \<le> 2 * length (g x)) \<Longrightarrow> sum_list (map f xs) \<le> 2 * length (concat (map g xs))"
  by (induction xs) (auto simp: add_le_mono)

lemma ben_size_length: "Suc (ben_size v) \<le> 2 * length (ben_bytes v)"
proof (induction v)
  case (BInt i)
  show ?case by (simp del: digits.simps)
next
  case (BBytes s)
  show ?case using digits_digit(2) [of "length s"] by (cases "digits (length s)") (simp_all del: digits.simps)
next
  case (BList vs)
  have "sum_list (map (\<lambda>v. 1 + ben_size v) vs) \<le> 2 * length (concat (map ben_bytes vs))"
    by (rule sum_list_mono2) (use BList in simp)
  then show ?case by simp
next
  case (BDict kvs)
  have "1 + ben_size (snd kv) \<le> 2 * length (ben_bytes (snd kv))" if "kv \<in> set kvs" for kv
    using BDict [of kv "snd kv"] that by (cases kv) auto
  then have "1 + ben_size (snd kv) \<le> 2 * length (digits (length (fst kv)) @ 58 # fst kv @ ben_bytes (snd kv))"
    if "kv \<in> set kvs" for kv using that by (fastforce simp del: digits.simps ben_bytes.simps ben_size.simps)
  then have "sum_list (map (\<lambda>kv. 1 + ben_size (snd kv)) kvs)
      \<le> 2 * length (concat (map (\<lambda>kv. digits (length (fst kv)) @ 58 # fst kv @ ben_bytes (snd kv)) kvs))"
    by (rule sum_list_mono2)
  then show ?case by (simp del: digits.simps)
qed

lemma parse_ben_bytes: "parse (2 * length (ben_bytes v)) (ben_bytes v) = Some (v, [])"
  using parse_bytes [of v "2 * length (ben_bytes v)" "[]"] ben_size_length [of v] by simp

section \<open>An instance\<close>

fun items :: "('a \<Rightarrow> Ben) \<Rightarrow> nat \<Rightarrow> ('a \<Rightarrow> 'x) \<Rightarrow> 'a list \<Rightarrow> (string + 'x) list" where
  "items val r f [] = []"
| "items val r f (a # as) =
     (if compound (val a) \<and> r = 0 then [Inl ''nesting too deep''] else Inr (f a) # items val r f as)"

definition ascii :: "u8 list \<Rightarrow> bool" where
  "ascii s = list_all (\<lambda>c. c < 128) s"

definition bencoding :: "(Ben \<times> nat, string) bendy" where
  "bencoding =
     \<lparr>bd_to_bencode = (\<lambda>d v. if ben_sorted v \<and> ben_depth v \<le> d then Inr (ben_bytes v) else Inl ''structure''),
      bd_next_object = (\<lambda>d bs. case parse (2 * length bs) bs of
         Some (v, _) \<Rightarrow> if compound v \<and> d = 0 then Inl ''nesting too deep'' else Inr (v, below d v)
       | None \<Rightarrow> Inl ''malformed''),
      try_into_dictionary = (\<lambda>(v, r). case v of
         BDict kvs \<Rightarrow> Inr (items snd r (\<lambda>(k, v). (k, (v, below r v))) kvs) | _ \<Rightarrow> Inl ''dictionary''),
      try_into_list = (\<lambda>(v, r). case v of
         BList vs \<Rightarrow> Inr (items (\<lambda>v. v) r (\<lambda>v. (v, below r v)) vs) | _ \<Rightarrow> Inl ''list''),
      try_into_bytes = (\<lambda>(v, r). case v of BBytes s \<Rightarrow> Inr s | _ \<Rightarrow> Inl ''bytes''),
      into_raw = (\<lambda>(v, r). Inr (ben_bytes v)),
      decode_string = (\<lambda>(v, r). case v of BBytes s \<Rightarrow> if ascii s then Inr s else Inl ''utf-8'' | _ \<Rightarrow> Inl ''bytes''),
      decode_int = (\<lambda>lo hi (v, r). case v of BInt n \<Rightarrow> if lo \<le> n \<and> n \<le> hi then Inr n else Inl ''range'' | _ \<Rightarrow> Inl ''integer''),
      missing_field = (\<lambda>s. s), unexpected_field = (\<lambda>s. ''unexpected''), with_context = (\<lambda>c e. e)\<rparr>"

lemma items_yields: "(\<And>a. R a (f a)) \<Longrightarrow> yields val R r as (items val r f as)"
  by (induction as) auto

lemma bencoding_laws: "bendy_laws bencoding ascii ben_bytes (\<lambda>ob. ob)"
  unfolding bendy_laws_def
  by (intro conjI allI impI)
    (auto simp: bencoding_def parse_ben_bytes intro!: items_yields split: prod.splits Ben.splits if_splits)


section \<open>Decoding what was emitted\<close>

locale bendy_crate =
  fixes B :: "('o, 'e) bendy" and utf8 :: "u8 list \<Rightarrow> bool" and ser :: "Ben \<Rightarrow> u8 list" and view :: "'o \<Rightarrow> Ben \<times> nat"
  assumes laws: "bendy_laws B utf8 ser view"
begin

lemma emit_ok: "ben_sorted v \<Longrightarrow> ben_depth v \<le> d \<Longrightarrow> bd_to_bencode B d v = Inr (ser v)"
  by (rule laws [unfolded bendy_laws_def, THEN conjunct1, rule_format])

lemma emit_fails: "\<not> (ben_sorted v \<and> ben_depth v \<le> d) \<Longrightarrow> \<exists>e. bd_to_bencode B d v = Inl e"
  by (rule laws [unfolded bendy_laws_def, THEN conjunct2, THEN conjunct1, rule_format])

lemma next_ok: "ben_sorted v \<Longrightarrow> \<not> (compound v \<and> d = 0) \<Longrightarrow>
    \<exists>ob. bd_next_object B d (ser v) = Inr ob \<and> view ob = (v, below d v)"
  by (rule laws [unfolded bendy_laws_def, THEN conjunct2, THEN conjunct2, THEN conjunct1, rule_format])

lemma dict_items: "view ob = (BDict kvs, r) \<Longrightarrow>
    \<exists>xs. try_into_dictionary B ob = Inr xs \<and>
      yields snd (\<lambda>(k, v) (k', ob'). k' = k \<and> view ob' = (v, below r v)) r kvs xs"
  by (rule laws [unfolded bendy_laws_def, THEN conjunct2, THEN conjunct2, THEN conjunct2, THEN conjunct1, rule_format])

lemma list_items: "view ob = (BList vs, r) \<Longrightarrow>
    \<exists>xs. try_into_list B ob = Inr xs \<and> yields (\<lambda>v. v) (\<lambda>v ob'. view ob' = (v, below r v)) r vs xs"
  by (rule laws [unfolded bendy_laws_def, THEN conjunct2, THEN conjunct2, THEN conjunct2, THEN conjunct2, THEN conjunct1, rule_format])

lemma bytes_ok: "view ob = (BBytes s, r) \<Longrightarrow> try_into_bytes B ob = Inr s"
  using laws [unfolded bendy_laws_def, THEN conjunct2, THEN conjunct2, THEN conjunct2, THEN conjunct2, THEN conjunct2, THEN conjunct1, rule_format, of ob s r] by simp

lemma string_ok: "view ob = (BBytes s, r) \<Longrightarrow> utf8 s \<Longrightarrow> decode_string B ob = Inr s"
  using laws [unfolded bendy_laws_def, THEN conjunct2, THEN conjunct2, THEN conjunct2, THEN conjunct2, THEN conjunct2, THEN conjunct1, rule_format, of ob s r] by simp

lemma int_ok: "view ob = (BInt n, r) \<Longrightarrow> lo \<le> n \<Longrightarrow> n \<le> hi \<Longrightarrow> decode_int B lo hi ob = Inr n"
  using laws [unfolded bendy_laws_def, THEN conjunct2, THEN conjunct2, THEN conjunct2, THEN conjunct2, THEN conjunct2, THEN conjunct2, THEN conjunct1, rule_format, of ob n r lo hi] by simp

lemma raw_ok: "view ob = (BDict kvs, r) \<Longrightarrow> ben_sorted (BDict kvs) \<Longrightarrow> ben_depth (BDict kvs) \<le> Suc r \<Longrightarrow>
    into_raw B ob = Inr (ser (BDict kvs))"
  by (rule laws [unfolded bendy_laws_def, THEN conjunct2, THEN conjunct2, THEN conjunct2, THEN conjunct2, THEN conjunct2, THEN conjunct2, THEN conjunct2, THEN conjunct1, rule_format])

lemma int_range: "decode_int B lo hi ob = Inr n \<Longrightarrow> lo \<le> n \<and> n \<le> hi"
  by (rule laws [unfolded bendy_laws_def, THEN conjunct2, THEN conjunct2, THEN conjunct2, THEN conjunct2, THEN conjunct2, THEN conjunct2, THEN conjunct2, THEN conjunct2, THEN conjunct2, rule_format])

lemma u64_ok: "view ob = (BInt (int n), r) \<Longrightarrow> n < 2 ^ 64 \<Longrightarrow> decode_u64 B ob = Inr n"
  by (simp add: decode_u64_def and_then_def int_ok)

lemma u32_ok: "view ob = (BInt (uint n), r) \<Longrightarrow> decode_u32 B ob = Inr n"
  using uint_lt2p [of n] by (simp add: decode_u32_def and_then_def int_ok)

lemma i64_ok: "view ob = (BInt n, r) \<Longrightarrow> - (2 ^ 63) \<le> n \<Longrightarrow> n < 2 ^ 63 \<Longrightarrow> decode_i64 B ob = Inr n"
  by (simp add: decode_i64_def int_ok)

lemma strings_ok:
  assumes "view ob = (BList (map BBytes ss), r)" and "\<forall>s \<in> set ss. utf8 s"
  shows "\<exists>xs. try_into_list B ob = Inr xs \<and> (\<forall>acc. list_loop (decode_string B) xs acc = Inr (acc @ ss))"
proof -
  have "yields (\<lambda>v. v) (\<lambda>v ob'. view ob' = (v, below r v)) r (map BBytes ss) xs \<Longrightarrow>
      list_loop (decode_string B) xs acc = Inr (acc @ ss)" for xs :: "('e + 'o) list" and acc
    using assms(2)
    by (induction ss arbitrary: xs acc) (auto simp: and_then_def dest: string_ok)
  with list_items [OF assms(1)] show ?thesis by blast
qed

lemma dict_loop_fails:
  assumes "yields snd (\<lambda>(k, v) (k', ob'). k' = k \<and> view ob' = (v, below r v)) r kvs xs"
    and "\<forall>kv \<in> set kvs. ben_depth (snd kv) \<le> r" and "(k, v) \<in> set kvs"
    and fails: "\<And>ob s. view ob = (v, below r v) \<Longrightarrow> \<exists>e. f k ob s = Inl e"
  shows "\<exists>e. dict_loop f xs s = Inl e"
  using assms(1-3)
proof (induction kvs arbitrary: xs s)
  case (Cons kv kvs)
  obtain k' v' where kv: "kv = (k', v')" by fastforce
  show ?case
  proof (cases "compound v' \<and> r = 0")
    case True
    with Cons.prems kv show ?thesis by (auto simp: and_then_def)
  next
    case False
    from Cons.prems(1,2) have "\<exists>x ys. xs = Inr x # ys \<and> (case x of (k'', ob) \<Rightarrow> k'' = k' \<and> view ob = (v', below r v')) \<and>
        yields snd (\<lambda>(k, v) (k', ob'). k' = k \<and> view ob' = (v, below r v)) r kvs ys"
      by (simp add: kv False split: if_splits)
    then obtain ob ys where xs: "xs = Inr (k', ob) # ys" and ob: "view ob = (v', below r v')"
      and ys: "yields snd (\<lambda>(k, v) (k', ob'). k' = k \<and> view ob' = (v, below r v)) r kvs ys" by auto
    show ?thesis
    proof (cases "(k, v) = kv")
      case True
      with fails [of ob s] kv ob xs show ?thesis by (auto simp: and_then_def)
    next
      case False
      with Cons.prems Cons.IH [OF ys] have "\<exists>e. dict_loop f ys s' = Inl e" for s' by simp
      with xs show ?thesis by (auto simp: and_then_def split: sum.split)
    qed
  qed
qed simp

end

interpretation ben: bendy_crate bencoding ascii ben_bytes "\<lambda>ob. ob"
  by unfold_locales (rule bencoding_laws)

end
