(* ===== verification/Tracker.thy ===== *)
theory Tracker
  imports Bencode
begin

text \<open>
  The messages of a tracker (\<^verbatim>\<open>src/tracker.rs\<close>): requests, their builder, and their encoding and decoding
  over the interface of bendy. Two operations of libp2p are parameters: the bytes of a peer identifier
  (\<open>peer_bytes\<close>) and reading one from text (\<open>peer_parse\<close>, with the text of the error on the left). The
  error for an unknown key carries the key; for a key that is not text the code puts the description
  of the encoding error in its place.
\<close>

section \<open>Data\<close>

datatype PeerEvent = Started | Completed | Stopped

record PeerResponse =
  ps_identifier :: ShaHash
  ps_peer_id :: PeerId

datatype TrackerResponse = Success usize "PeerResponse list" | Failure rstring

record TrackerRequest =
  tr_info_hash :: ShaHash
  tr_bittorrent_peer_id :: ShaHash
  tr_libp2p_peer_id :: PeerId
  tr_uploaded :: usize
  tr_downloaded :: usize
  tr_left :: usize
  tr_event :: "PeerEvent option"

record TrackerRequestBuilder =
  rb_info_hash :: "ShaHash option"
  rb_bittorrent_peer_id :: "ShaHash option"
  rb_libp2p_peer_id :: "PeerId option"
  rb_uploaded :: "usize option"
  rb_downloaded :: "usize option"
  rb_left :: "usize option"
  rb_event :: "PeerEvent option"

section \<open>Requests and their builder\<close>

definition TrackerRequest_new :: "ShaHash \<Rightarrow> ShaHash \<Rightarrow> PeerId \<Rightarrow> usize \<Rightarrow> TrackerRequest" where
  "TrackerRequest_new info_hash bittorrent_peer_id libp2p_peer_id left =
     \<lparr>tr_info_hash = info_hash, tr_bittorrent_peer_id = bittorrent_peer_id, tr_libp2p_peer_id = libp2p_peer_id,
      tr_uploaded = 0, tr_downloaded = 0, tr_left = left, tr_event = None\<rparr>"

definition TrackerRequestBuilder_default :: TrackerRequestBuilder where
  "TrackerRequestBuilder_default =
     \<lparr>rb_info_hash = None, rb_bittorrent_peer_id = None, rb_libp2p_peer_id = None, rb_uploaded = None,
      rb_downloaded = None, rb_left = None, rb_event = None\<rparr>"

definition TrackerRequest_builder :: TrackerRequestBuilder where
  "TrackerRequest_builder = TrackerRequestBuilder_default"

definition set_info_hash :: "ShaHash \<Rightarrow> TrackerRequestBuilder \<Rightarrow> TrackerRequestBuilder" where
  "set_info_hash info_hash b = b\<lparr>rb_info_hash := Some info_hash\<rparr>"

definition set_bittorrent_peer_id :: "ShaHash \<Rightarrow> TrackerRequestBuilder \<Rightarrow> TrackerRequestBuilder" where
  "set_bittorrent_peer_id bittorrent_peer_id b = b\<lparr>rb_bittorrent_peer_id := Some bittorrent_peer_id\<rparr>"

definition set_libp2p_peer_id :: "PeerId \<Rightarrow> TrackerRequestBuilder \<Rightarrow> TrackerRequestBuilder" where
  "set_libp2p_peer_id libp2p_peer_id b = b\<lparr>rb_libp2p_peer_id := Some libp2p_peer_id\<rparr>"

definition set_uploaded :: "usize \<Rightarrow> TrackerRequestBuilder \<Rightarrow> TrackerRequestBuilder" where
  "set_uploaded uploaded b = b\<lparr>rb_uploaded := Some uploaded\<rparr>"

definition set_downloaded :: "usize \<Rightarrow> TrackerRequestBuilder \<Rightarrow> TrackerRequestBuilder" where
  "set_downloaded downloaded b = b\<lparr>rb_downloaded := Some downloaded\<rparr>"

definition set_left :: "usize \<Rightarrow> TrackerRequestBuilder \<Rightarrow> TrackerRequestBuilder" where
  "set_left left b = b\<lparr>rb_left := Some left\<rparr>"

definition set_event :: "PeerEvent \<Rightarrow> TrackerRequestBuilder \<Rightarrow> TrackerRequestBuilder" where
  "set_event event b = b\<lparr>rb_event := Some event\<rparr>"

definition TrackerRequestBuilder_build :: "TrackerRequestBuilder \<Rightarrow> string + TrackerRequest" where
  "TrackerRequestBuilder_build b =
     and_then (ok_or ''info_hash must be initialized.'' (rb_info_hash b)) (\<lambda>info_hash.
     and_then (ok_or ''bittorrent_peer_id must be initialized.'' (rb_bittorrent_peer_id b)) (\<lambda>bittorrent_peer_id.
     and_then (ok_or ''libp2p_peer_id must be initialized.'' (rb_libp2p_peer_id b)) (\<lambda>libp2p_peer_id.
     and_then (ok_or ''uploaded must be initialized.'' (rb_uploaded b)) (\<lambda>uploaded.
     and_then (ok_or ''downloaded must be initialized.'' (rb_downloaded b)) (\<lambda>downloaded.
     and_then (ok_or ''left must be initialized.'' (rb_downloaded b)) (\<lambda>left.
       Inr \<lparr>tr_info_hash = info_hash, tr_bittorrent_peer_id = bittorrent_peer_id, tr_libp2p_peer_id = libp2p_peer_id,
            tr_uploaded = uploaded, tr_downloaded = downloaded, tr_left = left, tr_event = rb_event b\<rparr>))))))"

fun as_str :: "PeerEvent \<Rightarrow> rstring" where
  "as_str Started = bstr ''started''"
| "as_str Completed = bstr ''completed''"
| "as_str Stopped = bstr ''stopped''"

section \<open>Encoding and decoding\<close>

text \<open>
  The results of all pairs but the last are dropped by the code. Its last key is out of order too, so
  the encoding fails whether or not the encoder remembers the earlier failures.
\<close>

definition TrackerRequest_pairs :: "(PeerId \<Rightarrow> u8 list) \<Rightarrow> TrackerRequest \<Rightarrow> (u8 list \<times> Ben) list" where
  "TrackerRequest_pairs peer_bytes r =
     [(bstr ''info_hash'', BBytes (tr_info_hash r)), (bstr ''peer_id'', BBytes (tr_bittorrent_peer_id r)),
      (bstr ''libp2p_peer_ip'', BBytes (peer_bytes (tr_libp2p_peer_id r))),
      (bstr ''uploaded'', BInt (int (tr_uploaded r))), (bstr ''downloaded'', BInt (int (tr_downloaded r))),
      (bstr ''left'', BInt (int (tr_downloaded r))),
      (bstr ''event'', BBytes (case tr_event r of None \<Rightarrow> bstr ''empty'' | Some x \<Rightarrow> as_str x))]"

definition TrackerRequest_to_bencode ::
  "('o, 'e) bendy \<Rightarrow> (PeerId \<Rightarrow> u8 list) \<Rightarrow> TrackerRequest \<Rightarrow> 'e + u8 list" where
  "TrackerRequest_to_bencode B peer_bytes r = bd_to_bencode B 1 (BDict (TrackerRequest_pairs peer_bytes r))"

definition decode_sha :: "('o, 'e) bendy \<Rightarrow> 'o \<Rightarrow> 'e + ShaHash" where
  "decode_sha B value = and_then (try_into_bytes B value) (\<lambda>bs.
     ok_or (unexpected_field B (bstr ''malformed info_hash'')) (ShaHash_try_from bs))"

definition TrackerRequest_field ::
  "('o, 'e) bendy \<Rightarrow> (rstring \<Rightarrow> string + PeerId) \<Rightarrow> u8 list \<Rightarrow> 'o \<Rightarrow> TrackerRequestBuilder \<Rightarrow> 'e + TrackerRequestBuilder" where
  "TrackerRequest_field B peer_parse key value b =
     (if key = bstr ''info_hash'' then and_then (decode_sha B value) (\<lambda>h. Inr (set_info_hash h b))
      else if key = bstr ''bittorrent_peer_id'' then and_then (decode_sha B value) (\<lambda>h. Inr (set_bittorrent_peer_id h b))
      else if key = bstr ''libp2p_peer_ip'' then
        and_then (map_err (with_context B ''libp2p_peer_ip'') (decode_string B value)) (\<lambda>s.
        and_then (map_err (missing_field B) (peer_parse s)) (\<lambda>p. Inr (set_libp2p_peer_id p b)))
      else if key = bstr ''uploaded'' then
        and_then (map_err (with_context B ''uploaded'') (decode_u64 B value)) (\<lambda>n. Inr (set_uploaded n b))
      else if key = bstr ''downloaded'' then
        and_then (map_err (with_context B ''downloaded'') (decode_u64 B value)) (\<lambda>n. Inr (set_downloaded n b))
      else if key = bstr ''left'' then
        and_then (map_err (with_context B ''left'') (decode_u64 B value)) (\<lambda>n. Inr (set_left n b))
      else Inl (unexpected_field B key))"

definition TrackerRequest_decode ::
  "('o, 'e) bendy \<Rightarrow> (rstring \<Rightarrow> string + PeerId) \<Rightarrow> 'o \<Rightarrow> 'e + TrackerRequest" where
  "TrackerRequest_decode B peer_parse ob = and_then (try_into_dictionary B ob) (\<lambda>pairs.
     and_then (dict_loop (TrackerRequest_field B peer_parse) pairs TrackerRequestBuilder_default) (\<lambda>b.
       map_err (missing_field B) (TrackerRequestBuilder_build b)))"

definition TrackerRequest_from_bencode ::
  "('o, 'e) bendy \<Rightarrow> (rstring \<Rightarrow> string + PeerId) \<Rightarrow> u8 list \<Rightarrow> 'e + TrackerRequest" where
  "TrackerRequest_from_bencode B peer_parse data = and_then (bd_next_object B 1 data) (TrackerRequest_decode B peer_parse)"

text \<open>The dictionary that the decoder accepts.\<close>

definition request_pairs :: "ShaHash \<Rightarrow> ShaHash \<Rightarrow> rstring \<Rightarrow> nat \<Rightarrow> nat \<Rightarrow> nat \<Rightarrow> (u8 list \<times> Ben) list" where
  "request_pairs info_hash bittorrent_peer_id peer uploaded downloaded left =
     [(bstr ''bittorrent_peer_id'', BBytes bittorrent_peer_id), (bstr ''downloaded'', BInt (int downloaded)),
      (bstr ''info_hash'', BBytes info_hash), (bstr ''left'', BInt (int left)),
      (bstr ''libp2p_peer_ip'', BBytes peer), (bstr ''uploaded'', BInt (int uploaded))]"

section \<open>Lemmas\<close>

lemma request_keys:
  "\<not> bstr ''peer_id'' < bstr ''libp2p_peer_ip''"
  "sorted_wrt (<) (map bstr [''bittorrent_peer_id'', ''downloaded'', ''info_hash'', ''left'', ''libp2p_peer_ip'', ''uploaded''])"
  by code_simp+

context bendy_crate
begin

lemma request_unencodable: "\<exists>e. TrackerRequest_to_bencode B peer_bytes r = Inl e"
proof -
  have "\<not> ben_sorted (BDict (TrackerRequest_pairs peer_bytes r))"
    using request_keys(1) by (auto simp: TrackerRequest_pairs_def)
  with emit_fails [of "BDict (TrackerRequest_pairs peer_bytes r)" 1] show ?thesis
    by (simp add: TrackerRequest_to_bencode_def)
qed

lemma request_refused:
  assumes "mset kvs = mset (TrackerRequest_pairs peer_bytes r)" and "ben_sorted (BDict kvs)"
  shows "\<exists>e. TrackerRequest_from_bencode B peer_parse (ser (BDict kvs)) = Inl e"
proof -
  have s: "set kvs = set (TrackerRequest_pairs peer_bytes r)" using assms(1) by (metis set_mset_mset)
  from next_ok [OF assms(2), of 1] obtain ob where
    o: "bd_next_object B 1 (ser (BDict kvs)) = Inr ob" "view ob = (BDict kvs, 0)" by (auto simp: below_def)
  from dict_items [OF o(2)] obtain xs where x: "try_into_dictionary B ob = Inr xs"
    "yields snd (\<lambda>(k, v) (k', ob'). k' = k \<and> view ob' = (v, below 0 v)) 0 kvs xs" by blast
  have "\<exists>e. dict_loop (TrackerRequest_field B peer_parse) xs TrackerRequestBuilder_default = Inl e"
    by (rule dict_loop_fails [OF x(2), where k = "bstr ''peer_id''" and v = "BBytes (tr_bittorrent_peer_id r)"])
      (auto simp: s TrackerRequest_pairs_def TrackerRequest_field_def)
  with x(1) o(1) show ?thesis
    by (auto simp: TrackerRequest_from_bencode_def TrackerRequest_decode_def and_then_def)
qed

lemma request_decoded:
  assumes "length info_hash = SHA_HASH_LEN" and "length peer_id = SHA_HASH_LEN" and "utf8 s" and "peer_parse s = Inr p"
    and "up < 2 ^ 64" and "down < 2 ^ 64" and "left < 2 ^ 64"
  shows "TrackerRequest_from_bencode B peer_parse (ser (BDict (request_pairs info_hash peer_id s up down left))) =
    Inr \<lparr>tr_info_hash = info_hash, tr_bittorrent_peer_id = peer_id, tr_libp2p_peer_id = p,
         tr_uploaded = up, tr_downloaded = down, tr_left = down, tr_event = None\<rparr>"
proof -
  let ?v = "BDict (request_pairs info_hash peer_id s up down left)"
  have "ben_sorted ?v" using request_keys(2) by (simp add: request_pairs_def)
  from next_ok [OF this, of 1] obtain ob where
    o: "bd_next_object B 1 (ser ?v) = Inr ob" "view ob = (?v, 0)" by (auto simp: below_def)
  from dict_items [OF o(2)] obtain xs where x: "try_into_dictionary B ob = Inr xs"
    "yields snd (\<lambda>(k, v) (k', ob'). k' = k \<and> view ob' = (v, below 0 v)) 0 (request_pairs info_hash peer_id s up down left) xs" by blast
  from x(2) obtain o1 o2 o3 o4 o5 o6 where xs: "xs = [Inr (bstr ''bittorrent_peer_id'', o1), Inr (bstr ''downloaded'', o2),
      Inr (bstr ''info_hash'', o3), Inr (bstr ''left'', o4), Inr (bstr ''libp2p_peer_ip'', o5), Inr (bstr ''uploaded'', o6)]"
    and v: "view o1 = (BBytes peer_id, 0)" "view o2 = (BInt (int down), 0)" "view o3 = (BBytes info_hash, 0)"
      "view o4 = (BInt (int left), 0)" "view o5 = (BBytes s, 0)" "view o6 = (BInt (int up), 0)"
    by (auto simp: request_pairs_def below_def)
  have sha: "decode_sha B o1 = Inr peer_id" "decode_sha B o3 = Inr info_hash"
    using assms(1,2) by (simp_all add: decode_sha_def and_then_def ok_or_def bytes_ok [OF v(1)] bytes_ok [OF v(3)] ShaHash_try_from_def)
  have "dict_loop (TrackerRequest_field B peer_parse) xs TrackerRequestBuilder_default =
      Inr \<lparr>rb_info_hash = Some info_hash, rb_bittorrent_peer_id = Some peer_id, rb_libp2p_peer_id = Some p, rb_uploaded = Some up,
        rb_downloaded = Some down, rb_left = Some left, rb_event = None\<rparr>"
    using assms(4) u64_ok [OF v(2) assms(6)] u64_ok [OF v(4) assms(7)] u64_ok [OF v(6) assms(5)] string_ok [OF v(5) assms(3)]
    by (simp add: xs TrackerRequest_field_def sha and_then_def map_err_def set_info_hash_def set_bittorrent_peer_id_def
        set_libp2p_peer_id_def set_uploaded_def set_downloaded_def set_left_def TrackerRequestBuilder_default_def)
  with o(1) x(1) show ?thesis
    by (simp add: TrackerRequest_from_bencode_def TrackerRequest_decode_def TrackerRequestBuilder_build_def and_then_def map_err_def ok_or_def)
qed

end

section \<open>Properties\<close>

text \<open>
  C39. A request of the client reaches no tracker of its own kind: it cannot be encoded, because its keys
  are not emitted in order; and if they were, in the sorted order, the only one that is valid
  bencoding, the decoder would refuse the dictionary, because it does not know the keys under which the peer identifier and the event are written.
\<close>

theorem tracker_request_lost:
  assumes "bendy_laws B utf8 ser view"
  shows "(\<exists>e. TrackerRequest_to_bencode B peer_bytes r = Inl e) \<and>
    (\<forall>kvs. mset kvs = mset (TrackerRequest_pairs peer_bytes r) \<and> ben_sorted (BDict kvs) \<longrightarrow>
       (\<exists>e. TrackerRequest_from_bencode B peer_parse (ser (BDict kvs)) = Inl e))"
  using bendy_crate.request_unencodable [OF bendy_crate.intro [OF assms]]
    bendy_crate.request_refused [OF bendy_crate.intro [OF assms]] by blast

theorem tracker_request_lost_witness:
  "\<exists>e. TrackerRequest_to_bencode bencoding (\<lambda>p. [of_nat p]) (TrackerRequest_new (replicate 20 1) (replicate 20 2) 3 4) = Inl e"
  using tracker_request_lost [OF bencoding_laws] by blast

text \<open>
  Decoding a request with the expected keys succeeds and keeps every field but the number of bytes
  left, which is replaced by the number of bytes downloaded, and the event, which has no key.
\<close>

theorem tracker_request_decoded:
  assumes "bendy_laws B utf8 ser view" and "length info_hash = SHA_HASH_LEN" and "length peer_id = SHA_HASH_LEN"
    and "utf8 s" and "peer_parse s = Inr p" and "up < 2 ^ 64" and "down < 2 ^ 64" and "left < 2 ^ 64"
  shows "TrackerRequest_from_bencode B peer_parse (ser (BDict (request_pairs info_hash peer_id s up down left))) =
    Inr \<lparr>tr_info_hash = info_hash, tr_bittorrent_peer_id = peer_id, tr_libp2p_peer_id = p,
         tr_uploaded = up, tr_downloaded = down, tr_left = down, tr_event = None\<rparr>"
  by (rule bendy_crate.request_decoded [where peer_parse = peer_parse, OF bendy_crate.intro [OF assms(1)] assms(2-8)])

theorem tracker_request_decoded_witness:
  "TrackerRequest_from_bencode bencoding (\<lambda>s. Inr (length s))
     (ben_bytes (BDict (request_pairs (replicate 20 1) (replicate 20 2) [97, 98] 5 6 7))) =
    Inr \<lparr>tr_info_hash = replicate 20 1, tr_bittorrent_peer_id = replicate 20 2, tr_libp2p_peer_id = 2,
         tr_uploaded = 5, tr_downloaded = 6, tr_left = 6, tr_event = None\<rparr>"
  by (rule tracker_request_decoded [OF bencoding_laws]) (simp_all add: SHA_HASH_LEN_def ascii_def)

end
