(* ===== verification/MetainfoFiles.thy ===== *)
theory MetainfoFiles
  imports Bencode
begin

text \<open>
  Torrent files: encoding and decoding of the metainfo (\<^verbatim>\<open>src/torrent/mod.rs\<close>) over the interface of
  bendy. An \<open>encode\<close> function is the tree of the calls the code makes on its encoder, in the order it
  makes them; the limits on nesting are the constants of the code. Every type with its own
  \<^verbatim>\<open>decode_bencode_object\<close> folds its fields over the pairs of a dictionary.
\<close>

section \<open>Encoding\<close>

definition DhtNode_encode :: "DhtNode \<Rightarrow> Ben" where
  "DhtNode_encode n = BList [BBytes (dn_host n), BInt (uint (dn_port n))]"

definition SubFileInfo_encode :: "SubFileInfo \<Rightarrow> Ben" where
  "SubFileInfo_encode f = BDict
     [(bstr ''length'', BInt (int (sf_length f))), (bstr ''path'', BList (map BBytes (sf_paths f)))]"

definition TorrentInfo_encode :: "TorrentInfo \<Rightarrow> Ben" where
  "TorrentInfo_encode i = BDict
     ((case ti_content i of
         Single len \<Rightarrow> (bstr ''length'', BInt (int len))
       | Multi files \<Rightarrow> (bstr ''files'', BList (map SubFileInfo_encode files))) #
      [(bstr ''name'', BBytes (ti_name i)), (bstr ''piece length'', BInt (int (ti_piece_length i))),
       (bstr ''pieces'', BBytes (concat (ti_pieces i)))])"

definition TorrentInfo_to_bencode :: "('o, 'e) bendy \<Rightarrow> TorrentInfo \<Rightarrow> 'e + u8 list" where
  "TorrentInfo_to_bencode B i = bd_to_bencode B 3 (TorrentInfo_encode i)"

definition sha1_hash :: "('o, 'e) bendy \<Rightarrow> (u8 list \<Rightarrow> ShaHash) \<Rightarrow> TorrentInfo \<Rightarrow> 'e + ShaHash" where
  "sha1_hash B sha1 i = and_then (TorrentInfo_to_bencode B i) (\<lambda>data. Inr (sha1 data))"

definition emit_option :: "string \<Rightarrow> ('a \<Rightarrow> Ben) \<Rightarrow> 'a option \<Rightarrow> (u8 list \<times> Ben) list" where
  "emit_option key f x = (case x of Some a \<Rightarrow> [(bstr key, f a)] | None \<Rightarrow> [])"

definition emit_nonempty :: "string \<Rightarrow> ('a \<Rightarrow> Ben) \<Rightarrow> 'a list \<Rightarrow> (u8 list \<times> Ben) list" where
  "emit_nonempty key f xs = (if xs \<noteq> [] then [(bstr key, BList (map f xs))] else [])"

definition MetaInfo_encode :: "MetaInfo \<Rightarrow> Ben" where
  "MetaInfo_encode m = BDict
     (emit_option ''announce'' BBytes (mi_announce m) @
      emit_nonempty ''announce list'' BBytes (mi_announce_list m) @
      emit_option ''comment'' BBytes (mi_comment m) @
      emit_option ''creation date'' BInt (mi_creation_date m) @
      emit_option ''encoding'' BBytes (mi_encoding m) @
      emit_nonempty ''httpseeds'' BBytes (mi_httpseeds m) @
      emit_nonempty ''nodes'' DhtNode_encode (mi_nodes m) @
      emit_nonempty ''url-list'' BBytes (mi_webseeds m) @
      [(bstr ''info'', TorrentInfo_encode (mi_info m))])"

definition MetaInfo_to_bencode :: "('o, 'e) bendy \<Rightarrow> MetaInfo \<Rightarrow> 'e + u8 list" where
  "MetaInfo_to_bencode B m = bd_to_bencode B 3 (MetaInfo_encode m)"

section \<open>Decoding\<close>

definition decode_strings :: "('o, 'e) bendy \<Rightarrow> 'o \<Rightarrow> rstring list \<Rightarrow> 'e + rstring list" where
  "decode_strings B value acc = and_then (try_into_list B value) (\<lambda>xs. list_loop (decode_string B) xs acc)"

definition DhtNode_decode :: "('o, 'e) bendy \<Rightarrow> 'o \<Rightarrow> 'e + DhtNode" where
  "DhtNode_decode B ob = and_then (try_into_list B ob) (\<lambda>xs.
     case xs of
       [] \<Rightarrow> Inl (missing_field B ''host'')
     | h # hs \<Rightarrow> and_then h (\<lambda>host_ob. and_then (decode_string B host_ob) (\<lambda>host.
         case hs of
           [] \<Rightarrow> Inl (missing_field B ''port'')
         | p # _ \<Rightarrow> and_then p (\<lambda>port_ob. and_then (decode_u32 B port_ob) (\<lambda>port.
             Inr \<lparr>dn_host = host, dn_port = port\<rparr>)))))"

definition SubFileInfo_field ::
  "('o, 'e) bendy \<Rightarrow> u8 list \<Rightarrow> 'o \<Rightarrow> u64 option \<times> rstring list option \<Rightarrow> 'e + u64 option \<times> rstring list option" where
  "SubFileInfo_field B key value s =
     (if key = bstr ''length'' then
        and_then (map_err (with_context B ''length'') (decode_u64 B value)) (\<lambda>n. Inr (Some n, snd s))
      else if key = bstr ''path'' then and_then (decode_strings B value []) (\<lambda>paths. Inr (fst s, Some paths))
      else Inl (unexpected_field B key))"

definition SubFileInfo_decode :: "('o, 'e) bendy \<Rightarrow> 'o \<Rightarrow> 'e + SubFileInfo" where
  "SubFileInfo_decode B ob = and_then (try_into_dictionary B ob) (\<lambda>pairs.
     and_then (dict_loop (SubFileInfo_field B) pairs (None, None)) (\<lambda>(len, paths).
     and_then (ok_or (missing_field B ''length'') len) (\<lambda>len.
     and_then (ok_or (missing_field B ''paths'') paths) (\<lambda>paths.
       Inr \<lparr>sf_length = len, sf_paths = paths\<rparr>))))"

text \<open>\<^verbatim>\<open>chunks(SHA_HASH_LEN).map(TryInto::try_into).collect()\<close>\<close>

function sha_chunks :: "u8 list \<Rightarrow> ShaHash list option" where
  "sha_chunks [] = Some []"
| "sha_chunks (c # cs) = do {
     h \<leftarrow> ShaHash_try_from (take SHA_HASH_LEN (c # cs));
     hs \<leftarrow> sha_chunks (drop SHA_HASH_LEN (c # cs));
     Some (h # hs)
   }"
  by pat_completeness auto
termination by (relation "measure length") (auto simp: SHA_HASH_LEN_def)

record info_fields =
  if_name :: "rstring option"
  if_pieces :: "ShaHash list option"
  if_piece_length :: "u64 option"
  if_files :: "SubFileInfo list option"
  if_length :: "u64 option"

definition TorrentInfo_field :: "('o, 'e) bendy \<Rightarrow> u8 list \<Rightarrow> 'o \<Rightarrow> info_fields \<Rightarrow> 'e + info_fields" where
  "TorrentInfo_field B key value s =
     (if key = bstr ''name'' \<or> key = bstr ''name.utf-8'' then
        and_then (map_err (with_context B ''name'') (decode_string B value)) (\<lambda>x. Inr (s\<lparr>if_name := Some x\<rparr>))
      else if key = bstr ''piece length'' then
        and_then (map_err (with_context B ''piece length'') (decode_u64 B value)) (\<lambda>n. Inr (s\<lparr>if_piece_length := Some n\<rparr>))
      else if key = bstr ''pieces'' then
        and_then (try_into_bytes B value) (\<lambda>bs.
        and_then (ok_or (unexpected_field B (bstr ''malformed pieces chunks'')) (sha_chunks bs)) (\<lambda>hs.
          Inr (s\<lparr>if_pieces := Some hs\<rparr>)))
      else if key = bstr ''files'' then
        if if_length s \<noteq> None then Inl (unexpected_field B (bstr ''files''))
        else and_then (try_into_list B value) (\<lambda>xs.
             and_then (list_loop (SubFileInfo_decode B) xs []) (\<lambda>fs. Inr (s\<lparr>if_files := Some fs\<rparr>)))
      else if key = bstr ''length'' then
        if if_files s \<noteq> None then Inl (unexpected_field B (bstr ''length''))
        else and_then (map_err (with_context B ''length'') (decode_u64 B value)) (\<lambda>n. Inr (s\<lparr>if_length := Some n\<rparr>))
      else Inr s)"

definition TorrentInfo_decode :: "('o, 'e) bendy \<Rightarrow> 'o \<Rightarrow> 'e + TorrentInfo" where
  "TorrentInfo_decode B ob = and_then (try_into_dictionary B ob) (\<lambda>pairs.
     and_then (dict_loop (TorrentInfo_field B) pairs
       \<lparr>if_name = None, if_pieces = None, if_piece_length = None, if_files = None, if_length = None\<rparr>) (\<lambda>s.
     let content = (case if_length s of Some n \<Rightarrow> Some (Single n) | None \<Rightarrow> map_option Multi (if_files s)) in
     and_then (ok_or (missing_field B ''name'') (if_name s)) (\<lambda>name.
     and_then (ok_or (missing_field B ''pieces length'') (if_piece_length s)) (\<lambda>plen.
     and_then (ok_or (missing_field B ''pieces'') (if_pieces s)) (\<lambda>pieces.
     and_then (ok_or (missing_field B ''length or files'') content) (\<lambda>content.
       Inr \<lparr>ti_pieces = pieces, ti_piece_length = plen, ti_content = content, ti_name = name\<rparr>))))))"

definition TorrentInfo_from_bencode :: "('o, 'e) bendy \<Rightarrow> u8 list \<Rightarrow> 'e + TorrentInfo" where
  "TorrentInfo_from_bencode B data = and_then (bd_next_object B 3 data) (TorrentInfo_decode B)"

record meta_fields =
  mf_announce :: "rstring option"
  mf_announce_list :: "rstring list"
  mf_webseeds :: "rstring list"
  mf_httpseeds :: "rstring list"
  mf_encoding :: "rstring option"
  mf_comment :: "rstring option"
  mf_created_by :: "rstring option"
  mf_creation_date :: "int option"
  mf_info :: "TorrentInfo option"
  mf_info_hash :: "ShaHash option"
  mf_nodes :: "DhtNode list"

definition MetaInfo_field ::
  "('o, 'e) bendy \<Rightarrow> (u8 list \<Rightarrow> ShaHash) \<Rightarrow> u8 list \<Rightarrow> 'o \<Rightarrow> meta_fields \<Rightarrow> 'e + meta_fields" where
  "MetaInfo_field B sha1 key value s =
     (if key = bstr ''announce'' then
        and_then (map_err (with_context B ''announce'') (decode_string B value)) (\<lambda>x. Inr (s\<lparr>mf_announce := Some x\<rparr>))
      else if key = bstr ''announce_list'' then
        and_then (decode_strings B value (mf_announce_list s)) (\<lambda>xs. Inr (s\<lparr>mf_announce_list := xs\<rparr>))
      else if key = bstr ''url-list'' then
        and_then (decode_strings B value (mf_webseeds s)) (\<lambda>xs. Inr (s\<lparr>mf_webseeds := xs\<rparr>))
      else if key = bstr ''httpseeds'' then
        and_then (decode_strings B value (mf_httpseeds s)) (\<lambda>xs. Inr (s\<lparr>mf_httpseeds := xs\<rparr>))
      else if key = bstr ''nodes'' then
        and_then (try_into_list B value) (\<lambda>xs.
        and_then (list_loop (DhtNode_decode B) xs (mf_nodes s)) (\<lambda>ns. Inr (s\<lparr>mf_nodes := ns\<rparr>)))
      else if key = bstr ''comment'' \<or> key = bstr ''comment.utf-8'' then
        and_then (map_err (with_context B ''comment'') (decode_string B value)) (\<lambda>x. Inr (s\<lparr>mf_comment := Some x\<rparr>))
      else if key = bstr ''creation date'' then
        and_then (map_err (with_context B ''creation date'') (decode_i64 B value)) (\<lambda>x. Inr (s\<lparr>mf_creation_date := Some x\<rparr>))
      else if key = bstr ''encoding'' then
        and_then (map_err (with_context B ''encoding'') (decode_string B value)) (\<lambda>x. Inr (s\<lparr>mf_encoding := Some x\<rparr>))
      else if key = bstr ''created by'' \<or> key = bstr ''created by.utf-8'' then
        and_then (map_err (with_context B ''created by'') (decode_string B value)) (\<lambda>x. Inr (s\<lparr>mf_created_by := Some x\<rparr>))
      else if key = bstr ''info'' then
        and_then (try_into_dictionary B value) (\<lambda>_.
        and_then (into_raw B value) (\<lambda>data.
        and_then (map_err (with_context B ''info'') (TorrentInfo_from_bencode B data)) (\<lambda>info.
          Inr (s\<lparr>mf_info_hash := Some (sha1 data), mf_info := Some info\<rparr>))))
      else Inr s)"

definition meta_start :: meta_fields where
  "meta_start = \<lparr>mf_announce = None, mf_announce_list = [], mf_webseeds = [], mf_httpseeds = [], mf_encoding = None,
     mf_comment = None, mf_created_by = None, mf_creation_date = None, mf_info = None, mf_info_hash = None, mf_nodes = []\<rparr>"

definition MetaInfo_decode :: "('o, 'e) bendy \<Rightarrow> (u8 list \<Rightarrow> ShaHash) \<Rightarrow> 'o \<Rightarrow> 'e + MetaInfo" where
  "MetaInfo_decode B sha1 ob = and_then (try_into_dictionary B ob) (\<lambda>pairs.
     and_then (dict_loop (MetaInfo_field B sha1) pairs meta_start) (\<lambda>s.
     and_then (ok_or (missing_field B ''info'') (mf_info s)) (\<lambda>info.
     and_then (ok_or (missing_field B ''info'') (mf_info_hash s)) (\<lambda>info_hash.
       Inr \<lparr>mi_announce = mf_announce s, mi_announce_list = mf_announce_list s, mi_encoding = mf_encoding s,
            mi_comment = mf_comment s, mi_created_by = mf_created_by s, mi_creation_date = mf_creation_date s,
            mi_httpseeds = mf_httpseeds s, mi_webseeds = mf_webseeds s, mi_info = info, mi_nodes = mf_nodes s,
            mi_info_hash = info_hash\<rparr>))))"

text \<open>\<open>depth\<close> is the limit bendy sets when a type does not set its own.\<close>

definition MetaInfo_from_bencode :: "('o, 'e) bendy \<Rightarrow> (u8 list \<Rightarrow> ShaHash) \<Rightarrow> nat \<Rightarrow> u8 list \<Rightarrow> 'e + MetaInfo" where
  "MetaInfo_from_bencode B sha1 depth data = and_then (bd_next_object B depth data) (MetaInfo_decode B sha1)"


section \<open>Specification\<close>

text \<open>
  What the types of the code guarantee of an info: strings are UTF-8, hashes have 20 bytes, numbers 64
  bits. The content is flat when it names no file of a directory.
\<close>

definition info_ok :: "(u8 list \<Rightarrow> bool) \<Rightarrow> TorrentInfo \<Rightarrow> bool" where
  "info_ok utf8 i \<longleftrightarrow> utf8 (ti_name i) \<and> ti_piece_length i < 2 ^ 64 \<and> (\<forall>p \<in> set (ti_pieces i). length p = SHA_HASH_LEN) \<and>
     (case ti_content i of
        Single n \<Rightarrow> n < 2 ^ 64
      | Multi fs \<Rightarrow> \<forall>f \<in> set fs. sf_length f < 2 ^ 64 \<and> (\<forall>p \<in> set (sf_paths f). utf8 p))"

fun flat :: "InfoContent \<Rightarrow> bool" where
  "flat (Single _) = True"
| "flat (Multi fs) = (fs = [])"

definition meta_ok :: "(u8 list \<Rightarrow> bool) \<Rightarrow> MetaInfo \<Rightarrow> bool" where
  "meta_ok utf8 m \<longleftrightarrow> info_ok utf8 (mi_info m) \<and>
     (\<forall>s. mi_announce m = Some s \<or> mi_comment m = Some s \<or> mi_encoding m = Some s \<longrightarrow> utf8 s) \<and>
     (\<forall>s \<in> set (mi_announce_list m) \<union> set (mi_httpseeds m). utf8 s) \<and>
     (\<forall>n. mi_creation_date m = Some n \<longrightarrow> - (2 ^ 63) \<le> n \<and> n < 2 ^ 63)"

text \<open>
  A dictionary whose pairs, in whatever objects they come, take the fields of a decoder from one state
  to another.
\<close>

definition decodes ::
  "('o \<Rightarrow> Ben \<times> nat) \<Rightarrow> nat \<Rightarrow> (u8 list \<Rightarrow> 'o \<Rightarrow> 's \<Rightarrow> 'e + 's) \<Rightarrow> (u8 list \<times> Ben) list \<Rightarrow> 's \<Rightarrow> 's \<Rightarrow> bool" where
  "decodes view r f kvs s s' \<longleftrightarrow>
     (\<forall>xs. yields snd (\<lambda>(k, v) (k', ob'). k' = k \<and> view ob' = (v, below r v)) r kvs xs \<longrightarrow> dict_loop f xs s = Inr s')"

text \<open>A metainfo for the witnesses, with the given content.\<close>

definition demo_meta :: "InfoContent \<Rightarrow> MetaInfo" where
  "demo_meta content =
     \<lparr>mi_announce = Some (bstr ''http''), mi_announce_list = [bstr ''udp''], mi_encoding = None,
      mi_comment = Some (bstr ''x''), mi_created_by = Some (bstr ''me''), mi_creation_date = Some 5,
      mi_httpseeds = [bstr ''seed''], mi_webseeds = [],
      mi_info = \<lparr>ti_pieces = [replicate 20 7], ti_piece_length = 16384, ti_content = content, ti_name = bstr ''iso''\<rparr>,
      mi_nodes = [], mi_info_hash = []\<rparr>"

section \<open>Keys\<close>

lemma info_keys:
  "bstr ''files'' < bstr ''name''" "bstr ''length'' < bstr ''name''" "bstr ''length'' < bstr ''path''"
  "bstr ''name'' < bstr ''piece length''" "bstr ''piece length'' < bstr ''pieces''"
  by code_simp+

lemma meta_keys:
  "sorted_wrt (<) (map bstr [''announce'', ''announce list'', ''comment'', ''creation date'', ''encoding'', ''httpseeds'', ''info''])"
  "bstr ''info'' < bstr ''nodes''" "bstr ''info'' < bstr ''url-list''"
  by code_simp+


section \<open>The info dictionary\<close>

lemma sha_chunks_concat: "\<forall>p \<in> set ps. length p = SHA_HASH_LEN \<Longrightarrow> sha_chunks (concat ps) = Some ps"
proof (induction ps)
  case (Cons p ps)
  then have "p \<noteq> []" by (auto simp: SHA_HASH_LEN_def)
  then obtain c cs where p: "p = c # cs" by (cases p) auto
  from Cons have len: "length p = SHA_HASH_LEN" and "sha_chunks (concat ps) = Some ps" by simp_all
  then have "sha_chunks (concat (p # ps)) = Some (take SHA_HASH_LEN p # ps)"
    unfolding p concat.simps append.simps sha_chunks.simps
    by (simp add: p [symmetric] ShaHash_try_from_def flip: append_Cons)
  with len show ?case by simp
qed simp

lemma info_encode_sorted: "ben_sorted (TorrentInfo_encode i)"
  using info_keys by (auto simp: TorrentInfo_encode_def SubFileInfo_encode_def split: InfoContent.split
      intro: less_trans)

lemma info_encode_depth: "flat (ti_content i) \<Longrightarrow> ben_depth (TorrentInfo_encode i) \<le> 2"
  by (cases "ti_content i") (auto simp: TorrentInfo_encode_def)

lemma sub_files_depth: "fs \<noteq> [] \<Longrightarrow> 3 \<le> ben_depth (BList (map SubFileInfo_encode fs))"
  by (cases fs) (auto simp: SubFileInfo_encode_def)

lemma info_encode_deep: "\<not> flat (ti_content i) \<Longrightarrow> 4 \<le> ben_depth (TorrentInfo_encode i)"
proof (cases "ti_content i")
  case (Multi fs)
  assume "\<not> flat (ti_content i)"
  with Multi have "fs \<noteq> []" by simp
  from sub_files_depth [OF this] Multi show ?thesis by (simp add: TorrentInfo_encode_def)
qed simp

lemmas info_start = and_then_def map_err_def ok_or_def TorrentInfo_field_def

lemma decodes_Nil: "decodes view r f [] s s"
  by (simp add: decodes_def)

lemma decodes_Cons:
  assumes "decodes view r f kvs s1 s2" and "ben_depth v \<le> r" and "\<And>ob. view ob = (v, below r v) \<Longrightarrow> f k ob s = Inr s1"
  shows "decodes view r f ((k, v) # kvs) s s2"
  using assms unfolding decodes_def by (cases v) (auto simp: and_then_def)

lemma decodes_option:
  assumes "decodes view r f kvs s1 s2" and "x = None \<Longrightarrow> s1 = s" and "\<And>a. x = Some a \<Longrightarrow> ben_depth (g a) \<le> r"
    and "\<And>a ob. x = Some a \<Longrightarrow> view ob = (g a, below r (g a)) \<Longrightarrow> f (bstr key) ob s = Inr s1"
  shows "decodes view r f (emit_option key g x @ kvs) s s2"
  using assms by (cases x) (auto simp: emit_option_def intro: decodes_Cons)

lemma decodes_nonempty:
  assumes "decodes view r f kvs s1 s2" and "xs = [] \<Longrightarrow> s1 = s" and "ben_depth (BList (map g xs)) \<le> r"
    and "\<And>ob. xs \<noteq> [] \<Longrightarrow> view ob = (BList (map g xs), below r (BList (map g xs))) \<Longrightarrow> f (bstr key) ob s = Inr s1"
  shows "decodes view r f (emit_nonempty key g xs @ kvs) s s2"
  using assms by (auto simp: emit_nonempty_def intro: decodes_Cons)

lemma strings_depth: "ben_depth (BList (map BBytes ss)) \<le> Suc 0"
  by (induction ss) auto

lemma meta_encode_sorted:
  assumes "mi_nodes m = []" and "mi_webseeds m = []"
  shows "ben_sorted (MetaInfo_encode m)"
  using meta_keys(1) info_encode_sorted assms
  by (auto simp: MetaInfo_encode_def emit_option_def emit_nonempty_def split: option.split)

lemma meta_encode_depth:
  assumes "flat (ti_content (mi_info m))" and "mi_nodes m = []"
  shows "ben_depth (MetaInfo_encode m) \<le> 3"
proof -
  have "foldr (\<lambda>v. max (ben_depth v)) (map BBytes ss) 0 = 0" for ss by (induction ss) auto
  with info_encode_depth [OF assms(1)] assms(2) show ?thesis
    by (auto simp: MetaInfo_encode_def emit_option_def emit_nonempty_def split: option.split)
qed

context bendy_crate
begin

lemma info_decode:
  assumes "view ob = (TorrentInfo_encode i, Suc r)" and "info_ok utf8 i" and "flat (ti_content i)"
  shows "TorrentInfo_decode B ob = Inr i"
proof -
  from assms(1) [unfolded TorrentInfo_encode_def] obtain xs where x: "try_into_dictionary B ob = Inr xs"
    and y: "yields snd (\<lambda>(k, v) (k', ob'). k' = k \<and> view ob' = (v, below (Suc r) v)) (Suc r)
     ((case ti_content i of
         Single len \<Rightarrow> (bstr ''length'', BInt (int len))
       | Multi files \<Rightarrow> (bstr ''files'', BList (map SubFileInfo_encode files))) #
      [(bstr ''name'', BBytes (ti_name i)), (bstr ''piece length'', BInt (int (ti_piece_length i))),
       (bstr ''pieces'', BBytes (concat (ti_pieces i)))]) xs"
    using dict_items by blast
  from assms(2) have p: "sha_chunks (concat (ti_pieces i)) = Some (ti_pieces i)"
    and n: "utf8 (ti_name i)" "ti_piece_length i < 2 ^ 64"
    by (simp_all add: info_ok_def sha_chunks_concat)
  show ?thesis
  proof (cases "ti_content i")
    case (Single len)
    with y obtain o1 o2 o3 o4 where xs: "xs = [Inr (bstr ''length'', o1), Inr (bstr ''name'', o2), Inr (bstr ''piece length'', o3), Inr (bstr ''pieces'', o4)]"
      and v: "view o1 = (BInt (int len), Suc r)" "view o2 = (BBytes (ti_name i), Suc r)" "view o3 = (BInt (int (ti_piece_length i)), Suc r)"
        "view o4 = (BBytes (concat (ti_pieces i)), Suc r)"
      by (auto simp: below_def)
    from Single assms(2) have "len < 2 ^ 64" by (simp add: info_ok_def)
    with v n p Single show ?thesis
      by (simp add: TorrentInfo_decode_def x xs info_start u64_ok string_ok bytes_ok)
  next
    case (Multi fs)
    with assms(3) have fs: "fs = []" by simp
    with Multi y obtain o1 o2 o3 o4 where xs: "xs = [Inr (bstr ''files'', o1), Inr (bstr ''name'', o2), Inr (bstr ''piece length'', o3), Inr (bstr ''pieces'', o4)]"
      and v: "view o1 = (BList [], r)" "view o2 = (BBytes (ti_name i), Suc r)" "view o3 = (BInt (int (ti_piece_length i)), Suc r)"
        "view o4 = (BBytes (concat (ti_pieces i)), Suc r)"
      by (auto simp: below_def)
    from list_items [OF v(1)] have "try_into_list B o1 = Inr []" by auto
    with v n p Multi fs show ?thesis
      by (simp add: TorrentInfo_decode_def x xs info_start u64_ok string_ok bytes_ok)
  qed
qed

lemma info_from_bencode:
  assumes "info_ok utf8 i" and "flat (ti_content i)"
  shows "TorrentInfo_from_bencode B (ser (TorrentInfo_encode i)) = Inr i"
proof -
  from next_ok [OF info_encode_sorted, of i 3] obtain ob where
    o: "bd_next_object B 3 (ser (TorrentInfo_encode i)) = Inr ob" "view ob = (TorrentInfo_encode i, below 3 (TorrentInfo_encode i))"
    by auto
  then have "view ob = (TorrentInfo_encode i, Suc 1)" by (simp add: below_def TorrentInfo_encode_def)
  from info_decode [OF this assms] o(1) show ?thesis by (simp add: TorrentInfo_from_bencode_def and_then_def)
qed

lemma meta_info_field:
  assumes "info_ok utf8 i" and "flat (ti_content i)" and "view ob = (TorrentInfo_encode i, Suc r)"
  shows "MetaInfo_field B sha1 (bstr ''info'') ob s =
    Inr (s\<lparr>mf_info_hash := Some (sha1 (ser (TorrentInfo_encode i))), mf_info := Some i\<rparr>)"
proof -
  obtain kvs where kvs: "TorrentInfo_encode i = BDict kvs" by (simp add: TorrentInfo_encode_def)
  from dict_items [OF assms(3) [unfolded kvs]] obtain xs where "try_into_dictionary B ob = Inr xs" by blast
  moreover have "into_raw B ob = Inr (ser (TorrentInfo_encode i))"
    using raw_ok [OF assms(3) [unfolded kvs]] info_encode_sorted [of i] info_encode_depth [OF assms(2)] by (simp add: kvs)
  ultimately show ?thesis
    by (simp add: MetaInfo_field_def and_then_def map_err_def info_from_bencode [OF assms(1,2)])
qed

lemma meta_fields_decode:
  assumes ok: "meta_ok utf8 m" and "flat (ti_content (mi_info m))" and "mi_nodes m = []" and "mi_webseeds m = []"
    and enc: "MetaInfo_encode m = BDict kvs"
  shows "decodes view (Suc (Suc r)) (MetaInfo_field B sha1) kvs meta_start
    \<lparr>mf_announce = mi_announce m, mf_announce_list = [], mf_webseeds = [], mf_httpseeds = mi_httpseeds m,
     mf_encoding = mi_encoding m, mf_comment = mi_comment m, mf_created_by = None, mf_creation_date = mi_creation_date m,
     mf_info = Some (mi_info m), mf_info_hash = Some (sha1 (ser (TorrentInfo_encode (mi_info m)))), mf_nodes = []\<rparr>"
    (is "decodes view ?r ?f kvs meta_start ?end")
proof -
  note field = MetaInfo_field_def and_then_def map_err_def decode_strings_def meta_start_def
  have info: "info_ok utf8 (mi_info m)" using ok by (simp add: meta_ok_def)
  have utf8: "mi_announce m = Some x \<Longrightarrow> utf8 x" "mi_comment m = Some x \<Longrightarrow> utf8 x" "mi_encoding m = Some x \<Longrightarrow> utf8 x" for x
    using ok by (auto simp: meta_ok_def)
  have date: "mi_creation_date m = Some n \<Longrightarrow> view ob = (BInt n, q) \<Longrightarrow> decode_i64 B ob = Inr n" for n ob q
    using ok i64_ok by (metis meta_ok_def)
  have seeds: "\<exists>xs. try_into_list B ob = Inr xs \<and> (\<forall>acc. list_loop (decode_string B) xs acc = Inr (acc @ mi_httpseeds m))"
    if "view ob = (BList (map BBytes (mi_httpseeds m)), q)" for ob q
    by (rule strings_ok [OF that]) (use ok in \<open>simp add: meta_ok_def\<close>)
  let ?s1 = "meta_start\<lparr>mf_announce := mi_announce m\<rparr>" let ?s2 = "?s1\<lparr>mf_comment := mi_comment m\<rparr>"
  let ?s3 = "?s2\<lparr>mf_creation_date := mi_creation_date m\<rparr>" let ?s4 = "?s3\<lparr>mf_encoding := mi_encoding m\<rparr>"
  let ?s5 = "?s4\<lparr>mf_httpseeds := mi_httpseeds m\<rparr>"
  let ?t5 = "[(bstr ''info'', TorrentInfo_encode (mi_info m))]"
  let ?t4 = "emit_nonempty ''httpseeds'' BBytes (mi_httpseeds m) @ ?t5"
  let ?t3 = "emit_option ''encoding'' BBytes (mi_encoding m) @ ?t4"
  let ?t2 = "emit_option ''creation date'' BInt (mi_creation_date m) @ ?t3"
  let ?t1 = "emit_option ''comment'' BBytes (mi_comment m) @ ?t2"
  let ?t0 = "emit_nonempty ''announce list'' BBytes (mi_announce_list m) @ ?t1"
  let ?d = "decodes view ?r ?f"
  have "?d ?t5 ?s5 ?end"
  proof (rule decodes_Cons)
    show "ben_depth (TorrentInfo_encode (mi_info m)) \<le> ?r" using info_encode_depth [OF assms(2)] by simp
    fix ob assume "view ob = (TorrentInfo_encode (mi_info m), below ?r (TorrentInfo_encode (mi_info m)))"
    then have "view ob = (TorrentInfo_encode (mi_info m), Suc r)" by (simp add: below_def TorrentInfo_encode_def)
    from meta_info_field [OF info assms(2) this] show "?f (bstr ''info'') ob ?s5 = Inr ?end" by (simp add: meta_start_def)
  qed (rule decodes_Nil)
  then have "?d ?t4 ?s4 ?end"
    by (rule decodes_nonempty) (use seeds strings_depth le_trans in \<open>fastforce simp: field\<close>)+
  then have "?d ?t3 ?s3 ?end" by (rule decodes_option) (simp_all add: field string_ok utf8)
  then have "?d ?t2 ?s2 ?end" by (rule decodes_option) (simp_all add: field date)
  then have "?d ?t1 ?s1 ?end" by (rule decodes_option) (simp_all add: field string_ok utf8)
  then have "?d ?t0 ?s1 ?end"
    by (rule decodes_nonempty) (use strings_depth le_trans in \<open>fastforce simp: field\<close>)+
  then have "?d (emit_option ''announce'' BBytes (mi_announce m) @ ?t0) meta_start ?end"
    by (rule decodes_option) (simp_all add: field string_ok utf8)
  with enc assms(3,4) show ?thesis by (auto simp: MetaInfo_encode_def emit_nonempty_def)
qed

lemma meta_from_bencode:
  assumes ok: "meta_ok utf8 m" and "flat (ti_content (mi_info m))" and "mi_nodes m = []" and "mi_webseeds m = []" and "3 \<le> d"
  shows "MetaInfo_from_bencode B sha1 d (ser (MetaInfo_encode m)) = Inr (m\<lparr>mi_announce_list := [], mi_created_by := None,
    mi_info_hash := sha1 (ser (TorrentInfo_encode (mi_info m)))\<rparr>)"
proof -
  obtain kvs where enc: "MetaInfo_encode m = BDict kvs" by (simp add: MetaInfo_encode_def)
  obtain r where d: "d = Suc (Suc (Suc r))" using assms(5) by (metis add_Suc add_0 less_eqE numeral_3_eq_3)
  with next_ok [OF meta_encode_sorted [OF assms(3,4)], of d] enc obtain ob where
    o: "bd_next_object B d (ser (MetaInfo_encode m)) = Inr ob" "view ob = (BDict kvs, Suc (Suc r))"
    by (auto simp: below_def)
  from dict_items [OF o(2)] meta_fields_decode [OF assms(1-4) enc, of r sha1] o(1) assms(3,4) show ?thesis
    by (cases m) (auto simp: MetaInfo_from_bencode_def MetaInfo_decode_def and_then_def ok_or_def decodes_def)
qed

lemma sub_file_too_deep:
  assumes "view ob = (SubFileInfo_encode f, 0)"
  shows "\<exists>e. SubFileInfo_decode B ob = Inl e"
proof -
  from dict_items [OF assms [unfolded SubFileInfo_encode_def]] obtain xs where
    x: "try_into_dictionary B ob = Inr xs" and
    y: "yields snd (\<lambda>(k, v) (k', ob'). k' = k \<and> view ob' = (v, below 0 v)) 0
      [(bstr ''length'', BInt (int (sf_length f))), (bstr ''path'', BList (map BBytes (sf_paths f)))] xs" by blast
  from y obtain o1 e where "xs = [Inr (bstr ''length'', o1), Inl e]" by auto
  with x show ?thesis by (auto simp: SubFileInfo_decode_def and_then_def split: sum.split)
qed

lemma deep_info_fails:
  assumes "\<not> flat (ti_content i)"
  shows "\<exists>e. TorrentInfo_from_bencode B (ser (TorrentInfo_encode i)) = Inl e"
proof -
  from assms obtain f fs where c: "ti_content i = Multi (f # fs)" by (cases "ti_content i") (auto simp: neq_Nil_conv)
  from next_ok [OF info_encode_sorted, of i 3] obtain ob where
    o: "bd_next_object B 3 (ser (TorrentInfo_encode i)) = Inr ob" "view ob = (TorrentInfo_encode i, below 3 (TorrentInfo_encode i))"
    by auto
  then have v: "view ob = (TorrentInfo_encode i, 2)" by (simp add: below_def TorrentInfo_encode_def)
  from dict_items [OF v [unfolded TorrentInfo_encode_def]] c obtain o1 ys where
    x: "try_into_dictionary B ob = Inr (Inr (bstr ''files'', o1) # ys)" and
    o1: "view o1 = (BList (map SubFileInfo_encode (f # fs)), 1)" by (fastforce simp: below_def)
  from list_items [OF o1] obtain o2 zs where l: "try_into_list B o1 = Inr (Inr o2 # zs)" and
    "view o2 = (SubFileInfo_encode f, 0)" by (fastforce simp: below_def SubFileInfo_encode_def)
  from sub_file_too_deep [OF this(2)] x l o(1) show ?thesis
    by (auto simp: TorrentInfo_from_bencode_def TorrentInfo_decode_def TorrentInfo_field_def and_then_def)
qed

lemma deep_meta_fails:
  assumes "ben_sorted (BDict kvs)" and "ben_depth (BDict kvs) \<le> d" and "(bstr ''info'', TorrentInfo_encode i) \<in> set kvs"
    and "\<not> flat (ti_content i)"
  shows "\<exists>e. MetaInfo_from_bencode B sha1 d (ser (BDict kvs)) = Inl e"
proof -
  from assms(2) obtain r where d: "d = Suc r" by (cases d) auto
  have depth: "\<forall>kv \<in> set kvs. ben_depth (snd kv) \<le> r"
    using depth_member [of _ kvs] assms(2) d by (metis less_Suc_eq_le less_le_trans)
  from next_ok [OF assms(1), of d] d obtain ob where
    o: "bd_next_object B d (ser (BDict kvs)) = Inr ob" "view ob = (BDict kvs, r)" by (auto simp: below_def)
  from dict_items [OF o(2)] obtain xs where x: "try_into_dictionary B ob = Inr xs"
    "yields snd (\<lambda>(k, v) (k', ob'). k' = k \<and> view ob' = (v, below r v)) r kvs xs" by blast
  have fails: "\<exists>e. MetaInfo_field B sha1 (bstr ''info'') ob' s = Inl e"
    if "view ob' = (TorrentInfo_encode i, below r (TorrentInfo_encode i))" for ob' s
  proof -
    obtain ivs where i: "TorrentInfo_encode i = BDict ivs" by (simp add: TorrentInfo_encode_def)
    from depth assms(3) have "ben_depth (BDict ivs) \<le> r" unfolding i by fastforce
    then have b: "below r (TorrentInfo_encode i) = r - 1" "ben_depth (BDict ivs) \<le> Suc (r - 1)" by (simp_all add: i below_def)
    from that [unfolded b(1)] have v: "view ob' = (BDict ivs, r - 1)" by (simp add: i)
    from dict_items [OF v] raw_ok [OF v _ b(2)] info_encode_sorted [of i] deep_info_fails [OF assms(4)] show ?thesis
      by (auto simp: i MetaInfo_field_def and_then_def map_err_def simp del: ben_sorted.simps)
  qed
  have "\<exists>e. dict_loop (MetaInfo_field B sha1) xs meta_start = Inl e"
    by (rule dict_loop_fails [OF x(2) depth assms(3)]) (rule fails)
  with x(1) o(1) show ?thesis by (auto simp: MetaInfo_from_bencode_def MetaInfo_decode_def and_then_def)
qed

lemma meta_unencodable:
  assumes "mi_nodes m \<noteq> [] \<or> mi_webseeds m \<noteq> [] \<or> \<not> flat (ti_content (mi_info m))"
  shows "\<exists>e. MetaInfo_to_bencode B m = Inl e"
proof -
  let ?info = "(bstr ''info'', TorrentInfo_encode (mi_info m))"
  have order: "sorted_wrt (<) (map fst (xs @ (k, v) # ys @ [?info])) \<Longrightarrow> k < bstr ''info''"
    for xs ys v and k :: "u8 list" by (simp add: sorted_wrt_append)
  obtain xs where e: "MetaInfo_encode m = BDict (xs @ emit_nonempty ''nodes'' DhtNode_encode (mi_nodes m) @
      emit_nonempty ''url-list'' BBytes (mi_webseeds m) @ [?info])"
    unfolding MetaInfo_encode_def by (metis append.assoc)
  have "\<not> (ben_sorted (MetaInfo_encode m) \<and> ben_depth (MetaInfo_encode m) \<le> 3)"
  proof (cases "flat (ti_content (mi_info m))")
    case True
    with assms consider "mi_webseeds m \<noteq> []" | "mi_nodes m \<noteq> []" by blast
    then show ?thesis
    proof cases
      case 1
      then show ?thesis using order [of "xs @ _" "bstr ''url-list''" _ "[]"] meta_keys(3)
        by (auto simp: e emit_nonempty_def sorted_wrt_append dest: less_asym)
    next
      case 2
      then show ?thesis using order [of xs "bstr ''nodes''"] meta_keys(2)
        by (auto simp: e emit_nonempty_def sorted_wrt_append dest: less_asym)
    qed
  next
    case False
    have "ben_depth (TorrentInfo_encode (mi_info m)) < ben_depth (MetaInfo_encode m)"
      unfolding e by (rule depth_member [where kv = ?info, unfolded snd_conv]) simp
    with info_encode_deep [OF False] show ?thesis by simp
  qed
  from emit_fails [OF this] show ?thesis by (simp add: MetaInfo_to_bencode_def)
qed

end


section \<open>Properties\<close>

lemma demo_meta_ok: "meta_ok ascii (demo_meta (Single 100))"
proof -
  have "ascii (bstr ''http'')" "ascii (bstr ''udp'')" "ascii (bstr ''x'')" "ascii (bstr ''seed'')" "ascii (bstr ''iso'')"
    by code_simp+
  then show ?thesis by (auto simp: meta_ok_def info_ok_def demo_meta_def SHA_HASH_LEN_def)
qed

text \<open>
  C4. A torrent file is read back: encoding a metainfo without nodes and web seeds, of a single file,
  succeeds, and decoding the data gives the metainfo again with the hash of its encoded info. Two
  fields do not come back: the announce list, which is written under another key than the one that is
  read, and the creator, which is not written.
\<close>

theorem metainfo_roundtrip:
  assumes "bendy_laws B utf8 ser view" and "meta_ok utf8 m" and "flat (ti_content (mi_info m))"
    and "mi_nodes m = []" and "mi_webseeds m = []" and "3 \<le> depth"
  shows "\<exists>data info_data. MetaInfo_to_bencode B m = Inr data \<and> TorrentInfo_to_bencode B (mi_info m) = Inr info_data \<and>
    MetaInfo_from_bencode B sha1 depth data =
      Inr (m\<lparr>mi_announce_list := [], mi_created_by := None, mi_info_hash := sha1 info_data\<rparr>)"
proof -
  note crate = bendy_crate.intro [OF assms(1)]
  have "MetaInfo_to_bencode B m = Inr (ser (MetaInfo_encode m))"
    unfolding MetaInfo_to_bencode_def
    by (rule bendy_crate.emit_ok [OF crate meta_encode_sorted [OF assms(4,5)] meta_encode_depth [OF assms(3,4)]])
  moreover have "TorrentInfo_to_bencode B (mi_info m) = Inr (ser (TorrentInfo_encode (mi_info m)))"
    unfolding TorrentInfo_to_bencode_def
    by (rule bendy_crate.emit_ok [OF crate info_encode_sorted]) (use info_encode_depth [OF assms(3)] in simp)
  ultimately show ?thesis using bendy_crate.meta_from_bencode [OF crate assms(2-6)] by blast
qed

theorem metainfo_roundtrip_witness:
  "\<exists>data info_data. MetaInfo_to_bencode bencoding (demo_meta (Single 100)) = Inr data \<and>
    TorrentInfo_to_bencode bencoding (mi_info (demo_meta (Single 100))) = Inr info_data \<and>
    MetaInfo_from_bencode bencoding (\<lambda>bs. take 20 bs) 2048 data =
      Inr ((demo_meta (Single 100))\<lparr>mi_announce_list := [], mi_created_by := None, mi_info_hash := take 20 info_data\<rparr>)"
  by (rule metainfo_roundtrip [OF bencoding_laws demo_meta_ok]) (simp_all add: demo_meta_def)

text \<open>
  C37. Torrents of several files are not supported: the constants that bound the nesting are too small
  for them. An info that names a file of a directory cannot be encoded, so it has no hash either, nor
  can its metainfo; and a metainfo of another client with such an info is refused.
\<close>

theorem multi_file_unsupported:
  assumes "bendy_laws B utf8 ser view" and "\<not> flat (ti_content (mi_info m))"
  shows "(\<exists>e. sha1_hash B sha1 (mi_info m) = Inl e) \<and> (\<exists>e. MetaInfo_to_bencode B m = Inl e) \<and>
    (\<forall>kvs depth. ben_sorted (BDict kvs) \<and> ben_depth (BDict kvs) \<le> depth \<and>
       (bstr ''info'', TorrentInfo_encode (mi_info m)) \<in> set kvs \<longrightarrow>
       (\<exists>e. MetaInfo_from_bencode B sha1 depth (ser (BDict kvs)) = Inl e))"
proof -
  note crate = bendy_crate.intro [OF assms(1)]
  have "\<not> (ben_sorted (TorrentInfo_encode (mi_info m)) \<and> ben_depth (TorrentInfo_encode (mi_info m)) \<le> 3)"
    using info_encode_deep [OF assms(2)] by simp
  from bendy_crate.emit_fails [OF crate this] have "\<exists>e. sha1_hash B sha1 (mi_info m) = Inl e"
    by (auto simp: sha1_hash_def TorrentInfo_to_bencode_def and_then_def)
  moreover have "\<exists>e. MetaInfo_to_bencode B m = Inl e"
    by (rule bendy_crate.meta_unencodable [OF crate]) (simp add: assms(2))
  ultimately show ?thesis using bendy_crate.deep_meta_fails [OF crate _ _ _ assms(2)] by blast
qed

theorem multi_file_unsupported_witness:
  "\<exists>e. MetaInfo_to_bencode bencoding (demo_meta (Multi [\<lparr>sf_length = 1, sf_paths = [bstr ''a'']\<rparr>])) = Inl e"
  using multi_file_unsupported [OF bencoding_laws, of "demo_meta (Multi [\<lparr>sf_length = 1, sf_paths = [bstr ''a'']\<rparr>])"]
  by (simp add: demo_meta_def)

text \<open>
  A metainfo with nodes or web seeds cannot be encoded: their keys are emitted before the key of the
  info, which sorts before them.
\<close>

theorem unsorted_metainfo_unencodable:
  assumes "bendy_laws B utf8 ser view" and "mi_nodes m \<noteq> [] \<or> mi_webseeds m \<noteq> []"
  shows "\<exists>e. MetaInfo_to_bencode B m = Inl e"
  by (rule bendy_crate.meta_unencodable [OF bendy_crate.intro [OF assms(1)]]) (use assms(2) in blast)

theorem unsorted_metainfo_unencodable_witness:
  "\<exists>e. MetaInfo_to_bencode bencoding ((demo_meta (Single 100))\<lparr>mi_webseeds := [bstr ''w'']\<rparr>) = Inl e"
  by (rule unsorted_metainfo_unencodable [OF bencoding_laws]) simp

end
