(* ===== verification/Builder.thy ===== *)
theory Builder
  imports Complex_Main MetainfoFiles
begin

text \<open>
  Building a torrent from files (\<^verbatim>\<open>src/torrent/builder.rs\<close>). The file system of the standard library and
  the walkdir crate are the fields of a record; an opened file is the bytes it still gives and the
  error that reading past them gives. A \<^verbatim>\<open>Sha1\<close> state is the list of the bytes it was fed. The logarithm
  of the piece length is computed in \<^verbatim>\<open>f64\<close>; the model takes the smallest power of two instead, which is
  the rounded-up logarithm of the exact quotient (\<open>log_loop_ceiling\<close>), and sizes up to 80 GiB are far
  within the precision of the type. The results are nested: a missing value is a panic, the left of a
  sum an error.
\<close>

section \<open>Data\<close>

record 'e dir_entry =
  ent_name :: "u8 list"
  ent_path :: path
  ent_is_file :: bool
  ent_len :: "'e + u64"

record 'e std_fs =
  fs_walk :: "path \<Rightarrow> ('e dir_entry \<Rightarrow> bool) \<Rightarrow> ('e + 'e dir_entry) list"
  fs_is_dir :: "path \<Rightarrow> bool"
  fs_len :: "path \<Rightarrow> 'e + u64"
  fs_open :: "path \<Rightarrow> 'e + u8 list \<times> 'e option"
  fs_utf8 :: "u8 list \<Rightarrow> bool"
  fs_error :: "string \<Rightarrow> 'e"

record TorrentBuilder =
  bu_announce :: "rstring option"
  bu_announce_list :: "rstring list option"
  bu_webseeds :: "rstring list option"
  bu_httpseeds :: "rstring list option"
  bu_name :: "rstring option"
  bu_encoding :: "rstring option"
  bu_comment :: "rstring option"
  bu_created_by :: "rstring option"
  bu_creation_date :: "int option"
  bu_content_root :: path
  bu_piece_length :: "usize option"
  bu_nodes :: "DhtNode list option"

text \<open>The error type of the crate (\<^verbatim>\<open>src/error.rs\<close>); both kinds of error of bendy have the type \<open>'b\<close>.\<close>

datatype ('e, 'b) Error =
  BendecodingError 'b | BencodingError 'b | IoErr 'e | TorrentErrorErr TorrentError | MessageErr string

section \<open>The fields of a builder\<close>

definition TorrentBuilder_new :: "path \<Rightarrow> TorrentBuilder" where
  "TorrentBuilder_new file =
     \<lparr>bu_announce = None, bu_announce_list = None, bu_webseeds = None, bu_httpseeds = None, bu_name = None,
      bu_encoding = None, bu_comment = None, bu_created_by = None, bu_creation_date = None,
      bu_content_root = file, bu_piece_length = None, bu_nodes = None\<rparr>"

definition builder_name :: "rstring \<Rightarrow> TorrentBuilder \<Rightarrow> TorrentBuilder" where
  "builder_name name b = b\<lparr>bu_name := Some name\<rparr>"

definition builder_encoding :: "rstring \<Rightarrow> TorrentBuilder \<Rightarrow> TorrentBuilder" where
  "builder_encoding encoding b = b\<lparr>bu_encoding := Some encoding\<rparr>"

definition builder_comment :: "rstring \<Rightarrow> TorrentBuilder \<Rightarrow> TorrentBuilder" where
  "builder_comment comment b = b\<lparr>bu_comment := Some comment\<rparr>"

definition builder_created_by :: "rstring \<Rightarrow> TorrentBuilder \<Rightarrow> TorrentBuilder" where
  "builder_created_by created_by b = b\<lparr>bu_created_by := Some created_by\<rparr>"

definition builder_creation_date :: "int \<Rightarrow> TorrentBuilder \<Rightarrow> TorrentBuilder" where
  "builder_creation_date timestamp b = b\<lparr>bu_creation_date := Some timestamp\<rparr>"

definition creation_now :: "int \<Rightarrow> TorrentBuilder \<Rightarrow> TorrentBuilder" where
  "creation_now utc_now b = builder_creation_date utc_now b"

definition builder_piece_length :: "usize \<Rightarrow> TorrentBuilder \<Rightarrow> TorrentBuilder + TorrentBuilder" where
  "builder_piece_length piece_length b =
     (if piece_length \<ge> BLOCK_SIZE_MIN \<and> piece_length \<le> BLOCK_SIZE_MAX
      then Inr (b\<lparr>bu_piece_length := Some piece_length\<rparr>) else Inl b)"

definition builder_announce :: "rstring \<Rightarrow> TorrentBuilder \<Rightarrow> TorrentBuilder" where
  "builder_announce announce b = b\<lparr>bu_announce := Some announce\<rparr>"

text \<open>Pushing to an optional vector.\<close>

definition push_some :: "'a \<Rightarrow> 'a list option \<Rightarrow> 'a list option" where
  "push_some x xs = (case xs of Some ys \<Rightarrow> Some (ys @ [x]) | None \<Rightarrow> Some [x])"

definition add_announce_list :: "rstring \<Rightarrow> TorrentBuilder \<Rightarrow> TorrentBuilder" where
  "add_announce_list announce b = b\<lparr>bu_announce_list := push_some announce (bu_announce_list b)\<rparr>"

definition builder_announce_list :: "rstring list \<Rightarrow> TorrentBuilder \<Rightarrow> TorrentBuilder" where
  "builder_announce_list announce b = b\<lparr>bu_announce_list := Some announce\<rparr>"

definition add_webseed :: "rstring \<Rightarrow> TorrentBuilder \<Rightarrow> TorrentBuilder" where
  "add_webseed webseed b = b\<lparr>bu_webseeds := push_some webseed (bu_webseeds b)\<rparr>"

definition builder_webseeds :: "rstring list \<Rightarrow> TorrentBuilder \<Rightarrow> TorrentBuilder" where
  "builder_webseeds webseeds b = b\<lparr>bu_webseeds := Some webseeds\<rparr>"

definition add_httpseed :: "rstring \<Rightarrow> TorrentBuilder \<Rightarrow> TorrentBuilder" where
  "add_httpseed httpseed b = b\<lparr>bu_httpseeds := push_some httpseed (bu_httpseeds b)\<rparr>"

definition builder_httpseeds :: "rstring list \<Rightarrow> TorrentBuilder \<Rightarrow> TorrentBuilder" where
  "builder_httpseeds httpseeds b = b\<lparr>bu_httpseeds := Some httpseeds\<rparr>"

definition add_node :: "DhtNode \<Rightarrow> TorrentBuilder \<Rightarrow> TorrentBuilder" where
  "add_node node b = b\<lparr>bu_nodes := push_some node (bu_nodes b)\<rparr>"

definition builder_nodes :: "DhtNode list \<Rightarrow> TorrentBuilder \<Rightarrow> TorrentBuilder" where
  "builder_nodes nodes b = b\<lparr>bu_nodes := Some nodes\<rparr>"

section \<open>The piece length\<close>

definition is_hidden :: "'e std_fs \<Rightarrow> 'e dir_entry \<Rightarrow> bool" where
  "is_hidden fs entry =
     (if fs_utf8 fs (ent_name entry) then (case ent_name entry of c # _ \<Rightarrow> c = 46 | [] \<Rightarrow> False) else False)"

definition content_entries :: "'e std_fs \<Rightarrow> TorrentBuilder \<Rightarrow> ('e + 'e dir_entry) list" where
  "content_entries fs b = fs_walk fs (bu_content_root b) (\<lambda>e. \<not> is_hidden fs e \<and> ent_is_file e)"

fun size_loop :: "bool \<Rightarrow> ('e + 'e dir_entry) list \<Rightarrow> u64 \<Rightarrow> ('e + u64) panics" where
  "size_loop checks [] sz = Some (Inr sz)"
| "size_loop checks (Inl e # rest) sz = Some (Inl e)"
| "size_loop checks (Inr entry # rest) sz =
     (case ent_len entry of
        Inl e \<Rightarrow> Some (Inl e)
      | Inr len \<Rightarrow> do { sz' \<leftarrow> u64_add checks sz len; size_loop checks rest sz' })"

definition piece_divisor :: "u64 \<Rightarrow> nat option" where
  "piece_divisor sz =
     (let two_pow_30 = 1073741824 in
      if sz \<le> two_pow_30 then Some 1024
      else if sz \<le> 4 * two_pow_30 then Some 2048
      else if sz \<le> 6 * two_pow_30 then Some 3072
      else if sz \<le> 8 * two_pow_30 then Some 2048
      else if sz \<le> 16 * two_pow_30 then Some 2048
      else if sz \<le> 32 * two_pow_30 then Some 4096
      else if sz \<le> 64 * two_pow_30 then Some 8192
      else if sz \<le> 80 * two_pow_30 then Some 10000
      else None)"

text \<open>The least exponent from \<open>k\<close> on with \<open>sz / d \<le> 2 ^ k\<close>; the divisors are positive.\<close>

function log_loop :: "nat \<Rightarrow> nat \<Rightarrow> nat \<Rightarrow> nat" where
  "log_loop sz d k = (if d = 0 \<or> sz \<le> d * 2 ^ k then k else log_loop sz d (Suc k))"
  by pat_completeness auto
termination
  by (relation "measure (\<lambda>(sz, d, k). sz - d * 2 ^ k)") (auto simp: not_le intro!: diff_less_mono2)

declare log_loop.simps [simp del]

definition piece_length_for :: "u64 \<Rightarrow> usize" where
  "piece_length_for sz =
     (case piece_divisor sz of
        Some d \<Rightarrow> max (2 ^ log_loop sz d 0) (16 * 1024)
      | None \<Rightarrow> BLOCK_SIZE_MAX)"

definition compute_piece_length :: "'e std_fs \<Rightarrow> bool \<Rightarrow> TorrentBuilder \<Rightarrow> ('e + usize) panics" where
  "compute_piece_length fs checks b = do {
     sz \<leftarrow> size_loop checks (content_entries fs b) 0;
     Some (and_then sz (\<lambda>sz. Inr (piece_length_for sz)))
   }"

section \<open>Reading the content\<close>

definition read_exact :: "'e std_fs \<Rightarrow> nat \<Rightarrow> u8 list \<times> 'e option \<Rightarrow> 'e + u8 list \<times> u8 list \<times> 'e option" where
  "read_exact fs n handle =
     (case handle of (bytes, err) \<Rightarrow>
        if n \<le> length bytes then Inr (take n bytes, drop n bytes, err)
        else Inl (case err of Some e \<Rightarrow> e | None \<Rightarrow> fs_error fs ''failed to fill whole buffer''))"

definition read_to_end :: "u8 list \<times> 'e option \<Rightarrow> 'e + u8 list" where
  "read_to_end handle = (case handle of (bytes, None) \<Rightarrow> Inr bytes | (_, Some e) \<Rightarrow> Inl e)"

definition file_info_paths :: "'e std_fs \<Rightarrow> TorrentBuilder \<Rightarrow> path \<Rightarrow> 'e + rstring list" where
  "file_info_paths fs b p =
     (let root = bu_content_root b in
      if take (length root) p = root then
        let prefix = drop (length root) p in
        if list_all (fs_utf8 fs) prefix then Inr prefix else Inl (fs_error fs ''Invalid filename'')
      else Inl (fs_error fs ''prefix not found''))"

text \<open>The loop that hashes whole pieces; it is only entered with a positive piece length.\<close>

function file_loop ::
  "'e std_fs \<Rightarrow> usize \<Rightarrow> usize \<Rightarrow> usize \<Rightarrow> u8 list \<times> 'e option \<Rightarrow> u8 list list
    \<Rightarrow> 'e + u8 list list \<times> (usize \<times> u8 list) option" where
  "file_loop fs piece_length len total_read handle pieces =
     (let left = len - total_read in
      if left = 0 \<or> piece_length = 0 then Inr (pieces, None)
      else if piece_length > left then
        and_then (read_exact fs left handle) (\<lambda>(buf, _). Inr (pieces, Some (left, buf)))
      else
        and_then (read_exact fs piece_length handle) (\<lambda>(buf, handle').
          file_loop fs piece_length len (total_read + piece_length) handle' (pieces @ [buf])))"
  by pat_completeness auto
termination by (relation "measure (\<lambda>(fs, p, len, sz, h, ps). len - sz)") auto

declare file_loop.simps [simp del]

definition read_file ::
  "'e std_fs \<Rightarrow> bool \<Rightarrow> TorrentBuilder \<Rightarrow> path \<Rightarrow> usize \<Rightarrow> (usize \<times> u8 list) option
    \<Rightarrow> ('e + SubFileInfo \<times> u8 list list \<times> (usize \<times> u8 list) option) panics" where
  "read_file fs checks b p piece_length overlap =
     (case and_then (fs_len fs p) (\<lambda>len. and_then (file_info_paths fs b p) (\<lambda>paths.
             and_then (fs_open fs p) (\<lambda>handle. Inr (len, paths, handle)))) of
        Inl e \<Rightarrow> Some (Inl e)
      | Inr (len, paths, handle) \<Rightarrow>
          let file_info = \<lparr>sf_length = len, sf_paths = paths\<rparr> in
          if piece_length = 0 then None
          else
            (case overlap of
               Some (previous_read, hasher) \<Rightarrow> do {
                 left \<leftarrow> u64_sub checks piece_length previous_read;
                 Some (if left \<le> len then
                   and_then (read_exact fs left handle) (\<lambda>(buf, handle').
                   and_then (file_loop fs piece_length len left handle' [hasher @ buf]) (\<lambda>r. Inr (file_info, r)))
                 else
                   and_then (read_to_end handle) (\<lambda>buf.
                     if length buf \<noteq> len then Inl (fs_error fs ''Expected to read'')
                     else Inr (file_info, [], Some (previous_read + length buf, hasher @ buf))))
               }
             | None \<Rightarrow> Some (and_then (file_loop fs piece_length len 0 handle []) (\<lambda>r. Inr (file_info, r)))))"

fun dir_loop ::
  "'e std_fs \<Rightarrow> bool \<Rightarrow> TorrentBuilder \<Rightarrow> usize \<Rightarrow> ('e + 'e dir_entry) list \<Rightarrow> (usize \<times> u8 list) option
    \<Rightarrow> SubFileInfo list \<Rightarrow> u8 list list \<Rightarrow> ('e + SubFileInfo list \<times> u8 list list \<times> (usize \<times> u8 list) option) panics" where
  "dir_loop fs checks b piece_length [] overlap files hashes = Some (Inr (files, hashes, overlap))"
| "dir_loop fs checks b piece_length (Inl e # rest) overlap files hashes = Some (Inl e)"
| "dir_loop fs checks b piece_length (Inr entry # rest) overlap files hashes = do {
     r \<leftarrow> read_file fs checks b (ent_path entry) piece_length overlap;
     (case r of
        Inl e \<Rightarrow> Some (Inl e)
      | Inr (file_info, file_hashes, file_overlap) \<Rightarrow>
          dir_loop fs checks b piece_length rest file_overlap (files @ [file_info]) (hashes @ file_hashes))
   }"

text \<open>The unfinished piece at the end is the last one.\<close>

definition push_overlap :: "u8 list list \<Rightarrow> (usize \<times> u8 list) option \<Rightarrow> u8 list list" where
  "push_overlap pieces overlap = (case overlap of Some (_, hash) \<Rightarrow> pieces @ [hash] | None \<Rightarrow> pieces)"

definition read_dir ::
  "'e std_fs \<Rightarrow> bool \<Rightarrow> TorrentBuilder \<Rightarrow> usize \<Rightarrow> ('e + SubFileInfo list \<times> u8 list list) panics" where
  "read_dir fs checks b piece_length = do {
     r \<leftarrow> dir_loop fs checks b piece_length (content_entries fs b) None [] [];
     Some (and_then r (\<lambda>(files, hashes, overlap). Inr (files, push_overlap hashes overlap)))
   }"

definition read_content ::
  "'e std_fs \<Rightarrow> bool \<Rightarrow> TorrentBuilder \<Rightarrow> usize \<Rightarrow> ('e + InfoContent \<times> u8 list list) panics" where
  "read_content fs checks b piece_length =
     (if fs_is_dir fs (bu_content_root b) then do {
        r \<leftarrow> read_dir fs checks b piece_length;
        Some (and_then r (\<lambda>(files, pieces). Inr (Multi files, pieces)))
      } else do {
        r \<leftarrow> read_file fs checks b (bu_content_root b) piece_length None;
        Some (and_then r (\<lambda>(info, pieces, overlap). Inr (Single (sf_length info), push_overlap pieces overlap)))
      })"

section \<open>Building\<close>

text \<open>\<^verbatim>\<open>Path::file_name\<close>\<close>

definition root_name :: "'e std_fs \<Rightarrow> path \<Rightarrow> rstring option" where
  "root_name fs p =
     (if p = [] \<or> last p = bstr ''..'' then None else if fs_utf8 fs (last p) then Some (last p) else None)"

definition or_default :: "'a list option \<Rightarrow> 'a list" where
  "or_default x = (case x of Some xs \<Rightarrow> xs | None \<Rightarrow> [])"

text \<open>The arguments of \<^verbatim>\<open>unwrap_or\<close> are evaluated, and can fail, even when they are not needed.\<close>

definition build ::
  "'e std_fs \<Rightarrow> ('o, 'b) bendy \<Rightarrow> (u8 list \<Rightarrow> ShaHash) \<Rightarrow> bool \<Rightarrow> TorrentBuilder
    \<Rightarrow> (('e, 'b) Error + MetaInfo) panics" where
  "build fs B sha1 checks b = do {
     computed \<leftarrow> compute_piece_length fs checks b;
     (case computed of
        Inl e \<Rightarrow> Some (Inl (IoErr e))
      | Inr n \<Rightarrow> do {
          let piece_length = (case bu_piece_length b of Some p \<Rightarrow> p | None \<Rightarrow> n);
          r \<leftarrow> read_content fs checks b piece_length;
          Some (and_then (map_err IoErr r) (\<lambda>(content, pieces).
            and_then (ok_or (IoErr (fs_error fs ''Invalid target filename'')) (root_name fs (bu_content_root b))) (\<lambda>fallback.
              let info = \<lparr>ti_pieces = map sha1 pieces, ti_piece_length = piece_length, ti_content = content,
                          ti_name = (case bu_name b of Some x \<Rightarrow> x | None \<Rightarrow> fallback)\<rparr>
              in and_then (map_err BencodingError (sha1_hash B sha1 info)) (\<lambda>hash.
                Inr \<lparr>mi_announce = bu_announce b, mi_announce_list = or_default (bu_announce_list b),
                     mi_encoding = bu_encoding b, mi_comment = bu_comment b, mi_created_by = bu_created_by b,
                     mi_creation_date = bu_creation_date b, mi_httpseeds = or_default (bu_httpseeds b),
                     mi_webseeds = or_default (bu_webseeds b), mi_info = info,
                     mi_nodes = or_default (bu_nodes b), mi_info_hash = hash\<rparr>))))
        })
   }"


section \<open>Torrent files and hashes of files\<close>

text \<open>
  What is used to write a file: creating it and writing a buffer to it. A world of type \<open>'w\<close> holds the
  files; \<open>fo_fs\<close> is what can be read in it.
\<close>

record ('f, 'e, 'w) file_out =
  fo_create :: "path \<Rightarrow> 'w \<Rightarrow> ('e + 'f) \<times> 'w"
  fo_write_all :: "'f \<Rightarrow> u8 list \<Rightarrow> 'w \<Rightarrow> ('e + unit) \<times> 'w"
  fo_fs :: "'w \<Rightarrow> 'e std_fs"

definition from_torrent_file ::
  "'e std_fs \<Rightarrow> ('o, 'b) bendy \<Rightarrow> (u8 list \<Rightarrow> ShaHash) \<Rightarrow> nat \<Rightarrow> path \<Rightarrow> ('e, 'b) Error + MetaInfo" where
  "from_torrent_file fs B sha1 depth p =
     and_then (map_err IoErr (fs_open fs p)) (\<lambda>handle.
     and_then (map_err IoErr (read_to_end handle)) (\<lambda>data.
       map_err BendecodingError (MetaInfo_from_bencode B sha1 depth data)))"

definition write_torrent_file ::
  "('f, 'e, 'w) file_out \<Rightarrow> ('o, 'b) bendy \<Rightarrow> MetaInfo \<Rightarrow> path \<Rightarrow> 'w \<Rightarrow> (('e, 'b) Error + u8 list) \<times> 'w" where
  "write_torrent_file io B m p w =
     (case MetaInfo_to_bencode B m of
        Inl e \<Rightarrow> (Inl (BencodingError e), w)
      | Inr data \<Rightarrow>
          (case fo_create io p w of
             (Inl e, w1) \<Rightarrow> (Inl (IoErr e), w1)
           | (Inr buffer, w1) \<Rightarrow>
               (case fo_write_all io buffer data w1 of
                  (Inl e, w2) \<Rightarrow> (Inl (IoErr e), w2)
                | (Inr _, w2) \<Rightarrow> (Inr data, w2))))"

text \<open>\<^verbatim>\<open>read\<close> into a buffer of the given length; at the end of the file it gives nothing.\<close>

definition read_some :: "nat \<Rightarrow> u8 list \<times> 'e option \<Rightarrow> 'e + u8 list \<times> u8 list \<times> 'e option" where
  "read_some n handle =
     (case handle of
        ([], Some e) \<Rightarrow> Inl e
      | (bytes, err) \<Rightarrow> Inr (take n bytes, drop n bytes, err))"

function hash_loop :: "u8 list \<times> 'e option \<Rightarrow> u8 list \<Rightarrow> 'e + u8 list" where
  "hash_loop handle hasher =
     (case read_some 1024 handle of
        Inl e \<Rightarrow> Inl e
      | Inr (buffer, handle') \<Rightarrow>
          if length buffer = 0 then Inr (hasher @ buffer) else hash_loop handle' (hasher @ buffer))"
  by pat_completeness auto
termination
  by (relation "measure (\<lambda>(handle, hasher). length (fst handle))")
    (auto simp: read_some_def split: list.splits option.splits prod.splits)

declare hash_loop.simps [simp del]

definition for_file :: "'e std_fs \<Rightarrow> (u8 list \<Rightarrow> ShaHash) \<Rightarrow> path \<Rightarrow> 'e + ShaHash" where
  "for_file fs sha1 p =
     and_then (fs_open fs p) (\<lambda>handle. and_then (hash_loop handle []) (\<lambda>hasher. Inr (sha1 hasher)))"

section \<open>Specification\<close>

text \<open>Consecutive pieces of the given length, the last one possibly shorter.\<close>

function chunks :: "nat \<Rightarrow> 'a list \<Rightarrow> 'a list list" where
  "chunks n xs = (if n = 0 \<or> xs = [] then [] else take n xs # chunks n (drop n xs))"
  by pat_completeness auto
termination by (relation "measure (\<lambda>(n, xs). length xs)") auto

declare chunks.simps [simp del]

text \<open>A file that can be read and has the given content, under a path of the content root.\<close>

definition file_holds :: "'e std_fs \<Rightarrow> TorrentBuilder \<Rightarrow> path \<Rightarrow> u8 list \<Rightarrow> bool" where
  "file_holds fs b p content \<longleftrightarrow>
     fs_len fs p = Inr (length content) \<and> fs_open fs p = Inr (content, None) \<and>
     (\<exists>rel. p = bu_content_root b @ rel \<and> list_all (fs_utf8 fs) rel)"

text \<open>The overlap that stands for the unfinished rest of the data.\<close>

definition overlap_of :: "u8 list \<Rightarrow> (usize \<times> u8 list) option" where
  "overlap_of rest = (if rest = [] then None else Some (length rest, rest))"

text \<open>
  What walkdir documents: the entries come in depth-first order, the root first, and an entry that
  fails the filter is left out with everything below it.
\<close>

datatype 'e dir_tree = DirNode (tree_entry: "'e dir_entry") "'e dir_tree list"

fun walk_tree :: "('e dir_entry \<Rightarrow> bool) \<Rightarrow> 'e dir_tree \<Rightarrow> 'e dir_entry list" where
  "walk_tree pred (DirNode entry children) =
     (if pred entry then entry # concat (map (walk_tree pred) children) else [])"

definition walk_laws :: "'e std_fs \<Rightarrow> (path \<Rightarrow> 'e dir_tree) \<Rightarrow> bool" where
  "walk_laws fs tree \<longleftrightarrow>
     (\<forall>p pred. fs_walk fs p pred = map Inr (walk_tree pred (tree p))) \<and>
     (\<forall>p. ent_path (tree_entry (tree p)) = p \<and> (fs_is_dir fs p \<longrightarrow> \<not> ent_is_file (tree_entry (tree p))))"

text \<open>The piece length that a build uses.\<close>

definition used_piece_length :: "TorrentBuilder \<Rightarrow> nat \<Rightarrow> usize" where
  "used_piece_length b len = (case bu_piece_length b of Some p \<Rightarrow> p | None \<Rightarrow> piece_length_for len)"

text \<open>
  File systems for the witnesses: every file holds three bytes; the root is a file, or a directory of
  one file. The last one shows the files of a root without the root itself.
\<close>

definition demo_entry :: "bool \<Rightarrow> path \<Rightarrow> string dir_entry" where
  "demo_entry file p = \<lparr>ent_name = last p, ent_path = p, ent_is_file = file, ent_len = Inr 3\<rparr>"

definition demo_tree :: "bool \<Rightarrow> path \<Rightarrow> string dir_tree" where
  "demo_tree dir p = DirNode (demo_entry (\<not> dir) p) (if dir then [DirNode (demo_entry True (p @ [bstr ''a''])) []] else [])"

definition demo_fs :: "bool \<Rightarrow> string std_fs" where
  "demo_fs dir = \<lparr>fs_walk = (\<lambda>p pred. map Inr (walk_tree pred (demo_tree dir p))),
     fs_is_dir = (\<lambda>p. dir), fs_len = (\<lambda>p. Inr 3), fs_open = (\<lambda>p. Inr ([1, 2, 3], None)), fs_utf8 = ascii, fs_error = (\<lambda>s. s)\<rparr>"

section \<open>Pieces\<close>

lemma chunks_split:
  "0 < n \<Longrightarrow> \<forall>h \<in> set hs. length h = n \<Longrightarrow> length rest < n \<Longrightarrow>
   chunks n (concat hs @ rest) = hs @ (if rest = [] then [] else [rest])"
proof (induction hs)
  case Nil
  then show ?case by (auto simp: chunks.simps [of n rest] chunks.simps [of n "[]"])
next
  case (Cons h hs)
  then have "h \<noteq> []" by auto
  with Cons show ?case by (subst chunks.simps) simp
qed

lemma file_loop_pieces:
  assumes "0 < n" and "total_read \<le> length content"
  shows "\<exists>hs rest. drop total_read content = concat hs @ rest \<and> (\<forall>h \<in> set hs. length h = n) \<and> length rest < n \<and>
    file_loop fs n (length content) total_read (drop total_read content, err) pieces = Inr (pieces @ hs, overlap_of rest)"
  using assms(2)
proof (induction "length content - total_read" arbitrary: total_read pieces rule: less_induct)
  case less
  let ?left = "length content - total_read" and ?rest = "drop total_read content"
  consider "?left = 0" | "0 < ?left" "?left < n" | "n \<le> ?left" "0 < ?left" by linarith
  then show ?case
  proof cases
    case 1
    then show ?thesis using assms(1)
      by (intro exI [of _ "[]"] exI [of _ "[]"]) (simp add: file_loop.simps overlap_of_def)
  next
    case 2
    then show ?thesis using assms(1)
      by (intro exI [of _ "[]"] exI [of _ ?rest]) (auto simp: file_loop.simps overlap_of_def read_exact_def and_then_def Let_def)
  next
    case 3
    then have "length content - (total_read + n) < ?left" "total_read + n \<le> length content" using assms(1) by simp_all
    from less.hyps [OF this, of "pieces @ [take n ?rest]"] obtain hs rest where
      h: "drop (total_read + n) content = concat hs @ rest" "\<forall>h \<in> set hs. length h = n" "length rest < n"
        "file_loop fs n (length content) (total_read + n) (drop (total_read + n) content, err) (pieces @ [take n ?rest])
          = Inr ((pieces @ [take n ?rest]) @ hs, overlap_of rest)" by blast
    have "?rest = concat (take n ?rest # hs) @ rest" 
      by (metis h(1) append_take_drop_id drop_drop add.commute concat.simps(2) append.assoc)
    moreover have "file_loop fs n (length content) total_read (?rest, err) pieces = Inr (pieces @ take n ?rest # hs, overlap_of rest)"
      using 3 assms(1) h(4) by (subst file_loop.simps) (simp add: read_exact_def and_then_def Let_def add.commute)
    ultimately show ?thesis using h(2,3) 3 by (intro exI [of _ "take n ?rest # hs"] exI [of _ rest]) auto
  qed
qed


lemma file_info_paths_rel: "list_all (fs_utf8 fs) rel \<Longrightarrow> file_info_paths fs b (bu_content_root b @ rel) = Inr rel"
  by (simp add: file_info_paths_def Let_def)

text \<open>Reading a file continues the pieces of the data before it.\<close>

lemma read_file_pieces:
  assumes "0 < n" and "length before < n" and "file_holds fs b p content"
  shows "\<exists>info hs rest. before @ content = concat hs @ rest \<and> (\<forall>h \<in> set hs. length h = n) \<and> length rest < n \<and>
    sf_length info = length content \<and> bu_content_root b @ sf_paths info = p \<and>
    read_file fs checks b p n (overlap_of before) = Some (Inr (info, hs, overlap_of rest))"
proof -
  from assms(3) obtain rel where rel: "bu_content_root b @ rel = p" "list_all (fs_utf8 fs) rel"
    and fs: "fs_len fs p = Inr (length content)" "fs_open fs p = Inr (content, None)" by (auto simp: file_holds_def)
  let ?info = "\<lparr>sf_length = length content, sf_paths = rel\<rparr>"
  note start = read_file_def fs file_info_paths_rel [OF rel(2), of b, unfolded rel(1)] and_then_def Let_def
  note loop = file_loop_pieces [OF assms(1), of _ content fs None]
  show ?thesis
  proof (cases "before = []")
    case True
    from loop [of 0 "[]"] obtain hs rest where "concat hs @ rest = content" "\<forall>h \<in> set hs. length h = n" "length rest < n"
      "file_loop fs n (length content) 0 (content, None) [] = Inr (hs, overlap_of rest)" by (metis drop0 append_Nil le0)
    with True assms(1) rel(1) show ?thesis
      by (intro exI [of _ ?info] exI [of _ hs] exI [of _ rest]) (simp add: start overlap_of_def)
  next
    case False
    let ?left = "n - length before"
    have sub: "u64_sub checks n (length before) = Some ?left" using assms(2) by (simp add: u64_sub_def)
    show ?thesis
    proof (cases "?left \<le> length content")
      case True
      from loop [OF True, of "[before @ take ?left content]"] obtain hs rest where
        h: "drop ?left content = concat hs @ rest" "\<forall>h \<in> set hs. length h = n" "length rest < n"
          "file_loop fs n (length content) ?left (drop ?left content, None) [before @ take ?left content]
            = Inr ([before @ take ?left content] @ hs, overlap_of rest)" by blast
      have "before @ content = concat ((before @ take ?left content) # hs) @ rest" using h(1) by (simp flip: h(1))
      moreover have "read_file fs checks b p n (overlap_of before) =
          Some (Inr (?info, (before @ take ?left content) # hs, overlap_of rest))"
        using False True assms(1) sub h(4) by (simp add: start overlap_of_def read_exact_def)
      ultimately show ?thesis using h(2,3) True assms(2) rel(1)
        by (intro exI [of _ ?info] exI [of _ "(before @ take ?left content) # hs"] exI [of _ rest]) auto
    next
      case not_le: False
      with False sub assms(1,2) rel(1) show ?thesis
        by (intro exI [of _ ?info] exI [of _ "[]"] exI [of _ "before @ content"])
          (auto simp: start overlap_of_def read_to_end_def)
    qed
  qed
qed


lemma dir_loop_pieces:
  assumes "0 < n" and "list_all2 (\<lambda>entry c. file_holds fs b (ent_path entry) c) entries contents" and "length before < n"
  shows "\<exists>infos hs rest. before @ concat contents = concat hs @ rest \<and> (\<forall>h \<in> set hs. length h = n) \<and> length rest < n \<and>
    map sf_length infos = map length contents \<and> map (\<lambda>i. bu_content_root b @ sf_paths i) infos = map ent_path entries \<and>
    dir_loop fs checks b n (map Inr entries) (overlap_of before) files hashes = Some (Inr (files @ infos, hashes @ hs, overlap_of rest))"
  using assms(2,3)
proof (induction entries arbitrary: contents before files hashes)
  case Nil
  then show ?case by (intro exI [of _ "[]"] exI [of _ "[]"] exI [of _ before]) simp
next
  case (Cons entry entries)
  then obtain c cs where c: "contents = c # cs" "file_holds fs b (ent_path entry) c"
    and cs: "list_all2 (\<lambda>entry c. file_holds fs b (ent_path entry) c) entries cs" by (auto simp: list_all2_Cons1)
  from read_file_pieces [OF assms(1) Cons.prems(2) c(2), of checks] obtain info hs rest where
    r: "before @ c = concat hs @ rest" "\<forall>h \<in> set hs. length h = n" "length rest < n" "sf_length info = length c"
      "bu_content_root b @ sf_paths info = ent_path entry"
      "read_file fs checks b (ent_path entry) n (overlap_of before) = Some (Inr (info, hs, overlap_of rest))" by blast
  from Cons.IH [OF cs r(3), of "files @ [info]" "hashes @ hs"] obtain infos hs' rest' where
    i: "rest @ concat cs = concat hs' @ rest'" "\<forall>h \<in> set hs'. length h = n" "length rest' < n"
      "map sf_length infos = map length cs" "map (\<lambda>i. bu_content_root b @ sf_paths i) infos = map ent_path entries"
      "dir_loop fs checks b n (map Inr entries) (overlap_of rest) (files @ [info]) (hashes @ hs)
        = Some (Inr ((files @ [info]) @ infos, (hashes @ hs) @ hs', overlap_of rest'))" by blast
  have "before @ concat contents = concat (hs @ hs') @ rest'"
    by (metis r(1) i(1) c(1) append.assoc concat.simps(2) concat_append)
  with r i c(1) show ?case
    by (intro exI [of _ "info # infos"] exI [of _ "hs @ hs'"] exI [of _ rest']) auto
qed

lemma push_overlap_chunks:
  "0 < n \<Longrightarrow> \<forall>h \<in> set hs. length h = n \<Longrightarrow> length rest < n \<Longrightarrow>
   push_overlap hs (overlap_of rest) = chunks n (concat hs @ rest)"
  by (simp add: chunks_split push_overlap_def overlap_of_def)

lemma read_single:
  assumes "0 < n" and "file_holds fs b (bu_content_root b) content" and "\<not> fs_is_dir fs (bu_content_root b)"
  shows "read_content fs checks b n = Some (Inr (Single (length content), chunks n content))"
proof -
  from read_file_pieces [OF assms(1) _ assms(2), of "[]" checks] assms(1) obtain info hs rest where
    "content = concat hs @ rest" "\<forall>h \<in> set hs. length h = n" "length rest < n" "sf_length info = length content"
    "read_file fs checks b (bu_content_root b) n None = Some (Inr (info, hs, overlap_of rest))" by (auto simp: overlap_of_def)
  with push_overlap_chunks [OF assms(1), of hs rest] assms(3) show ?thesis by (simp add: read_content_def and_then_def)
qed

text \<open>Hashing a file in parts of 1 KiB hashes its content.\<close>

lemma hash_loop_content: "hash_loop (bytes, err) hasher = (case err of Some e \<Rightarrow> Inl e | None \<Rightarrow> Inr (hasher @ bytes))"
proof (induction "length bytes" arbitrary: bytes hasher rule: less_induct)
  case less
  show ?case
  proof (cases bytes)
    case Nil
    then show ?thesis by (simp add: hash_loop.simps [of "([], err)"] read_some_def split: option.split)
  next
    case (Cons c cs)
    then have "hash_loop (bytes, err) hasher = hash_loop (drop 1024 bytes, err) (hasher @ take 1024 bytes)"
      by (simp add: hash_loop.simps [of "(c # cs, err)"] read_some_def)
    also have "\<dots> = (case err of Some e \<Rightarrow> Inl e | None \<Rightarrow> Inr ((hasher @ take 1024 bytes) @ drop 1024 bytes))"
      by (rule less) (simp add: Cons)
    finally show ?thesis by (simp only: append.assoc append_take_drop_id)
  qed
qed

lemma for_file_content: "for_file fs sha1 p = and_then (fs_open fs p) (\<lambda>handle. and_then (read_to_end handle) (\<lambda>bytes. Inr (sha1 bytes)))"
  by (cases "fs_open fs p") (auto simp: for_file_def hash_loop_content read_to_end_def and_then_def split: option.split prod.split)

section \<open>The piece length\<close>

lemma log_loop_least:
  "0 < d \<Longrightarrow> sz \<le> d * 2 ^ log_loop sz d k \<and> k \<le> log_loop sz d k \<and> (\<forall>j. k \<le> j \<and> j < log_loop sz d k \<longrightarrow> d * 2 ^ j < sz)"
proof (induction sz d k rule: log_loop.induct)
  case (1 sz d k)
  show ?case
  proof (cases "sz \<le> d * 2 ^ k")
    case True
    with 1 show ?thesis by (simp add: log_loop.simps)
  next
    case False
    then have l: "log_loop sz d k = log_loop sz d (Suc k)" using 1(2) by (simp add: log_loop.simps [of sz d k])
    from 1(1) [OF _ 1(2)] False 1(2) show ?thesis unfolding l
      by (metis Suc_leD Suc_leI le_neq_implies_less not_le bot_nat_0.not_eq_extremum)
  qed
qed

text \<open>The exponent is the one the code computes, over exact quotients.\<close>

lemma log_loop_ceiling:
  assumes "0 < d" and "0 < sz"
  shows "int (log_loop sz d 0) = max 0 \<lceil>log 2 (real sz / real d)\<rceil>"
proof -
  let ?k = "log_loop sz d 0" and ?x = "log 2 (real sz / real d)"
  have le: "?x \<le> real j \<longleftrightarrow> sz \<le> d * 2 ^ j" for j
  proof -
    have "?x \<le> real j \<longleftrightarrow> real sz / real d \<le> 2 powr real j" using assms by (subst log_le_iff) auto
    also have "\<dots> \<longleftrightarrow> real sz \<le> real d * 2 ^ j" using assms by (simp add: powr_realpow field_simps)
    also have "\<dots> \<longleftrightarrow> real sz \<le> real (d * 2 ^ j)" by simp
    finally show ?thesis by (simp only: of_nat_le_iff)
  qed
  note least = log_loop_least [OF assms(1), of sz 0]
  have "\<lceil>?x\<rceil> \<le> int ?k" using le [of ?k] least by (simp add: ceiling_le_iff)
  moreover have "int ?k \<le> \<lceil>?x\<rceil>" if k: "?k \<noteq> 0"
  proof -
    from k obtain j where j: "?k = Suc j" by (cases ?k) auto
    with least le [of j] have "real j < ?x" by force
    then have "int j < \<lceil>?x\<rceil>" by (simp add: less_ceiling_iff)
    with j show ?thesis by simp
  qed
  ultimately show ?thesis by (cases "?k = 0") auto
qed

lemma log_loop_bound: "0 < d \<Longrightarrow> sz \<le> d * 2 ^ m \<Longrightarrow> log_loop sz d 0 \<le> m"
  using log_loop_least [of d sz 0] by (meson le0 not_le)


lemma max_pow: "max (2 ^ j) (2 ^ k :: nat) = 2 ^ max j k"
  by (simp add: max_def)

lemma piece_length_power:
  "\<exists>k. 14 \<le> k \<and> k \<le> 24 \<and> piece_length_for sz = 2 ^ k"
proof (cases "piece_divisor sz")
  case None
  then show ?thesis by (intro exI [of _ 24]) (simp add: piece_length_for_def BLOCK_SIZE_MAX_def)
next
  case (Some d)
  then have "0 < d \<and> sz \<le> d * 2 ^ 24" by (auto simp: piece_divisor_def Let_def split: if_splits)
  then have "log_loop sz d 0 \<le> 24" by (simp add: log_loop_bound)
  moreover have "piece_length_for sz = 2 ^ max (log_loop sz d 0) 14"
    using Some max_pow [of "log_loop sz d 0" 14] by (simp add: piece_length_for_def)
  ultimately show ?thesis by (intro exI [of _ "max (log_loop sz d 0) 14"]) auto
qed

lemma piece_length_for_pos: "0 < piece_length_for sz" "piece_length_for sz < 2 ^ 64"
proof -
  obtain k where k: "k \<le> 24" "piece_length_for sz = 2 ^ k" using piece_length_power by blast
  have "(2 :: nat) ^ k \<le> 2 ^ 24" using k(1) by (rule power_increasing) simp
  with k(2) show "0 < piece_length_for sz" "piece_length_for sz < 2 ^ 64" by simp_all
qed

section \<open>Building\<close>

lemma chunks_length:
  assumes "0 < n" and "xs \<noteq> []"
  shows "chunks n xs \<noteq> []" and "(length (chunks n xs) - 1) * n < length xs" and "length xs \<le> length (chunks n xs) * n"
proof -
  have "xs \<noteq> [] \<Longrightarrow> chunks n xs \<noteq> [] \<and> (length (chunks n xs) - 1) * n < length xs \<and> length xs \<le> length (chunks n xs) * n"
    using assms(1)
  proof (induction n xs rule: chunks.induct)
    case (1 n xs)
    then have c: "chunks n xs = take n xs # chunks n (drop n xs)" by (simp add: chunks.simps [of n xs])
    show ?case
    proof (cases "drop n xs = []")
      case True
      then have "chunks n (drop n xs) = []" by (simp add: chunks.simps)
      with c True 1(2) show ?thesis by simp
    next
      case False
      with 1 have IH: "chunks n (drop n xs) \<noteq> []" "(length (chunks n (drop n xs)) - 1) * n < length (drop n xs)"
        "length (drop n xs) \<le> length (chunks n (drop n xs)) * n" by simp_all
      then obtain l where l: "length (chunks n (drop n xs)) = Suc l" by (cases "chunks n (drop n xs)") auto
      from IH l False show ?thesis by (simp add: c) linarith
    qed
  qed
  with assms(2) show "chunks n xs \<noteq> []" "(length (chunks n xs) - 1) * n < length xs" "length xs \<le> length (chunks n xs) * n" by blast+
qed

lemma build_frame:
  assumes "compute_piece_length fs checks b = Some (Inr n)"
    and "read_content fs checks b (case bu_piece_length b of Some p \<Rightarrow> p | None \<Rightarrow> n) = Some (Inr (content, pieces))"
    and "root_name fs (bu_content_root b) = Some nm"
    and "bendy_laws B utf8 ser view" and "flat content"
  shows "\<exists>m. build fs B sha1 checks b = Some (Inr m) \<and>
    mi_info m = \<lparr>ti_pieces = map sha1 pieces, ti_piece_length = (case bu_piece_length b of Some p \<Rightarrow> p | None \<Rightarrow> n),
      ti_content = content, ti_name = (case bu_name b of Some x \<Rightarrow> x | None \<Rightarrow> nm)\<rparr> \<and>
    mi_info_hash m = sha1 (ser (TorrentInfo_encode (mi_info m))) \<and>
    mi_announce m = bu_announce b \<and> mi_announce_list m = or_default (bu_announce_list b) \<and> mi_encoding m = bu_encoding b \<and>
    mi_comment m = bu_comment b \<and> mi_created_by m = bu_created_by b \<and> mi_creation_date m = bu_creation_date b \<and>
    mi_httpseeds m = or_default (bu_httpseeds b) \<and> mi_webseeds m = or_default (bu_webseeds b) \<and> mi_nodes m = or_default (bu_nodes b)"
proof -
  let ?info = "\<lparr>ti_pieces = map sha1 pieces, ti_piece_length = (case bu_piece_length b of Some p \<Rightarrow> p | None \<Rightarrow> n),
      ti_content = content, ti_name = (case bu_name b of Some x \<Rightarrow> x | None \<Rightarrow> nm)\<rparr>"
  have "TorrentInfo_to_bencode B ?info = Inr (ser (TorrentInfo_encode ?info))"
    unfolding TorrentInfo_to_bencode_def
    by (rule bendy_crate.emit_ok [OF bendy_crate.intro [OF assms(4)] info_encode_sorted])
      (use info_encode_depth [of ?info] assms(5) in simp)
  then have "sha1_hash B sha1 ?info = Inr (sha1 (ser (TorrentInfo_encode ?info)))"
    by (simp add: sha1_hash_def and_then_def)
  with assms(1-3) show ?thesis by (simp add: build_def and_then_def map_err_def ok_or_def Let_def)
qed

lemma walk_single:
  assumes "walk_laws fs tree" and "tree (bu_content_root b) = DirNode entry []" and "ent_is_file entry" and "\<not> is_hidden fs entry"
    and "ent_len entry = Inr len" and "len < 2 ^ 64"
  shows "compute_piece_length fs checks b = Some (Inr (piece_length_for len))"
  using assms by (simp add: compute_piece_length_def content_entries_def walk_laws_def u64_add_def and_then_def)

lemma walk_directory:
  assumes "walk_laws fs tree" and "fs_is_dir fs (bu_content_root b)"
  shows "content_entries fs b = []"
proof -
  obtain entry children where "tree (bu_content_root b) = DirNode entry children" by (cases "tree (bu_content_root b)")
  with assms show ?thesis by (auto simp: content_entries_def walk_laws_def)
qed


section \<open>Properties\<close>

text \<open>
  A torrent of a single file: the build succeeds, the pieces are the hashes of consecutive parts of
  the content, and for a non-empty file the info is well formed, so that the length of its last piece
  is computed without a panic. The hash of the info is that of its encoding.
\<close>

theorem single_file_torrent:
  assumes "walk_laws fs tree" and "tree (bu_content_root b) = DirNode entry []" and "ent_is_file entry"
    and "\<not> is_hidden fs entry" and "ent_len entry = Inr (length content)" and "length content < 2 ^ 64"
    and "\<not> fs_is_dir fs (bu_content_root b)" and "file_holds fs b (bu_content_root b) content"
    and "root_name fs (bu_content_root b) = Some nm" and "\<forall>p. bu_piece_length b = Some p \<longrightarrow> 0 < p"
    and "bendy_laws B utf8 ser view"
  shows "\<exists>m. build fs B sha1 checks b = Some (Inr m) \<and>
    mi_info m = \<lparr>ti_pieces = map sha1 (chunks (used_piece_length b (length content)) content),
      ti_piece_length = used_piece_length b (length content), ti_content = Single (length content),
      ti_name = (case bu_name b of Some x \<Rightarrow> x | None \<Rightarrow> nm)\<rparr> \<and>
    (content \<noteq> [] \<longrightarrow> info_wf (mi_info m)) \<and>
    (\<exists>data. TorrentInfo_to_bencode B (mi_info m) = Inr data \<and> mi_info_hash m = sha1 data)"
proof -
  let ?n = "used_piece_length b (length content)"
  have n: "?n = (case bu_piece_length b of Some p \<Rightarrow> p | None \<Rightarrow> piece_length_for (length content))"
    by (simp add: used_piece_length_def)
  have pos: "0 < ?n" using assms(10) piece_length_for_pos(1) by (simp add: used_piece_length_def split: option.split)
  from build_frame [OF walk_single [OF assms(1-6)] read_single [OF pos assms(8,7), unfolded n] assms(9,11), of sha1]
  obtain m where m: "build fs B sha1 checks b = Some (Inr m)"
    "mi_info m = \<lparr>ti_pieces = map sha1 (chunks ?n content), ti_piece_length = ?n, ti_content = Single (length content),
      ti_name = (case bu_name b of Some x \<Rightarrow> x | None \<Rightarrow> nm)\<rparr>"
    "mi_info_hash m = sha1 (ser (TorrentInfo_encode (mi_info m)))" unfolding n by (metis flat.simps(1))
  have "content \<noteq> [] \<Longrightarrow> info_wf (mi_info m)"
    using chunks_length [OF pos, of content] assms(6) pos by (simp add: m(2) info_wf_def total_length_def)
  moreover have "TorrentInfo_to_bencode B (mi_info m) = Inr (ser (TorrentInfo_encode (mi_info m)))"
    unfolding TorrentInfo_to_bencode_def
    by (rule bendy_crate.emit_ok [OF bendy_crate.intro [OF assms(11)] info_encode_sorted])
      (use info_encode_depth [of "mi_info m"] m(2) in simp)
  ultimately show ?thesis using m by blast
qed

lemma demo_walk_laws: "walk_laws (demo_fs dir) (demo_tree dir)"
  by (simp add: walk_laws_def demo_fs_def demo_tree_def demo_entry_def)

lemma demo_root: "root_name (demo_fs dir) [bstr ''x''] = Some (bstr ''x'')" "\<not> is_hidden (demo_fs dir) (demo_entry file [bstr ''x''])"
  by code_simp+

theorem single_file_torrent_witness:
  "\<exists>m. build (demo_fs False) bencoding (\<lambda>bs. bs) False (TorrentBuilder_new [bstr ''x'']) = Some (Inr m) \<and>
    ti_pieces (mi_info m) = [[1, 2, 3]] \<and> info_wf (mi_info m)"
proof -
  let ?b = "TorrentBuilder_new [bstr ''x'']"
  have "used_piece_length ?b (length [1, 2, 3 :: u8]) = 16384"
    by (simp add: used_piece_length_def TorrentBuilder_new_def piece_length_for_def piece_divisor_def log_loop.simps)
  moreover have "file_holds (demo_fs False) ?b (bu_content_root ?b) [1, 2, 3]" by (simp add: file_holds_def demo_fs_def)
  ultimately have "\<exists>m. build (demo_fs False) bencoding (\<lambda>bs. bs) False ?b = Some (Inr m) \<and>
    mi_info m = \<lparr>ti_pieces = map (\<lambda>bs. bs) (chunks 16384 [1, 2, 3]), ti_piece_length = 16384,
      ti_content = Single (length [1, 2, 3 :: u8]), ti_name = (case bu_name ?b of Some x \<Rightarrow> x | None \<Rightarrow> bstr ''x'')\<rparr> \<and>
    ([1, 2, 3 :: u8] \<noteq> [] \<longrightarrow> info_wf (mi_info m)) \<and>
    (\<exists>data. TorrentInfo_to_bencode bencoding (mi_info m) = Inr data \<and> mi_info_hash m = data)"
    using single_file_torrent [where fs = "demo_fs False" and b = ?b and content = "[1, 2, 3]" and nm = "bstr ''x''"
        and entry = "demo_entry True [bstr ''x'']" and ?sha1.0 = "\<lambda>bs. bs" and checks = False, OF demo_walk_laws _ _ _ _ _ _ _ _ _ bencoding_laws]
      demo_root by (simp add: demo_tree_def TorrentBuilder_new_def demo_entry_def) (simp add: demo_fs_def)
  then show ?thesis by (auto simp: chunks.simps)
qed

text \<open>
  C38. A torrent of a directory is empty: the filter of the walk drops the root, because it is not a
  file, and with it everything below. The build succeeds with no file and no piece, whatever the
  directory holds.
\<close>

theorem directory_torrent_empty:
  assumes "walk_laws fs tree" and "fs_is_dir fs (bu_content_root b)" and "root_name fs (bu_content_root b) = Some nm"
    and "bendy_laws B utf8 ser view"
  shows "\<exists>m. build fs B sha1 checks b = Some (Inr m) \<and> ti_pieces (mi_info m) = [] \<and> ti_content (mi_info m) = Multi []"
proof -
  note e = walk_directory [OF assms(1,2)]
  have c: "compute_piece_length fs checks b = Some (Inr (piece_length_for 0))"
    by (simp add: compute_piece_length_def e and_then_def)
  have r: "read_content fs checks b n = Some (Inr (Multi [], []))" for n
    using assms(2) by (simp add: read_content_def read_dir_def e and_then_def push_overlap_def)
  from build_frame [OF c r assms(3,4), of sha1] show ?thesis by fastforce
qed

theorem directory_torrent_empty_witness:
  "\<exists>m. build (demo_fs True) bencoding (\<lambda>bs. bs) False (TorrentBuilder_new [bstr ''x'']) = Some (Inr m) \<and>
    ti_pieces (mi_info m) = [] \<and> ti_content (mi_info m) = Multi []"
  by (rule directory_torrent_empty [OF demo_walk_laws _ _ bencoding_laws])
    (use demo_root(1) [of True] in \<open>simp_all add: demo_fs_def TorrentBuilder_new_def\<close>)

text \<open>
  The computed piece length is a power of two between 16 KiB and 16 MiB, the bounds that the builder
  enforces on a given piece length.
\<close>

theorem piece_length_bounds:
  "\<exists>k. piece_length_for sz = 2 ^ k \<and> BLOCK_SIZE_MIN \<le> piece_length_for sz \<and> piece_length_for sz \<le> BLOCK_SIZE_MAX"
proof -
  obtain k where k: "14 \<le> k" "k \<le> 24" "piece_length_for sz = 2 ^ k" using piece_length_power by blast
  have "(2 :: nat) ^ 14 \<le> 2 ^ k" by (rule power_increasing [OF k(1)]) simp
  moreover have "(2 :: nat) ^ k \<le> 2 ^ 24" by (rule power_increasing [OF k(2)]) simp
  ultimately have "16384 \<le> piece_length_for sz" "piece_length_for sz \<le> 16777216" unfolding k(3) by simp_all
  with k(3) show ?thesis by (auto simp: BLOCK_SIZE_MIN_def BLOCK_SIZE_MAX_def)
qed

end
