(* ===== verification/PieceBuffers.thy ===== *)
theory PieceBuffers
  imports Metainfo
begin

text \<open>
  The buffer that drives one piece to completion (\<^verbatim>\<open>PieceBuffer\<close> in \<^verbatim>\<open>src/peer/piece.rs\<close>): which blocks
  are missing, which are pending at which peer, which have arrived.

  The step relation \<open>pb_step\<close> describes everything that can happen to a buffer; \<open>pb_run\<close> are the
  states it reaches, in every run of the program (\<open>pb_run False\<close>) or in the orderly runs only
  (\<open>pb_run True\<close>), in which no peer joins that the buffer already has. \<open>pb_safe\<close> holds in every run: no
  block is held twice and received blocks are filed under their offset. \<open>pb_inv\<close> holds in the
  orderly runs: missing, pending and received blocks are together exactly the blocks of the
  piece. The theorems show in addition that a full buffer yields the whole piece, and that
  answered requests finish the piece.
\<close>

section \<open>Data\<close>

record NextBlock =
  nb_torrent_id :: TorrentId
  nb_block_metadata :: BlockMetadata
  nb_peer_id :: PeerId

record PieceBuffer =
  pb_torrent_id :: TorrentId
  pb_missing_blocks :: "BlockMetadata list"
  pb_pending_blocks :: "(PeerId, BlockMetadata) hash_map"
  pb_piece_index :: u64
  pb_blocks :: "(u64, Block) btree_map"
  pb_peers :: "PeerId list"
  pb_piece_length :: u64
  pb_total_blocks :: u64
  pb_last_block_size :: u64

definition BLOCK_SIZE :: u64 where
  "BLOCK_SIZE = 16384"

section \<open>Operations\<close>

definition PieceBuffer_new :: "u64 \<Rightarrow> u64 \<Rightarrow> TorrentId \<Rightarrow> PeerId list \<Rightarrow> PieceBuffer" where
  "PieceBuffer_new piece_index piece_length torrent_id peers =
     (let num_full_blocks = piece_length div BLOCK_SIZE;
          last_block_size = piece_length mod BLOCK_SIZE;
          full = fold (\<lambda>index blocks.
                    blocks @ [BlockMetadata_new piece_index (index * BLOCK_SIZE) BLOCK_SIZE])
                  [0..<num_full_blocks] [];
          missing_blocks =
            (if last_block_size > 0
             then full @ [BlockMetadata_new piece_index (piece_length - last_block_size)
                            last_block_size]
             else full)
      in \<lparr>pb_torrent_id = torrent_id, pb_missing_blocks = missing_blocks,
          pb_pending_blocks = [], pb_piece_index = piece_index, pb_blocks = [],
          pb_peers = peers, pb_piece_length = piece_length,
          pb_total_blocks = length missing_blocks, pb_last_block_size = last_block_size\<rparr>)"

definition PieceBuffer_next :: "PieceBuffer \<Rightarrow> NextBlock option \<times> PieceBuffer" where
  "PieceBuffer_next b =
     (if pb_peers b = [] then (None, b)
      else
        let peer = last (pb_peers b); b1 = b\<lparr>pb_peers := butlast (pb_peers b)\<rparr> in
        if pb_missing_blocks b1 = [] then (None, b1\<lparr>pb_peers := pb_peers b1 @ [peer]\<rparr>)
        else
          let block = last (pb_missing_blocks b1) in
          (Some \<lparr>nb_torrent_id = pb_torrent_id b, nb_block_metadata = block, nb_peer_id = peer\<rparr>,
           b1\<lparr>pb_missing_blocks := butlast (pb_missing_blocks b1),
              pb_pending_blocks := hm_insert peer block (pb_pending_blocks b1)\<rparr>))"

definition PieceBuffer_remove_peer :: "PeerId \<Rightarrow> PieceBuffer \<Rightarrow> PeerId option \<times> PieceBuffer" where
  "PieceBuffer_remove_peer peer b =
     (case position (\<lambda>x. x = peer) (pb_peers b) of
        Some pos \<Rightarrow> (Some (pb_peers b ! pos), b\<lparr>pb_peers := vec_remove pos (pb_peers b)\<rparr>)
      | None \<Rightarrow>
          (case hm_get (pb_pending_blocks b) peer of
             Some block \<Rightarrow>
               (Some peer,
                b\<lparr>pb_pending_blocks := hm_remove peer (pb_pending_blocks b),
                  pb_missing_blocks := pb_missing_blocks b @ [block]\<rparr>)
           | None \<Rightarrow> (None, b)))"

definition is_full_piece :: "PieceBuffer \<Rightarrow> bool" where
  "is_full_piece b \<longleftrightarrow> length (pb_blocks b) = pb_total_blocks b"

definition PieceBuffer_add_block ::
  "PeerId \<Rightarrow> Block \<Rightarrow> PieceBuffer \<Rightarrow> (BlockErr + BlockMetadata) \<times> PieceBuffer" where
  "PieceBuffer_add_block peer block b =
     (case hm_get (pb_pending_blocks b) peer of
        Some expected \<Rightarrow>
          let b1 = b\<lparr>pb_pending_blocks := hm_remove peer (pb_pending_blocks b)\<rparr> in
          if bl_metadata block = expected then
            (Inr expected,
             b1\<lparr>pb_blocks := bt_insert (bm_block_offset (bl_metadata block)) block (pb_blocks b1),
                pb_peers := pb_peers b1 @ [peer]\<rparr>)
          else
            (Inl (InvalidBlock peer expected block),
             b1\<lparr>pb_missing_blocks := pb_missing_blocks b1 @ [expected],
                pb_peers := pb_peers b1 @ [peer]\<rparr>)
      | None \<Rightarrow> (Inl (NotRequested peer block), b))"

fun finalize_loop :: "u64 \<Rightarrow> Block list \<Rightarrow> u8 list \<Rightarrow> TorrentError + u8 list" where
  "finalize_loop index [] buffer = Inr buffer"
| "finalize_loop index (block # blocks) buffer =
     (if is_correct_len block then finalize_loop index blocks (buffer @ bl_data block)
      else Inl (BadPiece index))"

definition try_finalize_piece :: "PieceBuffer \<Rightarrow> TorrentError + Block" where
  "try_finalize_piece b =
     (case finalize_loop (pb_piece_index b) (map snd (pb_blocks b)) [] of
        Inr buffer \<Rightarrow>
          Inr (Block_new (BlockMetadata_new (pb_piece_index b) 0 (pb_piece_length b)) buffer)
      | Inl e \<Rightarrow> Inl e)"

section \<open>The layout of a piece and the invariant\<close>

text \<open>The blocks of a piece: consecutive, all of the block size but the last.\<close>

definition num_blocks :: "nat \<Rightarrow> nat" where
  "num_blocks plen = (plen + BLOCK_SIZE - 1) div BLOCK_SIZE"

definition layout_block :: "u64 \<Rightarrow> u64 \<Rightarrow> nat \<Rightarrow> BlockMetadata" where
  "layout_block idx plen i =
     BlockMetadata_new idx (i * BLOCK_SIZE) (min BLOCK_SIZE (plen - i * BLOCK_SIZE))"

definition piece_layout :: "u64 \<Rightarrow> u64 \<Rightarrow> BlockMetadata list" where
  "piece_layout idx plen = map (layout_block idx plen) [0..<num_blocks plen]"

definition pb_all :: "PieceBuffer \<Rightarrow> BlockMetadata multiset" where
  "pb_all b = mset (pb_missing_blocks b) + image_mset snd (mset (pb_pending_blocks b))
     + image_mset (bl_metadata \<circ> snd) (mset (pb_blocks b))"

definition pb_safe :: "PieceBuffer \<Rightarrow> bool" where
  "pb_safe b \<longleftrightarrow>
     pb_all b \<subseteq># mset (piece_layout (pb_piece_index b) (pb_piece_length b)) \<and>
     pb_total_blocks b = num_blocks (pb_piece_length b) \<and>
     distinct (keys (pb_pending_blocks b)) \<and>
     bt_wf (pb_blocks b) \<and>
     (\<forall>(k, bl) \<in> set (pb_blocks b). k = bm_block_offset (bl_metadata bl) \<and> is_correct_len bl)"

definition pb_inv :: "PieceBuffer \<Rightarrow> bool" where
  "pb_inv b \<longleftrightarrow>
     pb_all b = mset (piece_layout (pb_piece_index b) (pb_piece_length b)) \<and>
     pb_total_blocks b = num_blocks (pb_piece_length b) \<and>
     distinct (pb_peers b @ keys (pb_pending_blocks b)) \<and>
     bt_wf (pb_blocks b) \<and>
     (\<forall>(k, bl) \<in> set (pb_blocks b). k = bm_block_offset (bl_metadata bl) \<and> is_correct_len bl)"

text \<open>
  What can happen to a buffer: the operations above, a peer that joins, and a change of the
  hash table's order. The handler enters a peer that unchokes the client or completes a
  handshake without looking whether the buffer has it; a step is orderly when it has not. A
  block handed to the buffer comes from a wire message, so its length is the one its metadata
  says.
\<close>

inductive pb_step :: "bool \<Rightarrow> PieceBuffer \<Rightarrow> PieceBuffer \<Rightarrow> bool" for orderly where
  step_next: "pb_step orderly b (snd (PieceBuffer_next b))"
| step_add: "is_correct_len blk \<Longrightarrow> pb_step orderly b (snd (PieceBuffer_add_block p blk b))"
| step_remove: "pb_step orderly b (snd (PieceBuffer_remove_peer p b))"
| step_join: "orderly \<longrightarrow> p \<notin> set (pb_peers b @ keys (pb_pending_blocks b)) \<Longrightarrow>
    pb_step orderly b (b\<lparr>pb_peers := pb_peers b @ [p]\<rparr>)"
| step_rehash: "mset pend = mset (pb_pending_blocks b) \<Longrightarrow>
    pb_step orderly b (b\<lparr>pb_pending_blocks := pend\<rparr>)"

inductive pb_run :: "bool \<Rightarrow> PieceBuffer \<Rightarrow> bool" for orderly where
  pb_start: "orderly \<longrightarrow> distinct peers \<Longrightarrow> pb_run orderly (PieceBuffer_new idx plen tid peers)"
| pb_more: "pb_run orderly b \<Longrightarrow> pb_step orderly b b' \<Longrightarrow> pb_run orderly b'"

abbreviation pb_reachable :: "PieceBuffer \<Rightarrow> bool" where
  "pb_reachable \<equiv> pb_run False"

text \<open>One round with an honest peer: the next request is answered with its part of the piece.\<close>

definition served_block :: "u8 list \<Rightarrow> NextBlock \<Rightarrow> Block" where
  "served_block content nb =
     (let m = nb_block_metadata nb in
      Block_new m (take (bm_block_length m) (drop (bm_block_offset m) content)))"

definition serve_round :: "u8 list \<Rightarrow> PieceBuffer \<Rightarrow> PieceBuffer" where
  "serve_round content b =
     (case PieceBuffer_next b of
        (Some nb, b') \<Rightarrow> snd (PieceBuffer_add_block (nb_peer_id nb) (served_block content nb) b')
      | (None, b') \<Rightarrow> b')"

text \<open>Every received block holds its part of the content.\<close>

definition all_from :: "u8 list \<Rightarrow> PieceBuffer \<Rightarrow> bool" where
  "all_from content b \<longleftrightarrow>
     (\<forall>(k, bl) \<in> set (pb_blocks b).
        bl_data bl = take (bm_block_length (bl_metadata bl)) (drop (bm_block_offset (bl_metadata bl)) content))"

section \<open>Lemmas on the layout\<close>

lemma BLOCK_SIZE_pos [simp]: "0 < BLOCK_SIZE"
  by (simp add: BLOCK_SIZE_def)

lemma layout_block_fields [simp]:
  "bm_piece_index (layout_block idx plen i) = idx"
  "bm_block_offset (layout_block idx plen i) = i * BLOCK_SIZE"
  "bm_block_length (layout_block idx plen i) = min BLOCK_SIZE (plen - i * BLOCK_SIZE)"
  by (simp_all add: layout_block_def BlockMetadata_new_def)

lemma num_blocks_split:
  "num_blocks plen = plen div BLOCK_SIZE + (if plen mod BLOCK_SIZE > 0 then 1 else 0)"
proof -
  define q r where "q = plen div BLOCK_SIZE" and "r = plen mod BLOCK_SIZE"
  then have plen: "plen = 16384 * q + r" and r: "r < 16384"
    by (simp_all add: BLOCK_SIZE_def)
  have "(plen + 16384 - 1) div 16384 = q + (if r > 0 then 1 else 0)"
    unfolding plen using r by (intro div_nat_eqI) auto
  then show ?thesis unfolding num_blocks_def q_def r_def by (simp add: BLOCK_SIZE_def)
qed

lemma layout_offset_less: "i < num_blocks plen \<Longrightarrow> i * BLOCK_SIZE < plen"
  using less_eq_div_iff_mult_less_eq [of BLOCK_SIZE "Suc i" "plen + BLOCK_SIZE - 1"]
  by (auto simp: num_blocks_def BLOCK_SIZE_def Suc_le_eq)

lemma fold_push: "fold (\<lambda>i acc. acc @ [f i]) is acc = acc @ map f is"
  by (induction "is" arbitrary: acc) auto

lemma new_missing_blocks:
  "pb_missing_blocks (PieceBuffer_new idx plen tid peers) = piece_layout idx plen"
proof -
  let ?q = "plen div BLOCK_SIZE" and ?r = "plen mod BLOCK_SIZE"
  have plen: "plen = ?q * BLOCK_SIZE + ?r" by simp
  have full: "layout_block idx plen i = BlockMetadata_new idx (i * BLOCK_SIZE) BLOCK_SIZE"
    if "i < ?q" for i
  proof -
    from that have "Suc i * BLOCK_SIZE \<le> ?q * BLOCK_SIZE" by (intro mult_le_mono1) simp
    also have "\<dots> \<le> plen" by simp
    finally show ?thesis by (simp add: layout_block_def)
  qed
  have part: "layout_block idx plen ?q = BlockMetadata_new idx (plen - ?r) ?r"
  proof -
    have "plen - ?q * BLOCK_SIZE = ?r" using plen by linarith
    moreover have "plen - ?r = ?q * BLOCK_SIZE" using plen by linarith
    moreover have "?r < BLOCK_SIZE" by simp
    ultimately show ?thesis by (simp add: layout_block_def)
  qed
  from full have "map (layout_block idx plen) [0..<?q]
      = map (\<lambda>i. BlockMetadata_new idx (i * BLOCK_SIZE) BLOCK_SIZE) [0..<?q]" by simp
  with part show ?thesis
    by (simp add: PieceBuffer_new_def Let_def fold_push piece_layout_def num_blocks_split)
qed

lemma layout_offset_inj:
  "m \<in> set (piece_layout idx plen) \<Longrightarrow> m' \<in> set (piece_layout idx plen) \<Longrightarrow>
   bm_block_offset m = bm_block_offset m' \<Longrightarrow> m = m'"
  by (auto simp: piece_layout_def)

lemma distinct_layout: "distinct (piece_layout idx plen)"
proof -
  have "inj (layout_block idx plen)"
  proof (rule injI)
    fix i j assume "layout_block idx plen i = layout_block idx plen j"
    from arg_cong [OF this, of bm_block_offset] show "i = j" by (simp add: BLOCK_SIZE_def)
  qed
  then show ?thesis by (simp add: piece_layout_def distinct_map inj_on_subset [OF _ subset_UNIV])
qed

lemma length_layout [simp]: "length (piece_layout idx plen) = num_blocks plen"
  by (simp add: piece_layout_def)

lemma sorted_layout_offsets: "sorted_wrt (<) (map bm_block_offset (piece_layout idx plen))"
  by (simp add: piece_layout_def sorted_wrt_map sorted_wrt_upt o_def
      sorted_wrt_mono_rel [OF _ sorted_wrt_upt])

text \<open>Cutting the content along the layout and joining the parts gives the content back.\<close>

lemma concat_layout_upto:
  "i \<le> num_blocks plen \<Longrightarrow>
   concat (map (\<lambda>m. take (bm_block_length m) (drop (bm_block_offset m) content))
     (map (layout_block idx plen) [0..<i])) = take (min (i * BLOCK_SIZE) plen) content"
proof (induction i)
  case (Suc i)
  then have off: "i * BLOCK_SIZE < plen" by (simp add: layout_offset_less)
  let ?B = BLOCK_SIZE
  have "concat (map (\<lambda>m. take (bm_block_length m) (drop (bm_block_offset m) content))
      (map (layout_block idx plen) [0..<Suc i]))
      = take (i * ?B) content @ take (min ?B (plen - i * ?B)) (drop (i * ?B) content)"
    using Suc off by simp
  also have "\<dots> = take (i * ?B + min ?B (plen - i * ?B)) content"
    by (simp add: take_add)
  also have "i * ?B + min ?B (plen - i * ?B) = min (Suc i * ?B) plen"
    using off by simp
  finally show ?case .
qed simp

lemma layout_covers: "plen \<le> num_blocks plen * BLOCK_SIZE"
proof -
  let ?q = "plen div BLOCK_SIZE" and ?r = "plen mod BLOCK_SIZE"
  have "plen = ?q * BLOCK_SIZE + ?r" and "?r < BLOCK_SIZE" by simp_all
  moreover have "num_blocks plen * BLOCK_SIZE = ?q * BLOCK_SIZE + (if ?r > 0 then BLOCK_SIZE else 0)"
    by (simp add: num_blocks_split)
  ultimately show ?thesis by (smt (verit) add_le_cancel_left le_eq_less_or_eq not_gr_zero)
qed

lemma concat_layout:
  "length content = plen \<Longrightarrow>
   concat (map (\<lambda>m. take (bm_block_length m) (drop (bm_block_offset m) content))
     (piece_layout idx plen)) = content"
  using concat_layout_upto [of "num_blocks plen" plen content idx] layout_covers [of plen]
  by (simp add: piece_layout_def min_absorb2)

lemma sum_layout: "sum_list (map bm_block_length (piece_layout idx plen)) = plen"
proof -
  let ?c = "replicate plen (0 :: u8)"
  let ?part = "\<lambda>m. take (bm_block_length m) (drop (bm_block_offset m) ?c)"
  have eq: "length (?part m) = bm_block_length m" if "m \<in> set (piece_layout idx plen)" for m
    using that by (auto simp: piece_layout_def)
  have "plen = length (concat (map ?part (piece_layout idx plen)))"
    by (subst concat_layout) simp_all
  also have "\<dots> = sum_list (map (\<lambda>m. length (?part m)) (piece_layout idx plen))"
    by (simp only: length_concat map_map comp_def)
  also have "\<dots> = sum_list (map bm_block_length (piece_layout idx plen))"
    using eq by (intro arg_cong [of _ _ sum_list] map_cong) simp_all
  finally show ?thesis by simp
qed

section \<open>Every operation keeps the invariant\<close>

lemma new_fields [simp]:
  "pb_pending_blocks (PieceBuffer_new idx plen tid peers) = []"
  "pb_blocks (PieceBuffer_new idx plen tid peers) = []"
  "pb_peers (PieceBuffer_new idx plen tid peers) = peers"
  "pb_piece_index (PieceBuffer_new idx plen tid peers) = idx"
  "pb_piece_length (PieceBuffer_new idx plen tid peers) = plen"
  "pb_torrent_id (PieceBuffer_new idx plen tid peers) = tid"
  by (simp_all add: PieceBuffer_new_def Let_def)

lemma new_total_blocks [simp]:
  "pb_total_blocks (PieceBuffer_new idx plen tid peers) = num_blocks plen"
proof -
  have "pb_total_blocks (PieceBuffer_new idx plen tid peers)
      = length (pb_missing_blocks (PieceBuffer_new idx plen tid peers))"
    by (simp add: PieceBuffer_new_def Let_def)
  then show ?thesis by (simp add: new_missing_blocks)
qed

lemma pb_inv_new [inv_intros]:
  "distinct peers \<Longrightarrow> pb_inv (PieceBuffer_new idx plen tid peers)"
  by (simp add: pb_inv_def pb_all_def new_missing_blocks)

lemma next_cases:
  obtains (no_peer) "pb_peers b = []" "PieceBuffer_next b = (None, b)"
  | (no_block) "pb_peers b \<noteq> []" "pb_missing_blocks b = []" "PieceBuffer_next b = (None, b)"
  | (request) ps p ms m where
      "pb_peers b = ps @ [p]" "pb_missing_blocks b = ms @ [m]"
      "PieceBuffer_next b =
         (Some \<lparr>nb_torrent_id = pb_torrent_id b, nb_block_metadata = m, nb_peer_id = p\<rparr>,
          b\<lparr>pb_peers := ps, pb_missing_blocks := ms,
            pb_pending_blocks := hm_insert p m (pb_pending_blocks b)\<rparr>)"
proof (cases "pb_peers b = [] \<or> pb_missing_blocks b = []")
  case True
  with no_peer no_block show ?thesis by (auto simp: PieceBuffer_next_def Let_def)
next
  case False
  then obtain ps p ms m where "pb_peers b = ps @ [p]" "pb_missing_blocks b = ms @ [m]"
    by (metis append_butlast_last_id)
  with request show ?thesis by (simp add: PieceBuffer_next_def Let_def)
qed

lemma pb_inv_next [inv_intros]: "pb_inv b \<Longrightarrow> pb_inv (snd (PieceBuffer_next b))"
proof (cases b rule: next_cases)
  case (request ps p ms m)
  assume inv: "pb_inv b"
  with request(1) have "hm_get (pb_pending_blocks b) p = None"
    by (auto simp: pb_inv_def hm_get_None)
  with inv request show ?thesis
    by (auto simp: pb_inv_def pb_all_def mset_hm_insert_new keys_hm_insert [simplified]
        hm_get_None hm_insert_def update_absent)
qed auto

lemma pb_inv_remove_peer [inv_intros]:
  assumes "pb_inv b"
  shows "pb_inv (snd (PieceBuffer_remove_peer p b))"
proof (cases "position (\<lambda>x. x = p) (pb_peers b)")
  case (Some i)
  with assms distinct_vec_remove set_vec_remove_subset [of i "pb_peers b"] show ?thesis
    by (auto simp: PieceBuffer_remove_peer_def pb_inv_def pb_all_def)
next
  case None
  show ?thesis
  proof (cases "hm_get (pb_pending_blocks b) p")
    case None
    with assms \<open>position _ _ = None\<close> show ?thesis by (simp add: PieceBuffer_remove_peer_def)
  next
    case (Some m)
    from assms have "distinct (keys (pb_pending_blocks b))" by (simp add: pb_inv_def)
    with Some have "mset (pb_pending_blocks b)
        = add_mset (p, m) (mset (hm_remove p (pb_pending_blocks b)))"
      by (intro mset_hm_remove) simp_all
    with assms Some None show ?thesis
      by (auto simp: PieceBuffer_remove_peer_def pb_inv_def pb_all_def keys_hm_remove [simplified])
  qed
qed

text \<open>A pending block is not among the received ones: its offset is new.\<close>

lemma two_in_layout:
  assumes "add_mset m (add_mset m' A) \<subseteq># mset (piece_layout idx plen)"
  shows "bm_block_offset m \<noteq> bm_block_offset m'"
proof
  let ?L = "piece_layout idx plen"
  assume off: "bm_block_offset m = bm_block_offset m'"
  from set_mset_mono [OF assms] have "m \<in> set ?L" "m' \<in> set ?L" by simp_all
  with off have "m = m'" by (intro layout_offset_inj)
  with mset_subset_eq_count [OF assms, of m] have "2 \<le> count (mset ?L) m" by simp
  moreover have "count (mset ?L) m \<le> 1"
    using distinct_layout [of idx plen] by (simp add: distinct_count_atmost_1)
  ultimately show False by simp
qed

lemma pending_offset_new:
  assumes "pb_safe b" and "hm_get (pb_pending_blocks b) p = Some m"
  shows "bm_block_offset m \<notin> set (keys (pb_blocks b))"
proof
  assume "bm_block_offset m \<in> set (keys (pb_blocks b))"
  then obtain bl where kb: "(bm_block_offset m, bl) \<in> set (pb_blocks b)" by auto
  with assms(1) have off: "bm_block_offset m = bm_block_offset (bl_metadata bl)"
    by (auto simp: pb_safe_def)
  from hm_get_in [OF assms(2)] have "m \<in># image_mset snd (mset (pb_pending_blocks b))" by force
  moreover from kb have "bl_metadata bl \<in># image_mset (bl_metadata \<circ> snd) (mset (pb_blocks b))"
    by force
  ultimately obtain A B where
    "image_mset snd (mset (pb_pending_blocks b)) = add_mset m A"
    "image_mset (bl_metadata \<circ> snd) (mset (pb_blocks b)) = add_mset (bl_metadata bl) B"
    by (meson multi_member_split)
  then have "pb_all b = add_mset m (add_mset (bl_metadata bl) (mset (pb_missing_blocks b) + A + B))"
    by (simp add: pb_all_def add_mset_commute)
  with assms(1) two_in_layout off show False unfolding pb_safe_def by metis
qed

text \<open>Every operation keeps the weak invariant.\<close>

lemma pb_inv_safe: "pb_inv b \<Longrightarrow> pb_safe b"
  by (simp add: pb_inv_def pb_safe_def)

lemma pb_safe_new [inv_intros]: "pb_safe (PieceBuffer_new idx plen tid peers)"
  by (simp add: pb_safe_def pb_all_def new_missing_blocks)

lemma pending_insert_sub:
  "image_mset snd (mset (hm_insert k v m)) \<subseteq># add_mset v (image_mset snd (mset m))"
  unfolding hm_insert_def by (induction m) (auto simp: add_mset_commute)

lemma pb_safe_next [inv_intros]:
  assumes "pb_safe b"
  shows "pb_safe (snd (PieceBuffer_next b))"
proof (cases b rule: next_cases)
  case (request ps p ms m)
  from pending_insert_sub [of p m "pb_pending_blocks b"] have "pb_all (snd (PieceBuffer_next b)) \<subseteq># pb_all b"
    by (simp add: request pb_all_def)
  with assms request show ?thesis by (auto simp: pb_safe_def intro: subset_mset.order_trans)
qed (use assms in simp_all)

lemma pb_safe_remove_peer [inv_intros]:
  assumes "pb_safe b"
  shows "pb_safe (snd (PieceBuffer_remove_peer p b))"
proof -
  have "mset (pb_pending_blocks b) = add_mset (p, m) (mset (hm_remove p (pb_pending_blocks b)))"
    if "hm_get (pb_pending_blocks b) p = Some m" for m
    using assms that by (intro mset_hm_remove) (simp_all add: pb_safe_def)
  with assms show ?thesis
    by (auto simp: PieceBuffer_remove_peer_def pb_safe_def pb_all_def split: option.splits)
qed

lemma pb_safe_add_block [inv_intros]:
  assumes "pb_safe b" and "is_correct_len blk"
  shows "pb_safe (snd (PieceBuffer_add_block p blk b))"
proof (cases "hm_get (pb_pending_blocks b) p")
  case None
  with assms show ?thesis by (simp add: PieceBuffer_add_block_def)
next
  case (Some m)
  from assms have "distinct (keys (pb_pending_blocks b))" by (simp add: pb_safe_def)
  with Some have pend: "mset (pb_pending_blocks b)
      = add_mset (p, m) (mset (hm_remove p (pb_pending_blocks b)))" by (intro mset_hm_remove) simp_all
  note new = mset_bt_insert_new [OF pending_offset_new [OF assms(1) Some]]
  from assms pend new show ?thesis
    using Some sorted_bt_insert [of "pb_blocks b" "bm_block_offset m" blk]
    by (auto simp: PieceBuffer_add_block_def Let_def pb_safe_def pb_all_def
        simp flip: set_mset_mset)
qed

lemma pb_safe_join [inv_intros]: "pb_safe b \<Longrightarrow> pb_safe (b\<lparr>pb_peers := ps\<rparr>)"
  by (simp add: pb_safe_def pb_all_def)

lemma distinct_keys_perm: "mset m = mset m' \<Longrightarrow> distinct (keys m) = distinct (keys m')"
  by (metis mset_eq_imp_distinct_iff mset_map)

lemma pb_safe_step: "pb_step orderly b b' \<Longrightarrow> pb_safe b \<Longrightarrow> pb_safe b'"
proof (induction rule: pb_step.induct)
  case (step_rehash pend b)
  from distinct_keys_perm [OF this(1)] step_rehash show ?case
    by (auto simp: pb_safe_def pb_all_def)
qed (auto intro: inv_intros)

lemma pb_run_safe: "pb_run orderly b \<Longrightarrow> pb_safe b"
  by (induction rule: pb_run.induct) (auto intro: pb_safe_new pb_safe_step)

text \<open>The orderly steps keep the strong invariant.\<close>

lemma pb_inv_add_block [inv_intros]:
  assumes "pb_inv b" and "is_correct_len blk"
  shows "pb_inv (snd (PieceBuffer_add_block p blk b))"
proof (cases "hm_get (pb_pending_blocks b) p")
  case None
  with assms show ?thesis by (simp add: PieceBuffer_add_block_def)
next
  case (Some m)
  let ?pend = "hm_remove p (pb_pending_blocks b)"
  from assms have d: "distinct (keys (pb_pending_blocks b))" by (simp add: pb_inv_def)
  with Some have pend: "mset (pb_pending_blocks b) = add_mset (p, m) (mset ?pend)"
    by (intro mset_hm_remove) simp_all
  from Some have "p \<in> set (keys (pb_pending_blocks b))"
    using hm_get_None [of "pb_pending_blocks b" p] by auto
  with assms d have peers: "distinct ((pb_peers b @ [p]) @ keys ?pend)"
    by (auto simp: pb_inv_def keys_hm_remove [simplified])
  note new = mset_bt_insert_new [OF pending_offset_new [OF pb_inv_safe [OF assms(1)] Some]]
  from assms pend peers new show ?thesis
    using Some sorted_bt_insert [of "pb_blocks b" "bm_block_offset m" blk]
    by (auto simp: PieceBuffer_add_block_def Let_def pb_inv_def pb_all_def
        simp flip: set_mset_mset)
qed

lemma pb_inv_step: "pb_step True b b' \<Longrightarrow> pb_inv b \<Longrightarrow> pb_inv b'"
proof (induction rule: pb_step.induct)
  case (step_join p b)
  then show ?case by (auto simp: pb_inv_def pb_all_def)
next
  case (step_rehash pend b)
  from distinct_keys_perm [OF this(1)] step_rehash show ?case
    by (auto simp: pb_inv_def pb_all_def dest: mset_eq_setD)
qed (auto intro: inv_intros)

lemma pb_run_inv: "pb_run True b \<Longrightarrow> pb_inv b"
  by (induction rule: pb_run.induct) (auto intro: pb_inv_new pb_inv_step)

section \<open>A full buffer\<close>

lemma full_blocks_layout:
  assumes "pb_safe b" and "is_full_piece b"
  shows "pb_missing_blocks b = [] \<and> pb_pending_blocks b = [] \<and>
    map (bl_metadata \<circ> snd) (pb_blocks b) = piece_layout (pb_piece_index b) (pb_piece_length b)"
proof -
  let ?L = "piece_layout (pb_piece_index b) (pb_piece_length b)"
  let ?ms = "map (bl_metadata \<circ> snd) (pb_blocks b)"
  have sub: "pb_all b \<subseteq># mset ?L" using assms(1) by (simp add: pb_safe_def)
  have len: "size (mset ?L) = length (pb_blocks b)"
    using assms by (simp add: pb_safe_def is_full_piece_def)
  have sz: "size (pb_all b) = length (pb_missing_blocks b) + length (pb_pending_blocks b)
      + length (pb_blocks b)" by (simp add: pb_all_def)
  with size_mset_mono [OF sub] len have empty: "pb_missing_blocks b = [] \<and> pb_pending_blocks b = []"
    by simp
  then have all: "pb_all b = mset ?ms" by (simp add: pb_all_def)
  with sub have perm: "mset ?ms = mset ?L"
    using len mset_subset_size [of "mset ?ms" "mset ?L"] by (auto simp: subset_mset.le_less)
  have offs: "map bm_block_offset ?ms = keys (pb_blocks b)"
    using assms(1) by (auto simp: pb_safe_def)
  have "map bm_block_offset ?ms = map bm_block_offset ?L"
  proof (rule sorted_distinct_set_unique)
    show "sorted (map bm_block_offset ?ms)" "distinct (map bm_block_offset ?ms)"
      using assms(1) unfolding offs by (simp_all add: pb_safe_def strict_sorted_iff)
    show "sorted (map bm_block_offset ?L)" "distinct (map bm_block_offset ?L)"
      using sorted_layout_offsets by (simp_all add: strict_sorted_iff)
    show "set (map bm_block_offset ?ms) = set (map bm_block_offset ?L)"
      using mset_eq_setD [OF perm] by (metis image_set)
  qed
  then have "?ms = ?L"
  proof (rule map_inj_on)
    show "inj_on bm_block_offset (set ?ms \<union> set ?L)"
      using layout_offset_inj mset_eq_setD [OF perm] by (auto intro!: inj_onI)
  qed
  with empty show ?thesis by simp
qed

lemma finalize_loop_ok:
  "\<forall>bl \<in> set bls. is_correct_len bl \<Longrightarrow>
   finalize_loop idx bls acc = Inr (acc @ concat (map bl_data bls))"
  by (induction bls arbitrary: acc) auto

lemma nth_concat_part:
  "i < length xss \<Longrightarrow>
   take (length (xss ! i)) (drop (sum_list (map length (take i xss))) (concat xss)) = xss ! i"
proof (induction xss arbitrary: i)
  case (Cons xs xss)
  then show ?case by (cases i) simp_all
qed simp

lemma try_finalize_full:
  assumes "pb_safe b"
  shows "try_finalize_piece b =
    Inr (Block_new (BlockMetadata_new (pb_piece_index b) 0 (pb_piece_length b))
      (concat (map (bl_data \<circ> snd) (pb_blocks b))))"
proof -
  have "\<forall>bl \<in> set (map snd (pb_blocks b)). is_correct_len bl"
    using assms by (auto simp: pb_safe_def)
  from finalize_loop_ok [OF this] show ?thesis by (simp add: try_finalize_piece_def)
qed

lemma full_data_lengths:
  assumes "pb_safe b" and "is_full_piece b"
  shows "map (length \<circ> (bl_data \<circ> snd)) (pb_blocks b)
    = map bm_block_length (piece_layout (pb_piece_index b) (pb_piece_length b))"
proof -
  have "map (length \<circ> (bl_data \<circ> snd)) (pb_blocks b)
      = map bm_block_length (map (bl_metadata \<circ> snd) (pb_blocks b))"
    using assms(1) by (auto simp: pb_safe_def is_correct_len_def)
  then show ?thesis using full_blocks_layout [OF assms] by simp
qed

lemma sum_layout_take:
  "i < num_blocks plen \<Longrightarrow>
   sum_list (map bm_block_length (take i (piece_layout idx plen))) = i * BLOCK_SIZE"
proof (induction i)
  case (Suc i)
  then have "Suc i * BLOCK_SIZE < plen" by (intro layout_offset_less)
  with Suc show ?case
    by (simp add: piece_layout_def take_Suc_conv_app_nth take_map)
qed simp

section \<open>Honest answers finish the piece\<close>

lemma missing_in_layout:
  assumes "pb_safe b" and "m \<in> set (pb_missing_blocks b)"
  shows "m \<in> set (piece_layout (pb_piece_index b) (pb_piece_length b))"
proof -
  have "m \<in># pb_all b" using assms(2) by (simp add: pb_all_def)
  then show ?thesis using assms(1) by (auto simp: pb_safe_def dest: mset_subset_eqD)
qed

lemma layout_block_in_content:
  "m \<in> set (piece_layout idx plen) \<Longrightarrow> length content = plen \<Longrightarrow>
   length (take (bm_block_length m) (drop (bm_block_offset m) content)) = bm_block_length m"
  by (auto simp: piece_layout_def)

lemma serve_round_step:
  assumes inv: "pb_inv b" and len: "length content = pb_piece_length b"
    and peers: "pb_peers b \<noteq> []" and miss: "pb_missing_blocks b \<noteq> []"
    and none: "pb_pending_blocks b = []" and cont: "all_from content b"
  defines "b' \<equiv> serve_round content b"
  shows "pb_inv b' \<and> all_from content b' \<and> pb_peers b' \<noteq> [] \<and> pb_pending_blocks b' = [] \<and>
    pb_missing_blocks b' = butlast (pb_missing_blocks b) \<and>
    pb_piece_length b' = pb_piece_length b \<and> pb_piece_index b' = pb_piece_index b \<and>
    pb_total_blocks b' = pb_total_blocks b \<and> length (pb_blocks b') = Suc (length (pb_blocks b))"
proof (cases b rule: next_cases)
  case (request ps p ms m)
  define b1 where "b1 = snd (PieceBuffer_next b)"
  let ?blk = "served_block content \<lparr>nb_torrent_id = pb_torrent_id b, nb_block_metadata = m, nb_peer_id = p\<rparr>"
  have b1: "pb_blocks b1 = pb_blocks b" "pb_peers b1 = ps" "pb_missing_blocks b1 = ms"
    "pb_pending_blocks b1 = [(p, m)]" "pb_piece_length b1 = pb_piece_length b"
    "pb_piece_index b1 = pb_piece_index b" "pb_total_blocks b1 = pb_total_blocks b"
    using request none by (simp_all add: b1_def hm_insert_def)
  have b': "b' = snd (PieceBuffer_add_block p ?blk b1)"
    using request by (simp add: b'_def serve_round_def b1_def)
  have meta: "bl_metadata ?blk = m" by (simp add: served_block_def Block_new_def)
  have m: "m \<in> set (piece_layout (pb_piece_index b) (pb_piece_length b))"
    using missing_in_layout [OF pb_inv_safe [OF inv], of m] request(2) by simp
  then have ok: "is_correct_len ?blk"
    using layout_block_in_content [OF m len] by (simp add: is_correct_len_def served_block_def Block_new_def)
  from inv have inv1: "pb_inv b1" unfolding b1_def by (rule pb_inv_next)
  have get: "hm_get (pb_pending_blocks b1) p = Some m" by (simp add: b1 hm_get_def)
  from pb_inv_add_block [OF inv1 ok] have "pb_inv b'" unfolding b' .
  moreover have fields: "pb_blocks b' = bt_insert (bm_block_offset m) ?blk (pb_blocks b)"
    "pb_peers b' = ps @ [p]" "pb_missing_blocks b' = ms" "pb_pending_blocks b' = []"
    "pb_piece_length b' = pb_piece_length b" "pb_piece_index b' = pb_piece_index b"
    "pb_total_blocks b' = pb_total_blocks b"
    by (simp_all add: b' PieceBuffer_add_block_def hm_get_def Let_def meta b1 hm_remove_def)
  moreover from mset_bt_insert_new [OF pending_offset_new [OF pb_inv_safe [OF inv1] get], of ?blk]
  have blocks: "mset (pb_blocks b') = add_mset (bm_block_offset m, ?blk) (mset (pb_blocks b))"
    by (simp add: fields b1)
  moreover have "length (pb_blocks b') = Suc (length (pb_blocks b))"
    using arg_cong [OF blocks, of size] by simp
  moreover have "all_from content b'"
    using cont arg_cong [OF blocks, of set_mset] by (auto simp: all_from_def served_block_def Block_new_def)
  ultimately show ?thesis using request by simp
qed (use peers miss in auto)

lemma serve_rounds:
  assumes "pb_inv b" and "length content = pb_piece_length b"
    and "pb_peers b \<noteq> []" and "pb_pending_blocks b = []" and "all_from content b"
    and "length (pb_missing_blocks b) = n"
  defines "b' \<equiv> (serve_round content ^^ n) b"
  shows "pb_inv b' \<and> all_from content b' \<and> pb_piece_length b' = pb_piece_length b \<and>
    pb_piece_index b' = pb_piece_index b \<and> pb_total_blocks b' = pb_total_blocks b \<and>
    length (pb_blocks b') = length (pb_blocks b) + n"
  using assms(1-6) unfolding b'_def
proof (induction n arbitrary: b)
  case (Suc n)
  then have "pb_missing_blocks b \<noteq> []" by auto
  note step = serve_round_step [OF Suc.prems(1,2,3) this Suc.prems(4,5)]
  then have "length (pb_missing_blocks (serve_round content b)) = n" using Suc.prems(6) by simp
  from Suc.IH [OF _ _ _ _ _ this] step Suc.prems(2) show ?case
    by (simp add: funpow_Suc_right del: funpow.simps)
qed simp

lemma full_from_content:
  assumes inv: "pb_safe b" and full: "is_full_piece b"
    and len: "length content = pb_piece_length b" and cont: "all_from content b"
  shows "concat (map (bl_data \<circ> snd) (pb_blocks b)) = content"
proof -
  let ?part = "\<lambda>m. take (bm_block_length m) (drop (bm_block_offset m) content)"
  have "map (bl_data \<circ> snd) (pb_blocks b) = map ?part (map (bl_metadata \<circ> snd) (pb_blocks b))"
    using cont by (auto simp: all_from_def)
  also have "\<dots> = map ?part (piece_layout (pb_piece_index b) (pb_piece_length b))"
    using full_blocks_layout [OF inv full] by simp
  finally show ?thesis using concat_layout [OF len] by simp
qed

lemma serve_rounds_complete:
  assumes "peers \<noteq> []" and "distinct peers" and "length content = plen"
  shows "is_full_piece
      ((serve_round content ^^ num_blocks plen) (PieceBuffer_new idx plen tid peers)) \<and>
    try_finalize_piece
      ((serve_round content ^^ num_blocks plen) (PieceBuffer_new idx plen tid peers))
      = Inr (Block_new (BlockMetadata_new idx 0 plen) content)"
proof -
  let ?init = "PieceBuffer_new idx plen tid peers"
  let ?final = "(serve_round content ^^ num_blocks plen) ?init"
  have "pb_inv ?init" using assms(2) by (rule pb_inv_new)
  moreover have "length (pb_missing_blocks ?init) = num_blocks plen"
    by (simp add: new_missing_blocks)
  ultimately have b: "pb_inv ?final \<and> all_from content ?final \<and> pb_piece_length ?final = plen \<and>
      pb_piece_index ?final = idx \<and> pb_total_blocks ?final = num_blocks plen \<and>
      length (pb_blocks ?final) = num_blocks plen"
    using serve_rounds [of ?init content "num_blocks plen"] assms(1,3)
    by (simp add: all_from_def)
  then have "is_full_piece ?final" by (simp add: is_full_piece_def)
  with b pb_inv_safe [of ?final] full_from_content [of ?final content] assms(3) try_finalize_full [of ?final] show ?thesis by simp
qed

section \<open>Properties\<close>

text \<open>
  C15. No block of a piece is ever held twice: in every state that any sequence of joins,
  requests, answers and removals reaches, the missing, the pending and the received blocks are
  together part of the blocks of the piece, a peer has at most one pending request, and received
  blocks are filed in ascending order under their own offset with the length their metadata says.
  In an orderly run, in which no peer joins that the buffer already has, no block is lost either:
  the three are together exactly the blocks of the piece, each once, and a peer is never both
  free and busy.
\<close>

theorem piece_buffer_partition:
  assumes "pb_run orderly b"
  shows "mset (pb_missing_blocks b @ map snd (pb_pending_blocks b)
             @ map (bl_metadata \<circ> snd) (pb_blocks b))
      \<subseteq># mset (piece_layout (pb_piece_index b) (pb_piece_length b)) \<and>
    distinct (keys (pb_pending_blocks b)) \<and>
    sorted_wrt (<) (keys (pb_blocks b)) \<and>
    (\<forall>(k, bl) \<in> set (pb_blocks b). k = bm_block_offset (bl_metadata bl) \<and> is_correct_len bl) \<and>
    (orderly \<longrightarrow>
      mset (pb_missing_blocks b @ map snd (pb_pending_blocks b)
             @ map (bl_metadata \<circ> snd) (pb_blocks b))
        = mset (piece_layout (pb_piece_index b) (pb_piece_length b)) \<and>
      distinct (pb_peers b @ keys (pb_pending_blocks b)))"
proof -
  have "pb_inv b" if orderly using assms that by (auto intro: pb_run_inv)
  with pb_run_safe [OF assms] show ?thesis
    by (simp add: pb_safe_def pb_inv_def pb_all_def add.assoc)
qed

theorem piece_buffer_partition_witness:
  "mset (pb_missing_blocks (snd (PieceBuffer_next (PieceBuffer_new 3 40000 (TorrentId 0) [7, 8])))
      @ map snd (pb_pending_blocks
          (snd (PieceBuffer_next (PieceBuffer_new 3 40000 (TorrentId 0) [7, 8]))))
      @ map (bl_metadata \<circ> snd) (pb_blocks
          (snd (PieceBuffer_next (PieceBuffer_new 3 40000 (TorrentId 0) [7, 8])))))
    = mset (piece_layout
        (pb_piece_index (snd (PieceBuffer_next (PieceBuffer_new 3 40000 (TorrentId 0) [7, 8]))))
        (pb_piece_length (snd (PieceBuffer_next (PieceBuffer_new 3 40000 (TorrentId 0) [7, 8])))))"
proof -
  have "pb_run True (snd (PieceBuffer_next (PieceBuffer_new 3 40000 (TorrentId 0) [7, 8])))"
    by (rule pb_more [OF pb_start step_next]) simp
  from piece_buffer_partition [OF this] show ?thesis by blast
qed

text \<open>
  C19. A full buffer yields the piece, in every state that can be reached: finalising it succeeds with a block that starts at
  offset 0 of the piece, has exactly the length of the piece, and contains every received
  block at that block's offset.
\<close>

theorem full_piece_finalizes:
  assumes "pb_reachable b" and "is_full_piece b"
  shows "\<exists>data. try_finalize_piece b =
      Inr (Block_new (BlockMetadata_new (pb_piece_index b) 0 (pb_piece_length b)) data) \<and>
    length data = pb_piece_length b \<and>
    (\<forall>(k, bl) \<in> set (pb_blocks b). take (length (bl_data bl)) (drop k data) = bl_data bl)"
proof -
  from assms(1) have inv: "pb_safe b" by (rule pb_run_safe)
  let ?L = "piece_layout (pb_piece_index b) (pb_piece_length b)"
  let ?ds = "map (bl_data \<circ> snd) (pb_blocks b)"
  note lens = full_data_lengths [OF inv assms(2)]
  have "length (concat ?ds) = pb_piece_length b"
    using lens sum_layout by (simp add: length_concat)
  moreover have "take (length (bl_data bl)) (drop k (concat ?ds)) = bl_data bl"
    if kb: "(k, bl) \<in> set (pb_blocks b)" for k bl
  proof -
    from kb obtain i where i: "i < length (pb_blocks b)" "pb_blocks b ! i = (k, bl)"
      by (metis in_set_conv_nth)
    with inv assms(2) have n: "i < num_blocks (pb_piece_length b)"
      by (simp add: pb_safe_def is_full_piece_def)
    have "bl_metadata bl = ?L ! i"
      using full_blocks_layout [OF inv assms(2)] i by (metis comp_apply nth_map snd_conv)
    then have "bm_block_offset (bl_metadata bl) = i * BLOCK_SIZE"
      using n by (simp add: piece_layout_def)
    with inv kb have "k = i * BLOCK_SIZE" by (auto simp: pb_safe_def)
    moreover have "sum_list (map length (take i ?ds)) = i * BLOCK_SIZE"
      using arg_cong [OF lens, of "\<lambda>xs. sum_list (take i xs)"] sum_layout_take [OF n]
      by (simp add: take_map)
    ultimately show ?thesis using nth_concat_part [of i ?ds] i by simp
  qed
  ultimately show ?thesis using try_finalize_full [OF inv] by blast
qed

theorem full_piece_finalizes_witness:
  "let b = snd (PieceBuffer_add_block 5 (Block_new (BlockMetadata_new 0 0 2) [1, 2])
             (snd (PieceBuffer_next (PieceBuffer_new 0 2 (TorrentId 0) [5]))))
   in \<exists>data. try_finalize_piece b =
        Inr (Block_new (BlockMetadata_new (pb_piece_index b) 0 (pb_piece_length b)) data)
        \<and> length data = pb_piece_length b"
proof -
  let ?blk = "Block_new (BlockMetadata_new 0 0 2) [1, 2]"
  let ?b = "snd (PieceBuffer_add_block 5 ?blk
    (snd (PieceBuffer_next (PieceBuffer_new 0 2 (TorrentId 0) [5]))))"
  have "is_correct_len ?blk"
    by (simp add: is_correct_len_def Block_new_def BlockMetadata_new_def)
  then have r: "pb_reachable ?b"
    by (intro pb_more [OF pb_more [OF pb_start step_next] step_add]) simp_all
  have "is_full_piece ?b"
    by (simp add: is_full_piece_def PieceBuffer_add_block_def PieceBuffer_next_def
        PieceBuffer_new_def Let_def BLOCK_SIZE_def hm_insert_def hm_get_def Block_new_def)
  from full_piece_finalizes [OF r this] show ?thesis by (auto simp: Let_def)
qed

text \<open>
  Honest answers finish a piece: starting from a fresh buffer with at least one peer, as
  many rounds of request and correct answer as the piece has blocks fill the buffer, and
  finalising it returns exactly the content of the piece.
\<close>

theorem honest_peers_complete_piece:
  assumes "peers \<noteq> []" and "distinct peers" and "length content = plen"
  shows "is_full_piece
      ((serve_round content ^^ num_blocks plen) (PieceBuffer_new idx plen tid peers)) \<and>
    try_finalize_piece
      ((serve_round content ^^ num_blocks plen) (PieceBuffer_new idx plen tid peers))
      = Inr (Block_new (BlockMetadata_new idx 0 plen) content)"
  using assms by (rule serve_rounds_complete)

theorem honest_peers_complete_piece_witness:
  "is_full_piece ((serve_round (replicate 20000 1) ^^ num_blocks 20000)
     (PieceBuffer_new 0 20000 (TorrentId 0) [5]))"
  using honest_peers_complete_piece [of "[5]" "replicate 20000 1" 20000 0 "TorrentId 0"] by simp

text \<open>
  C26. Blocks are only accepted as requested: a block is stored exactly when it is the one
  pending at the peer that sent it, and then under its own offset with every other entry
  kept; a refused block changes no received block. In each case the other peers' pending
  requests are kept, and an answer nobody asked for changes nothing at all.
\<close>

theorem add_block_only_requested:
  assumes "pb_reachable b" and "PieceBuffer_add_block p blk b = (res, b')"
  shows "(case res of
      Inr m \<Rightarrow> hm_get (pb_pending_blocks b) p = Some m \<and> bl_metadata blk = m \<and>
        (\<forall>k. hm_get (pb_blocks b') k =
           (if k = bm_block_offset m then Some blk else hm_get (pb_blocks b) k))
    | Inl e \<Rightarrow> hm_get (pb_pending_blocks b) p \<noteq> Some (bl_metadata blk) \<and>
        pb_blocks b' = pb_blocks b) \<and>
    (\<forall>q. hm_get (pb_pending_blocks b') q = (if q = p then None else hm_get (pb_pending_blocks b) q)) \<and>
    (hm_get (pb_pending_blocks b) p = None \<longrightarrow> b' = b)"
proof -
  from assms(1) have "pb_safe b" by (rule pb_run_safe)
  then have d: "distinct (keys (pb_pending_blocks b))" and s: "bt_wf (pb_blocks b)"
    by (simp_all add: pb_safe_def)
  show ?thesis
    using assms(2) hash_map.get_remove [OF d] btree_map.get_insert [OF s]
    by (auto simp: PieceBuffer_add_block_def Let_def split: option.splits if_splits)
qed

theorem add_block_only_requested_witness:
  "let b = snd (PieceBuffer_next (PieceBuffer_new 0 2 (TorrentId 0) [5]));
       m = BlockMetadata_new 0 0 2
   in hm_get (pb_blocks (snd (PieceBuffer_add_block 5 (Block_new m [1, 2]) b))) 0
        = Some (Block_new m [1, 2])"
proof -
  let ?b = "snd (PieceBuffer_next (PieceBuffer_new 0 2 (TorrentId 0) [5]))"
  let ?m = "BlockMetadata_new 0 0 2"
  have r: "pb_reachable ?b" by (rule pb_more [OF pb_start step_next]) simp
  have "fst (PieceBuffer_add_block 5 (Block_new ?m [1, 2]) ?b) = Inr ?m"
    by (simp add: PieceBuffer_add_block_def PieceBuffer_next_def PieceBuffer_new_def Let_def
        BLOCK_SIZE_def hm_insert_def hm_get_def Block_new_def)
  then have "PieceBuffer_add_block 5 (Block_new ?m [1, 2]) ?b
      = (Inr ?m, snd (PieceBuffer_add_block 5 (Block_new ?m [1, 2]) ?b))"
    by (simp add: prod_eq_iff)
  from add_block_only_requested [OF r this] show ?thesis
    by (simp add: BlockMetadata_new_def)
qed

end
