(* ===== verification/Peer.thy ===== *)
theory Peer
  imports Blocks
begin

text \<open>
  The state kept for a remote peer of a torrent (\<^verbatim>\<open>src/peer/mod.rs\<close>): choke and interest flags in
  both directions, the remote's bitfield and the heartbeats. \<^verbatim>\<open>Instant::now()\<close> is an argument.
\<close>

section \<open>Data\<close>

datatype ChokeType = Choked | UnChoked

datatype InterestType = NotInterested | Interested

record PeerStats =
  received_good_blocks :: usize
  received_bad_blocks :: usize
  send_blocks :: usize

definition PeerStats_default :: PeerStats where
  "PeerStats_default = \<lparr>received_good_blocks = 0, received_bad_blocks = 0, send_blocks = 0\<rparr>"

record BitTorrentPeer =
  bittorrent_id :: ShaHash
  bp_bitfield :: "BitField option"
  bp_stats :: PeerStats
  remote_choke :: ChokeType
  remote_interest :: InterestType
  client_choke :: ChokeType
  client_interest :: InterestType
  remote_heartbeat :: Instant
  client_heartbeat :: Instant

section \<open>Operations\<close>

definition BitTorrentPeer_new :: "Instant \<Rightarrow> ShaHash \<Rightarrow> BitTorrentPeer" where
  "BitTorrentPeer_new now peer_btt_id =
     \<lparr>bittorrent_id = peer_btt_id, bp_bitfield = None, bp_stats = PeerStats_default,
      remote_choke = Choked, remote_interest = NotInterested,
      client_choke = Choked, client_interest = NotInterested,
      remote_heartbeat = now, client_heartbeat = now\<rparr>"

definition new_with_bitfield :: "Instant \<Rightarrow> ShaHash \<Rightarrow> BitField \<Rightarrow> BitTorrentPeer" where
  "new_with_bitfield now peer_btt_id piece_field =
     \<lparr>bittorrent_id = peer_btt_id, bp_bitfield = Some piece_field, bp_stats = PeerStats_default,
      remote_choke = Choked, remote_interest = NotInterested,
      client_choke = Choked, client_interest = NotInterested,
      remote_heartbeat = now, client_heartbeat = now\<rparr>"

text \<open>
  \<^verbatim>\<open>timestamp.duration_since(earlier).as_secs()\<close>: panics when the timestamp lies before the
  earlier instant.
\<close>

definition secs_since :: "Instant \<Rightarrow> Instant \<Rightarrow> u64 panics" where
  "secs_since timestamp earlier =
     (if earlier \<le> timestamp then Some ((timestamp - earlier) div 1000000000) else None)"

definition is_remote_timeout :: "BitTorrentPeer \<Rightarrow> Instant \<Rightarrow> bool panics" where
  "is_remote_timeout p timestamp =
     do { s \<leftarrow> secs_since timestamp (remote_heartbeat p); Some (if s > 120 then True else False) }"

definition is_client_timeout :: "BitTorrentPeer \<Rightarrow> Instant \<Rightarrow> bool panics" where
  "is_client_timeout p timestamp =
     do { s \<leftarrow> secs_since timestamp (client_heartbeat p); Some (if s > 120 then True else False) }"

text \<open>The loop of \<^verbatim>\<open>is_having_missing_pieces_for\<close>: \<^verbatim>\<open>other.get(i).unwrap()\<close> at each set bit.\<close>

fun missing_piece_loop :: "nat \<Rightarrow> BitField \<Rightarrow> BitField \<Rightarrow> bool panics" where
  "missing_piece_loop i [] other = Some False"
| "missing_piece_loop i (b # bits) other =
     (if b then
        do { owned \<leftarrow> bv_get other i;
             if \<not> owned then Some True else missing_piece_loop (Suc i) bits other }
      else missing_piece_loop (Suc i) bits other)"

definition is_having_missing_pieces_for :: "BitTorrentPeer \<Rightarrow> BitField \<Rightarrow> bool panics" where
  "is_having_missing_pieces_for p other =
     (case bp_bitfield p of
        Some bitfield \<Rightarrow>
          if length bitfield \<noteq> length other then Some False
          else missing_piece_loop 0 bitfield other
      | None \<Rightarrow> Some False)"

definition has_bitfield :: "BitTorrentPeer \<Rightarrow> bool" where
  "has_bitfield p \<longleftrightarrow> bp_bitfield p \<noteq> None"

definition peer_has_piece :: "BitTorrentPeer \<Rightarrow> usize \<Rightarrow> bool option" where
  "peer_has_piece p piece_index =
     (case bp_bitfield p of Some field \<Rightarrow> bv_get field piece_index | None \<Rightarrow> None)"

definition is_remote_interested :: "BitTorrentPeer \<Rightarrow> bool" where
  "is_remote_interested p \<longleftrightarrow> remote_interest p = Interested"

definition is_remote_not_interested :: "BitTorrentPeer \<Rightarrow> bool" where
  "is_remote_not_interested p \<longleftrightarrow> remote_interest p = Interested"

definition is_client_choked_on_remote :: "BitTorrentPeer \<Rightarrow> bool" where
  "is_client_choked_on_remote p \<longleftrightarrow> remote_choke p = Choked"

definition is_client_unchoked_on_remote :: "BitTorrentPeer \<Rightarrow> bool" where
  "is_client_unchoked_on_remote p \<longleftrightarrow> remote_choke p = UnChoked"

definition is_client_interested :: "BitTorrentPeer \<Rightarrow> bool" where
  "is_client_interested p \<longleftrightarrow> client_interest p = Interested"

definition is_client_not_interested :: "BitTorrentPeer \<Rightarrow> bool" where
  "is_client_not_interested p \<longleftrightarrow> client_interest p = Interested"

definition is_remote_choked_on_client :: "BitTorrentPeer \<Rightarrow> bool" where
  "is_remote_choked_on_client p \<longleftrightarrow> client_choke p = Choked"

definition is_remote_unchoked_on_client :: "BitTorrentPeer \<Rightarrow> bool" where
  "is_remote_unchoked_on_client p \<longleftrightarrow> client_choke p = UnChoked"

definition remote_can_seed :: "BitTorrentPeer \<Rightarrow> bool" where
  "remote_can_seed p \<longleftrightarrow>
     is_client_unchoked_on_remote p \<and> is_client_interested p \<and> has_bitfield p"

definition remote_can_leech :: "BitTorrentPeer \<Rightarrow> bool" where
  "remote_can_leech p \<longleftrightarrow> is_remote_unchoked_on_client p \<and> is_remote_interested p"

definition remote_can_seed_piece :: "BitTorrentPeer \<Rightarrow> usize \<Rightarrow> bool" where
  "remote_can_seed_piece p piece_index \<longleftrightarrow>
     remote_can_seed p \<and> (case peer_has_piece p piece_index of Some b \<Rightarrow> b | None \<Rightarrow> False)"

definition add_piece :: "BitTorrentPeer \<Rightarrow> usize \<Rightarrow> bool option \<times> BitTorrentPeer" where
  "add_piece p piece_index =
     (case bp_bitfield p of
        Some have \<Rightarrow>
          if piece_index < length have
          then (Some True, p\<lparr>bp_bitfield := Some (have[piece_index := True])\<rparr>)
          else (Some False, p)
      | None \<Rightarrow> (None, p))"

definition set_bitfield :: "BitTorrentPeer \<Rightarrow> BitField \<Rightarrow> BitField option \<times> BitTorrentPeer" where
  "set_bitfield p bitfield = (bp_bitfield p, p\<lparr>bp_bitfield := Some bitfield\<rparr>)"

definition remove_piece :: "BitTorrentPeer \<Rightarrow> usize \<Rightarrow> (unit + unit) option \<times> BitTorrentPeer" where
  "remove_piece p piece_index =
     (case bp_bitfield p of
        Some have \<Rightarrow>
          if piece_index < length have
          then (Some (Inr ()), p\<lparr>bp_bitfield := Some (have[piece_index := False])\<rparr>)
          else (Some (Inl ()), p)
      | None \<Rightarrow> (None, p))"

section \<open>Lemmas\<close>

lemmas peer_flags = is_client_unchoked_on_remote_def is_client_interested_def has_bitfield_def
  is_remote_unchoked_on_client_def is_remote_interested_def

lemma missing_piece_loop_correct:
  "i + length bits = length other \<Longrightarrow>
   missing_piece_loop i bits other = Some (\<exists>j < length bits. bits ! j \<and> \<not> other ! (i + j))"
proof (induction bits arbitrary: i)
  case (Cons b bits)
  from Cons.prems have IH: "missing_piece_loop (Suc i) bits other
      = Some (\<exists>j < length bits. bits ! j \<and> \<not> other ! (Suc i + j))"
    by (intro Cons.IH) simp
  have "(\<exists>j < length (b # bits). (b # bits) ! j \<and> \<not> other ! (i + j))
      \<longleftrightarrow> b \<and> \<not> other ! i \<or> (\<exists>j < length bits. bits ! j \<and> \<not> other ! (Suc i + j))"
    by (auto simp: less_Suc_eq_0_disj)
  with Cons.prems IH show ?case by (simp add: bv_get_def)
qed simp

lemma remote_can_seed_piece_iff:
  "remote_can_seed_piece p i \<longleftrightarrow>
     remote_choke p = UnChoked \<and> client_interest p = Interested \<and>
     (\<exists>bf. bp_bitfield p = Some bf \<and> i < length bf \<and> bf ! i)"
  by (auto simp: remote_can_seed_piece_def remote_can_seed_def peer_flags peer_has_piece_def
      bv_get_def split: option.splits)

lemma new_peer_cannot_seed: "\<not> remote_can_seed_piece (BitTorrentPeer_new now h) i"
  by (simp add: remote_can_seed_piece_iff BitTorrentPeer_new_def)

section \<open>Properties\<close>

text \<open>
  A peer is interesting exactly when its bitfield has the length of ours and has a piece
  that ours lacks; the computation never panics.
\<close>

theorem missing_pieces_correct:
  "is_having_missing_pieces_for p other =
     Some (case bp_bitfield p of
             None \<Rightarrow> False
           | Some bf \<Rightarrow> length bf = length other \<and> (\<exists>i < length bf. bf ! i \<and> \<not> other ! i))"
  using missing_piece_loop_correct [of 0 _ other]
  by (auto simp: is_having_missing_pieces_for_def split: option.splits)

text \<open>
  A piece announced by a \<^verbatim>\<open>Have\<close> message: the answer says whether the peer sent a bitfield
  and the index is in range; on success exactly that bit becomes set, otherwise nothing
  changes. Afterwards the remote can seed the piece whenever it unchokes an interested client.
\<close>

theorem add_piece_correct:
  "case add_piece p i of (ans, p') \<Rightarrow>
     ans = map_option (\<lambda>bf. i < length bf) (bp_bitfield p) \<and>
     (ans \<noteq> Some True \<longrightarrow> p' = p) \<and>
     (ans = Some True \<longrightarrow>
        (\<forall>j. peer_has_piece p' j = (if j = i then Some True else peer_has_piece p j)) \<and>
        (remote_can_seed_piece p' i \<longleftrightarrow> remote_choke p = UnChoked \<and> client_interest p = Interested))"
  by (auto simp: add_piece_def peer_has_piece_def bv_get_def remote_can_seed_piece_iff
      split: option.splits)

theorem add_piece_correct_witness:
  "let p = new_with_bitfield 0 [] [False, False] in
   peer_has_piece (snd (add_piece p 1)) 1 = Some True \<and> fst (add_piece p 1) = Some True"
proof -
  have "fst (add_piece (new_with_bitfield 0 [] [False, False]) 1) = Some True"
    by (simp add: add_piece_def new_with_bitfield_def)
  with add_piece_correct [where p = "new_with_bitfield 0 [] [False, False]" and i = 1] show ?thesis
    by (auto simp: Let_def split_beta)
qed

end
