(* ===== verification/PieceHandlers.thy ===== *)
theory PieceHandlers
  imports PieceBuffers Peer
begin

text \<open>
  The state machine that drives one torrent (\<^verbatim>\<open>TorrentPieceHandler\<close> in \<^verbatim>\<open>src/peer/piece.rs\<close>): the
  client's bitfield, the tracked peers, the buffer of the current piece and the pending
  requests of leeching peers.

  The shuffle of the rand crate is an argument; the theorems assume only that it permutes its
  input. \<open>ph_step\<close> describes everything that can happen to a handler and \<open>ph_run\<close> the states it
  reaches: \<open>ph_run False\<close> in every run of the program, \<open>ph_run True\<close> in the orderly runs only, in
  which peers keep to the protocol (a peer shakes hands once and unchokes only after it
  choked). \<open>ph_safe\<close> is the invariant of every run, \<open>ph_inv\<close> the one of the orderly runs.
\<close>

section \<open>Data\<close>

type_synonym BitTorrentRequestId = nat

datatype TorrentPieceHandlerState =
    WaitingPeers
  | LeechBlock "NextBlock option"
  | PieceFinished "TorrentError + Block"
  | Finished
  | Endgame
  | Seed

record TorrentPieceHandler =
  ph_id :: TorrentId
  ph_selection_strategy :: PieceSelection
  ph_piece_buffer :: "PieceBuffer option"
  ph_pending_seed_blocks :: "(PeerId \<times> BitTorrentRequestId \<times> BlockMetadata) list"
  ph_bitfield :: BitField
  ph_piece_length :: u64
  ph_last_piece_length :: u64
  ph_peers :: "(PeerId, BitTorrentPeer) hash_map"
  ph_endgame :: bool
  ph_finished :: bool

section \<open>Operations\<close>

definition TorrentPieceHandler_new ::
  "TorrentId \<Rightarrow> PieceSelection \<Rightarrow> BitField \<Rightarrow> u64 \<Rightarrow> u64 \<Rightarrow> TorrentPieceHandler" where
  "TorrentPieceHandler_new tid selection_strategy bitfield piece_length last_length =
     \<lparr>ph_id = tid, ph_selection_strategy = selection_strategy, ph_piece_buffer = None,
      ph_pending_seed_blocks = [], ph_bitfield = bitfield, ph_piece_length = piece_length,
      ph_last_piece_length = last_length, ph_peers = [], ph_endgame = False,
      ph_finished = bv_all bitfield\<rparr>"

definition insert_peer ::
  "PeerId \<Rightarrow> BitTorrentPeer \<Rightarrow> TorrentPieceHandler \<Rightarrow> BitTorrentPeer option \<times> TorrentPieceHandler" where
  "insert_peer pid peer h =
     (let h1 = (case ph_piece_buffer h of
                  Some buffer \<Rightarrow>
                    if remote_can_seed_piece peer (pb_piece_index buffer)
                    then if \<not> hm_contains_key (ph_peers h) pid
                         then h\<lparr>ph_piece_buffer := Some (buffer\<lparr>pb_peers := pb_peers buffer @ [pid]\<rparr>)\<rparr>
                         else h
                    else h
                | None \<Rightarrow> h)
      in (hm_get (ph_peers h1) pid, h1\<lparr>ph_peers := hm_insert pid peer (ph_peers h1)\<rparr>))"

definition set_client_choke_for_peer ::
  "PeerId \<Rightarrow> ChokeType \<Rightarrow> TorrentPieceHandler \<Rightarrow> ChokeType option \<times> TorrentPieceHandler" where
  "set_client_choke_for_peer peer_id choke h =
     (case hm_get (ph_peers h) peer_id of
        Some peer \<Rightarrow>
          (Some (client_choke peer),
           h\<lparr>ph_peers := hm_insert peer_id (peer\<lparr>client_choke := choke\<rparr>) (ph_peers h)\<rparr>)
      | None \<Rightarrow> (None, h))"

definition set_client_interest ::
  "PeerId \<Rightarrow> InterestType \<Rightarrow> TorrentPieceHandler \<Rightarrow> InterestType option \<times> TorrentPieceHandler" where
  "set_client_interest peer_id interest h =
     (case hm_get (ph_peers h) peer_id of
        Some peer \<Rightarrow>
          (Some (client_interest peer),
           h\<lparr>ph_peers := hm_insert peer_id (peer\<lparr>client_interest := interest\<rparr>) (ph_peers h)\<rparr>)
      | None \<Rightarrow> (None, h))"

definition set_choke_on_remote ::
  "PeerId \<Rightarrow> ChokeType \<Rightarrow> TorrentPieceHandler \<Rightarrow> ChokeType option \<times> TorrentPieceHandler" where
  "set_choke_on_remote peer_id choke h =
     (case hm_get (ph_peers h) peer_id of
        Some peer \<Rightarrow>
          let old = Some (remote_choke peer);
              peer' = peer\<lparr>remote_choke := choke\<rparr>;
              h1 = h\<lparr>ph_peers := hm_insert peer_id peer' (ph_peers h)\<rparr>
          in (old,
              case ph_piece_buffer h1 of
                Some buffer \<Rightarrow>
                  (case choke of
                     Choked \<Rightarrow>
                       h1\<lparr>ph_piece_buffer := Some (snd (PieceBuffer_remove_peer peer_id buffer))\<rparr>
                   | UnChoked \<Rightarrow>
                       if remote_can_seed_piece peer' (pb_piece_index buffer)
                       then h1\<lparr>ph_piece_buffer :=
                              Some (buffer\<lparr>pb_peers := pb_peers buffer @ [peer_id]\<rparr>)\<rparr>
                       else h1)
              | None \<Rightarrow> h1)
      | None \<Rightarrow> (None, h))"

definition set_interest_on_remote ::
  "PeerId \<Rightarrow> InterestType \<Rightarrow> TorrentPieceHandler \<Rightarrow> InterestType option \<times> TorrentPieceHandler" where
  "set_interest_on_remote peer_id interest h =
     (case hm_get (ph_peers h) peer_id of
        Some peer \<Rightarrow>
          (Some (remote_interest peer),
           h\<lparr>ph_peers := hm_insert peer_id (peer\<lparr>remote_interest := interest\<rparr>) (ph_peers h)\<rparr>)
      | None \<Rightarrow> (None, h))"

definition ph_has_piece :: "TorrentPieceHandler \<Rightarrow> usize \<Rightarrow> bool" where
  "ph_has_piece h piece_index =
     (case bv_get (ph_bitfield h) piece_index of Some b \<Rightarrow> b | None \<Rightarrow> False)"

definition ph_remove_peer ::
  "PeerId \<Rightarrow> TorrentPieceHandler \<Rightarrow> BitTorrentPeer option \<times> TorrentPieceHandler" where
  "ph_remove_peer pid h =
     (let peer = hm_get (ph_peers h) pid;
          h1 = h\<lparr>ph_peers := hm_remove pid (ph_peers h)\<rparr>
      in (peer,
          if peer \<noteq> None then
            (case ph_piece_buffer h1 of
               Some buffer \<Rightarrow> h1\<lparr>ph_piece_buffer := Some (snd (PieceBuffer_remove_peer pid buffer))\<rparr>
             | None \<Rightarrow> h1)
          else h1))"

definition is_ready_to_seed_block :: "TorrentPieceHandler \<Rightarrow> PeerId \<Rightarrow> bool" where
  "is_ready_to_seed_block h peer \<longleftrightarrow>
     \<not> list_ex (\<lambda>(p, _, _). p = peer) (ph_pending_seed_blocks h)"

definition insert_block_seed ::
  "PeerId \<Rightarrow> BlockMetadata \<Rightarrow> BitTorrentRequestId \<Rightarrow> TorrentPieceHandler \<Rightarrow> TorrentPieceHandler" where
  "insert_block_seed peer_id block request_id h =
     h\<lparr>ph_pending_seed_blocks := ph_pending_seed_blocks h @ [(peer_id, request_id, block)]\<rparr>"

definition clear_buffer :: "TorrentPieceHandler \<Rightarrow> PieceBuffer option \<times> TorrentPieceHandler" where
  "clear_buffer h = (ph_piece_buffer h, h\<lparr>ph_piece_buffer := None\<rparr>)"

definition remove_pending_seed_by_request ::
  "BitTorrentRequestId \<Rightarrow> TorrentPieceHandler
    \<Rightarrow> (PeerId \<times> BlockMetadata) option \<times> TorrentPieceHandler" where
  "remove_pending_seed_by_request req_id h =
     (case position (\<lambda>(_, rid, _). req_id = rid) (ph_pending_seed_blocks h) of
        Some pos \<Rightarrow>
          (case ph_pending_seed_blocks h ! pos of (peer, _, block) \<Rightarrow>
             (Some (peer, block),
              h\<lparr>ph_pending_seed_blocks := vec_remove pos (ph_pending_seed_blocks h)\<rparr>))
      | None \<Rightarrow> (None, h))"

definition clear_pending_seed_block ::
  "BlockMetadata \<Rightarrow> TorrentPieceHandler
    \<Rightarrow> (PeerId \<times> BitTorrentRequestId) option \<times> TorrentPieceHandler" where
  "clear_pending_seed_block block h =
     (case position (\<lambda>(_, _, m). m = block) (ph_pending_seed_blocks h) of
        Some pos \<Rightarrow>
          (case ph_pending_seed_blocks h ! pos of (peer, rid, _) \<Rightarrow>
             (Some (peer, rid),
              h\<lparr>ph_pending_seed_blocks := vec_remove pos (ph_pending_seed_blocks h)\<rparr>))
      | None \<Rightarrow> (None, h))"

text \<open>\<^verbatim>\<open>set_peer_piece\<close>: a peer without a bitfield gets one with only the announced piece.\<close>

definition set_peer_piece ::
  "PeerId \<Rightarrow> usize \<Rightarrow> TorrentPieceHandler \<Rightarrow> bool option \<times> TorrentPieceHandler" where
  "set_peer_piece peer_id piece_index h =
     (case hm_get (ph_peers h) peer_id of
        Some peer \<Rightarrow>
          if has_bitfield peer then
            (case add_piece peer piece_index of (ans, peer') \<Rightarrow>
               (ans, h\<lparr>ph_peers := hm_insert peer_id peer' (ph_peers h)\<rparr>))
          else if piece_index < length (ph_bitfield h) then
            let field = (bv_clear (ph_bitfield h))[piece_index := True] in
            (Some True,
             h\<lparr>ph_peers := hm_insert peer_id (snd (set_bitfield peer field)) (ph_peers h)\<rparr>)
          else (Some False, h)
      | None \<Rightarrow> (None, h))"

definition set_piece :: "usize \<Rightarrow> TorrentPieceHandler \<Rightarrow> (unit + unit) \<times> TorrentPieceHandler" where
  "set_piece piece_index h =
     (if piece_index < length (ph_bitfield h)
      then (Inr (), h\<lparr>ph_bitfield := (ph_bitfield h)[piece_index := True]\<rparr>)
      else (Inl (), h))"

definition clear_piece :: "usize \<Rightarrow> TorrentPieceHandler \<Rightarrow> (unit + unit) \<times> TorrentPieceHandler" where
  "clear_piece piece_index h =
     (if piece_index < length (ph_bitfield h)
      then (Inr (), h\<lparr>ph_bitfield := (ph_bitfield h)[piece_index := False]\<rparr>)
      else (Inl (), h))"

definition ph_add_block ::
  "PeerId \<Rightarrow> Block \<Rightarrow> TorrentPieceHandler \<Rightarrow> (BlockErr + BlockMetadata) \<times> TorrentPieceHandler" where
  "ph_add_block peer block h =
     (case ph_piece_buffer h of
        Some buffer \<Rightarrow>
          (case PieceBuffer_add_block peer block buffer of (res, buffer') \<Rightarrow>
             (res, h\<lparr>ph_piece_buffer := Some buffer'\<rparr>))
      | None \<Rightarrow> (Inl (NotRequested peer block), h))"

definition missing_piece_indices :: "TorrentPieceHandler \<Rightarrow> usize list" where
  "missing_piece_indices h =
     (let current_piece = map_option pb_piece_index (ph_piece_buffer h) in
      map fst (filter (\<lambda>(index, bit1). \<not> bit1 \<and> Some index \<noteq> current_piece)
                 (enumerate 0 (ph_bitfield h))))"

text \<open>
  \<^verbatim>\<open>bitfield.len() - 1\<close> is only evaluated for an index of the bitfield, which is then not empty.
\<close>

definition piece_length_of :: "TorrentPieceHandler \<Rightarrow> usize \<Rightarrow> u64" where
  "piece_length_of h piece_index =
     (if Suc piece_index = length (ph_bitfield h) then ph_last_piece_length h
      else ph_piece_length h)"

text \<open>
  The peers collected for a piece: \<^verbatim>\<open>collect::<Option<Vec<_>>>\<close> is \<^const>\<open>None\<close> as soon as one peer
  cannot seed the piece.
\<close>

definition seeding_peers :: "TorrentPieceHandler \<Rightarrow> usize \<Rightarrow> PeerId list option" where
  "seeding_peers h piece_index =
     those (map (\<lambda>(pid, peer). if remote_can_seed_piece peer piece_index then Some pid else None)
              (ph_peers h))"

definition new_buffer_for :: "TorrentPieceHandler \<Rightarrow> usize \<Rightarrow> PeerId list \<Rightarrow> PieceBuffer" where
  "new_buffer_for h piece_index peers =
     PieceBuffer_new piece_index (piece_length_of h piece_index) (ph_id h) peers"

fun random_piece_loop :: "TorrentPieceHandler \<Rightarrow> usize list \<Rightarrow> PieceBuffer option" where
  "random_piece_loop h [] = None"
| "random_piece_loop h (piece_index # missing) =
     (case seeding_peers h piece_index of
        Some peers \<Rightarrow> Some (new_buffer_for h piece_index peers)
      | None \<Rightarrow> random_piece_loop h missing)"

definition next_random_piece ::
  "(usize list \<Rightarrow> usize list) \<Rightarrow> TorrentPieceHandler \<Rightarrow> PieceBuffer option" where
  "next_random_piece shuffle h = random_piece_loop h (shuffle (missing_piece_indices h))"

fun least_common_loop ::
  "TorrentPieceHandler \<Rightarrow> usize list \<Rightarrow> PeerId list option \<Rightarrow> usize \<Rightarrow> PieceBuffer option" where
  "least_common_loop h [] rarest_peers rarest_piece =
     map_option (new_buffer_for h rarest_piece) rarest_peers"
| "least_common_loop h (piece_index # missing) rarest_peers rarest_piece =
     (case seeding_peers h piece_index of
        Some peers \<Rightarrow>
          if length peers = 1 then Some (new_buffer_for h piece_index peers)
          else
            (case rarest_peers of
               Some rare_peer \<Rightarrow>
                 if length peers < length rare_peer
                 then least_common_loop h missing (Some peers) piece_index
                 else least_common_loop h missing rarest_peers rarest_piece
             | None \<Rightarrow> least_common_loop h missing (Some peers) piece_index)
      | None \<Rightarrow> least_common_loop h missing rarest_peers rarest_piece)"

definition next_least_common_piece ::
  "(usize list \<Rightarrow> usize list) \<Rightarrow> TorrentPieceHandler \<Rightarrow> PieceBuffer option" where
  "next_least_common_piece shuffle h =
     (let missing = missing_piece_indices h in
      if \<not> list_ex remote_can_seed (map snd (ph_peers h)) then None
      else least_common_loop h (shuffle missing) None 0)"

definition next_piece_buffer ::
  "(usize list \<Rightarrow> usize list) \<Rightarrow> TorrentPieceHandler \<Rightarrow> PieceBuffer option" where
  "next_piece_buffer shuffle h =
     (case ph_selection_strategy h of
        Random \<Rightarrow> next_random_piece shuffle h
      | Rarest \<Rightarrow> next_least_common_piece shuffle h)"

definition ph_poll ::
  "(usize list \<Rightarrow> usize list) \<Rightarrow> TorrentPieceHandler
    \<Rightarrow> TorrentPieceHandlerState \<times> TorrentPieceHandler" where
  "ph_poll shuffle h =
     (case ph_piece_buffer h of
        Some buffer \<Rightarrow>
          let h1 = h\<lparr>ph_piece_buffer := None\<rparr> in
          if is_full_piece buffer then
            (case try_finalize_piece buffer of
               Inr block \<Rightarrow>
                 (PieceFinished (Inr block), snd (set_piece (bm_piece_index (bl_metadata block)) h1))
             | Inl e \<Rightarrow> (PieceFinished (Inl e), h1))
          else
            (case PieceBuffer_next buffer of (next_block, buffer') \<Rightarrow>
               (LeechBlock next_block, h1\<lparr>ph_piece_buffer := Some buffer'\<rparr>))
      | None \<Rightarrow>
          if ph_finished h then (Seed, h)
          else if bv_all (ph_bitfield h) then (Finished, h\<lparr>ph_finished := True\<rparr>)
          else
            (case next_piece_buffer shuffle h of
               Some buffer \<Rightarrow>
                 (case PieceBuffer_next buffer of (next_block, buffer') \<Rightarrow>
                    (LeechBlock next_block, h\<lparr>ph_piece_buffer := Some buffer'\<rparr>))
             | None \<Rightarrow> (WaitingPeers, h)))"

section \<open>The invariant and the steps\<close>

text \<open>The peers a buffer knows: free ones and those with a pending request.\<close>

definition busy :: "PieceBuffer \<Rightarrow> PeerId set" where
  "busy b = set (pb_peers b @ keys (pb_pending_blocks b))"

definition buffer_inv :: "TorrentPieceHandler \<Rightarrow> PieceBuffer \<Rightarrow> bool" where
  "buffer_inv h b \<longleftrightarrow>
     pb_inv b \<and> pb_torrent_id b = ph_id h \<and>
     pb_piece_index b < length (ph_bitfield h) \<and> \<not> ph_bitfield h ! pb_piece_index b \<and>
     pb_piece_length b = piece_length_of h (pb_piece_index b) \<and>
     (\<forall>p \<in> busy b. \<exists>peer. hm_get (ph_peers h) p = Some peer \<and> remote_choke peer = UnChoked)"

definition buffer_safe :: "TorrentPieceHandler \<Rightarrow> PieceBuffer \<Rightarrow> bool" where
  "buffer_safe h b \<longleftrightarrow>
     pb_safe b \<and> pb_torrent_id b = ph_id h \<and>
     pb_piece_index b < length (ph_bitfield h) \<and> \<not> ph_bitfield h ! pb_piece_index b \<and>
     pb_piece_length b = piece_length_of h (pb_piece_index b)"

definition ph_safe :: "TorrentPieceHandler \<Rightarrow> bool" where
  "ph_safe h \<longleftrightarrow>
     distinct (keys (ph_peers h)) \<and> (ph_finished h \<longrightarrow> bv_all (ph_bitfield h)) \<and>
     (\<forall>b. ph_piece_buffer h = Some b \<longrightarrow> buffer_safe h b)"

definition ph_inv :: "TorrentPieceHandler \<Rightarrow> bool" where
  "ph_inv h \<longleftrightarrow>
     distinct (keys (ph_peers h)) \<and> (ph_finished h \<longrightarrow> bv_all (ph_bitfield h)) \<and>
     (\<forall>b. ph_piece_buffer h = Some b \<longrightarrow> buffer_inv h b)"

abbreviation permutes :: "('a list \<Rightarrow> 'a list) \<Rightarrow> bool" where
  "permutes shuffle \<equiv> \<forall>xs. mset (shuffle xs) = mset xs"

text \<open>
  \<open>s_peer\<close> stands for the writes through \<^verbatim>\<open>get_peer_mut\<close> of the torrent (heartbeats, bitfields,
  pieces): they leave the remote's choke flag alone. \<open>s_set_piece\<close> is the call of the behaviour when
  the disk has written a piece; the poll that handed the piece over has entered it in the
  bitfield, so it is never the one that is being downloaded. A step is orderly when a peer that
  is inserted is not tracked yet and a peer that unchokes had the client choked: the code checks
  neither.
\<close>

inductive ph_step :: "bool \<Rightarrow> TorrentPieceHandler \<Rightarrow> TorrentPieceHandler \<Rightarrow> bool" for orderly where
  s_poll: "permutes shuffle \<Longrightarrow> ph_step orderly h (snd (ph_poll shuffle h))"
| s_insert: "orderly \<longrightarrow> \<not> hm_contains_key (ph_peers h) p \<Longrightarrow>
    ph_step orderly h (snd (insert_peer p peer h))"
| s_choke: "ph_step orderly h (snd (set_choke_on_remote p Choked h))"
| s_unchoke: "orderly \<longrightarrow> (\<forall>peer. hm_get (ph_peers h) p = Some peer \<longrightarrow> remote_choke peer = Choked) \<Longrightarrow>
    ph_step orderly h (snd (set_choke_on_remote p UnChoked h))"
| s_client_choke: "ph_step orderly h (snd (set_client_choke_for_peer p c h))"
| s_client_interest: "ph_step orderly h (snd (set_client_interest p i h))"
| s_interest: "ph_step orderly h (snd (set_interest_on_remote p i h))"
| s_peer: "hm_get (ph_peers h) p = Some peer \<Longrightarrow> remote_choke peer' = remote_choke peer \<Longrightarrow>
    ph_step orderly h (h\<lparr>ph_peers := hm_insert p peer' (ph_peers h)\<rparr>)"
| s_peer_piece: "ph_step orderly h (snd (set_peer_piece p n h))"
| s_remove: "ph_step orderly h (snd (ph_remove_peer p h))"
| s_add_block: "is_correct_len blk \<Longrightarrow> ph_step orderly h (snd (ph_add_block p blk h))"
| s_seed: "ph_step orderly h (insert_block_seed p m rid h)"
| s_cancel: "ph_step orderly h (snd (remove_pending_seed_by_request rid h))"
| s_block_read: "ph_step orderly h (snd (clear_pending_seed_block m h))"
| s_set_piece: "map_option pb_piece_index (ph_piece_buffer h) \<noteq> Some n \<Longrightarrow>
    ph_step orderly h (snd (set_piece n h))"
| s_clear_buffer: "ph_step orderly h (snd (clear_buffer h))"
| s_rehash: "mset ps = mset (ph_peers h) \<Longrightarrow> ph_step orderly h (h\<lparr>ph_peers := ps\<rparr>)"

inductive ph_run :: "bool \<Rightarrow> TorrentPieceHandler \<Rightarrow> bool" for orderly where
  ph_start: "ph_run orderly (TorrentPieceHandler_new tid sel bf plen last_len)"
| ph_more: "ph_run orderly h \<Longrightarrow> ph_step orderly h h' \<Longrightarrow> ph_run orderly h'"

abbreviation ph_reachable :: "TorrentPieceHandler \<Rightarrow> bool" where
  "ph_reachable \<equiv> ph_run False"

text \<open>A piece is eligible when every tracked peer can seed it.\<close>

definition eligible :: "TorrentPieceHandler \<Rightarrow> usize \<Rightarrow> bool" where
  "eligible h i \<longleftrightarrow> (\<forall>(p, peer) \<in> set (ph_peers h). remote_can_seed_piece peer i)"

text \<open>Under the rarest strategy nothing is selected unless some peer can seed.\<close>

definition strategy_ready :: "TorrentPieceHandler \<Rightarrow> bool" where
  "strategy_ready h \<longleftrightarrow>
     ph_selection_strategy h = Rarest \<longrightarrow> (\<exists>(p, peer) \<in> set (ph_peers h). remote_can_seed peer)"

section \<open>Lemmas on the choice of a piece\<close>

lemma missing_piece_indices_set:
  "set (missing_piece_indices h) =
     {i. i < length (ph_bitfield h) \<and> \<not> ph_bitfield h ! i \<and>
         Some i \<noteq> map_option pb_piece_index (ph_piece_buffer h)}"
proof -
  have "(i, b) \<in> set (enumerate 0 bf) \<longleftrightarrow> i < length bf \<and> b = bf ! i" for i b and bf :: BitField
    by (auto simp: in_set_enumerate_eq)
  then show ?thesis by (force simp: missing_piece_indices_def Let_def image_iff)
qed

lemma those_Some: "those xs = Some ys \<longleftrightarrow> xs = map Some ys"
proof (induction xs arbitrary: ys)
  case (Cons x xs)
  show ?case by (cases x; cases ys) (auto simp: Cons)
qed auto

lemma those_None: "those xs = None \<longleftrightarrow> None \<in> set xs"
proof (induction xs)
  case (Cons x xs)
  then show ?case by (cases x) auto
qed simp

lemma seeding_peers_Some:
  "seeding_peers h i = Some ps \<longleftrightarrow>
     ps = keys (ph_peers h) \<and> (\<forall>(p, peer) \<in> set (ph_peers h). remote_can_seed_piece peer i)"
proof (cases "\<forall>(p, peer) \<in> set (ph_peers h). remote_can_seed_piece peer i")
  case True
  then have "map (\<lambda>(pid, peer). if remote_can_seed_piece peer i then Some pid else None) (ph_peers h)
      = map Some (keys (ph_peers h))" by auto
  then have "seeding_peers h i = Some (keys (ph_peers h))"
    unfolding seeding_peers_def those_Some .
  with True show ?thesis by auto
next
  case False
  then obtain p peer where "(p, peer) \<in> set (ph_peers h)" "\<not> remote_can_seed_piece peer i" by blast
  then have "seeding_peers h i = None"
    unfolding seeding_peers_def those_None set_map by (intro image_eqI [of _ _ "(p, peer)"]) simp_all
  with False show ?thesis by auto
qed

lemma seeding_peers_eligible:
  "seeding_peers h i = (if eligible h i then Some (keys (ph_peers h)) else None)"
proof (cases "seeding_peers h i")
  case None
  have "\<not> eligible h i"
  proof
    assume "eligible h i"
    then have "seeding_peers h i = Some (keys (ph_peers h))"
      by (simp add: seeding_peers_Some eligible_def)
    with None show False by simp
  qed
  with None show ?thesis by simp
next
  case (Some ps)
  then show ?thesis by (simp add: seeding_peers_Some eligible_def)
qed

lemma random_piece_loop_Some:
  "random_piece_loop h is = Some b \<Longrightarrow>
   \<exists>i \<in> set is. eligible h i \<and> b = new_buffer_for h i (keys (ph_peers h))"
  by (induction "is") (auto simp: seeding_peers_eligible split: if_splits)

lemma random_piece_loop_None:
  "random_piece_loop h is = None \<longleftrightarrow> (\<forall>i \<in> set is. \<not> eligible h i)"
  by (induction "is") (auto simp: seeding_peers_eligible)

lemma least_common_loop_Some:
  "least_common_loop h is rp r = Some b \<Longrightarrow>
   rp = None \<or> rp = Some (keys (ph_peers h)) \<and> eligible h r \<Longrightarrow>
   \<exists>i \<in> set is \<union> (if rp = None then {} else {r}).
      eligible h i \<and> b = new_buffer_for h i (keys (ph_peers h))"
proof (induction "is" arbitrary: rp r)
  case (Cons i "is")
  show ?case
  proof (cases "eligible h i")
    case False
    with Cons show ?thesis by (fastforce simp: seeding_peers_eligible)
  next
    case True
    show ?thesis
    proof (cases rp)
      case None
      with True Cons.prems Cons.IH [of "Some (keys (ph_peers h))" i] show ?thesis
        by (fastforce simp: seeding_peers_eligible split: if_splits)
    next
      case (Some ps)
      with True Cons.prems Cons.IH [of rp r] show ?thesis
        by (fastforce simp: seeding_peers_eligible split: if_splits)
    qed
  qed
qed (auto split: if_splits)

lemma least_common_loop_None:
  "least_common_loop h is rp r = None \<longleftrightarrow> rp = None \<and> (\<forall>i \<in> set is. \<not> eligible h i)"
  by (induction "is" arbitrary: rp r) (auto simp: seeding_peers_eligible split: option.splits)

lemma next_piece_buffer_Some:
  assumes "permutes shuffle" and "next_piece_buffer shuffle h = Some b"
  obtains i where "i \<in> set (missing_piece_indices h)" "eligible h i"
    "b = new_buffer_for h i (keys (ph_peers h))"
proof -
  have s: "set (shuffle xs) = set xs" for xs using assms(1) by (metis set_mset_mset)
  from assms(2) that show ?thesis
    using random_piece_loop_Some [of h "shuffle (missing_piece_indices h)" b]
      least_common_loop_Some [of h "shuffle (missing_piece_indices h)" None 0 b]
    by (auto simp: next_piece_buffer_def next_random_piece_def next_least_common_piece_def s
        split: PieceSelection.splits if_splits)
qed

lemma next_piece_buffer_None:
  assumes "permutes shuffle"
  shows "next_piece_buffer shuffle h = None \<longleftrightarrow>
    (strategy_ready h \<longrightarrow> (\<forall>i \<in> set (missing_piece_indices h). \<not> eligible h i))"
proof -
  have s: "set (shuffle xs) = set xs" for xs using assms(1) by (metis set_mset_mset)
  have "list_ex remote_can_seed (map snd (ph_peers h))
      \<longleftrightarrow> (\<exists>(p, peer) \<in> set (ph_peers h). remote_can_seed peer)"
    by (force simp: list_ex_iff)
  then show ?thesis
    by (auto simp: next_piece_buffer_def next_random_piece_def next_least_common_piece_def s
        random_piece_loop_None least_common_loop_None strategy_ready_def
        split: PieceSelection.splits)
qed

section \<open>Every step keeps the invariant\<close>

lemma buffer_static [simp]:
  "pb_torrent_id (snd (PieceBuffer_next b)) = pb_torrent_id b"
  "pb_piece_index (snd (PieceBuffer_next b)) = pb_piece_index b"
  "pb_piece_length (snd (PieceBuffer_next b)) = pb_piece_length b"
  "pb_torrent_id (snd (PieceBuffer_add_block p blk b)) = pb_torrent_id b"
  "pb_piece_index (snd (PieceBuffer_add_block p blk b)) = pb_piece_index b"
  "pb_piece_length (snd (PieceBuffer_add_block p blk b)) = pb_piece_length b"
  "pb_torrent_id (snd (PieceBuffer_remove_peer p b)) = pb_torrent_id b"
  "pb_piece_index (snd (PieceBuffer_remove_peer p b)) = pb_piece_index b"
  "pb_piece_length (snd (PieceBuffer_remove_peer p b)) = pb_piece_length b"
  by (simp_all add: PieceBuffer_next_def PieceBuffer_add_block_def PieceBuffer_remove_peer_def
      Let_def split: option.splits)

lemma busy_next [simp]: "busy (snd (PieceBuffer_next b)) = busy b"
  by (cases b rule: next_cases) (auto simp: busy_def keys_hm_insert [simplified])

lemma busy_add_block [simp]: "busy (snd (PieceBuffer_add_block p blk b)) = busy b"
proof (cases "hm_get (pb_pending_blocks b) p")
  case (Some m)
  then have "p \<in> set (keys (pb_pending_blocks b))"
    using hm_get_None [of "pb_pending_blocks b" p] by auto
  with Some show ?thesis
    by (auto simp: busy_def PieceBuffer_add_block_def Let_def keys_hm_remove [simplified])
qed (simp add: PieceBuffer_add_block_def)

lemma busy_remove_peer:
  assumes "pb_inv b"
  shows "busy (snd (PieceBuffer_remove_peer p b)) = busy b - {p}"
proof -
  from assms have d: "distinct (pb_peers b @ keys (pb_pending_blocks b))" by (simp add: pb_inv_def)
  show ?thesis
  proof (cases "position (\<lambda>x. x = p) (pb_peers b)")
    case (Some i)
    from position_Some [OF Some] have i: "i < length (pb_peers b)" "pb_peers b ! i = p" by simp_all
    from d i have "set (vec_remove i (pb_peers b)) = set (pb_peers b) - {p}"
      using set_vec_remove [of "pb_peers b" i] by simp
    moreover from d i have "p \<notin> set (keys (pb_pending_blocks b))"
      by (metis disjoint_iff distinct_append nth_mem)
    ultimately show ?thesis using Some
      by (auto simp: PieceBuffer_remove_peer_def busy_def)
  next
    case None
    then have "p \<notin> set (pb_peers b)" by (auto simp: position_None)
    with None show ?thesis
      by (auto simp: PieceBuffer_remove_peer_def busy_def keys_hm_remove [simplified] hm_get_None
          split: option.splits)
  qed
qed

lemma buffer_inv_buffer [simp]:
  "buffer_inv (h\<lparr>ph_piece_buffer := B\<rparr>) b = buffer_inv h b"
  "buffer_inv (h\<lparr>ph_piece_buffer := B, ph_peers := ps\<rparr>) b = buffer_inv (h\<lparr>ph_peers := ps\<rparr>) b"
  "buffer_inv (h\<lparr>ph_peers := ps, ph_piece_buffer := B\<rparr>) b = buffer_inv (h\<lparr>ph_peers := ps\<rparr>) b"
  by (simp_all add: buffer_inv_def piece_length_of_def)

lemma buffer_inv_peers:
  assumes "buffer_inv h b"
    and "\<And>p peer. p \<in> busy b \<Longrightarrow> hm_get (ph_peers h) p = Some peer \<Longrightarrow> remote_choke peer = UnChoked \<Longrightarrow>
      \<exists>peer'. hm_get ps p = Some peer' \<and> remote_choke peer' = UnChoked"
  shows "buffer_inv (h\<lparr>ph_peers := ps\<rparr>) b"
  using assms unfolding buffer_inv_def piece_length_of_def by fastforce

lemma ph_inv_update_peer [inv_intros]:
  assumes "ph_inv h" and "hm_get (ph_peers h) p = Some peer" and "remote_choke peer' = remote_choke peer"
  shows "ph_inv (h\<lparr>ph_peers := hm_insert p peer' (ph_peers h)\<rparr>)"
proof -
  from assms(1) have d: "distinct (keys (ph_peers h))" by (simp add: ph_inv_def)
  have "buffer_inv (h\<lparr>ph_peers := hm_insert p peer' (ph_peers h)\<rparr>) b" if "buffer_inv h b" for b
    using that assms(2,3) by (rule_tac buffer_inv_peers) (auto simp: hash_map.get_insert [OF d])
  with assms(1) show ?thesis by (auto simp: ph_inv_def)
qed

text \<open>Changing the buffer without changing what it is about.\<close>

lemma ph_inv_update_buffer:
  assumes "ph_inv h" and "ph_piece_buffer h = Some b" and "pb_inv b'" and "busy b' \<subseteq> busy b"
    and "pb_torrent_id b' = pb_torrent_id b" and "pb_piece_index b' = pb_piece_index b"
    and "pb_piece_length b' = pb_piece_length b"
  shows "ph_inv (h\<lparr>ph_piece_buffer := Some b'\<rparr>)"
  using assms by (auto simp: ph_inv_def buffer_inv_def piece_length_of_def)

lemma ph_inv_no_buffer [inv_intros]: "ph_inv h \<Longrightarrow> ph_inv (h\<lparr>ph_piece_buffer := None\<rparr>)"
  by (simp add: ph_inv_def)

lemma ph_inv_set_piece [inv_intros]:
  "ph_inv h \<Longrightarrow> map_option pb_piece_index (ph_piece_buffer h) \<noteq> Some n \<Longrightarrow>
   ph_inv (snd (set_piece n h))"
  by (auto simp: ph_inv_def set_piece_def buffer_inv_def piece_length_of_def bv_all_iff nth_list_update)

lemma pb_inv_join:
  "pb_inv b \<Longrightarrow> p \<notin> busy b \<Longrightarrow> pb_inv (b\<lparr>pb_peers := pb_peers b @ [p]\<rparr>)"
  by (auto simp: pb_inv_def pb_all_def busy_def)

lemma buffer_inv_join:
  assumes "buffer_inv h b" and "p \<notin> busy b"
    and "hm_get (ph_peers h) p = Some peer" and "remote_choke peer = UnChoked"
  shows "buffer_inv h (b\<lparr>pb_peers := pb_peers b @ [p]\<rparr>)"
  using assms pb_inv_join [of b p] by (auto simp: buffer_inv_def busy_def)

lemma ph_inv_new_buffer:
  assumes "ph_inv h" and "i \<in> set (missing_piece_indices h)" and "eligible h i"
  shows "ph_inv (h\<lparr>ph_piece_buffer := Some (new_buffer_for h i (keys (ph_peers h)))\<rparr>)"
proof -
  let ?b = "new_buffer_for h i (keys (ph_peers h))"
  from assms(1) have d: "distinct (keys (ph_peers h))" by (simp add: ph_inv_def)
  have "\<exists>peer. hm_get (ph_peers h) p = Some peer \<and> remote_choke peer = UnChoked" if "p \<in> busy ?b" for p
  proof -
    from that obtain peer where peer: "(p, peer) \<in> set (ph_peers h)"
      by (auto simp: busy_def new_buffer_for_def)
    with assms(3) have "remote_choke peer = UnChoked"
      by (auto simp: eligible_def remote_can_seed_piece_iff)
    with peer d show ?thesis by (auto simp: hm_get_distinct)
  qed
  moreover have "pb_torrent_id ?b = ph_id h"
    by (simp add: new_buffer_for_def PieceBuffer_new_def Let_def)
  moreover have "pb_inv ?b" using d unfolding new_buffer_for_def by (rule pb_inv_new)
  ultimately show ?thesis using assms(1,2)
    by (auto simp: ph_inv_def buffer_inv_def missing_piece_indices_set new_buffer_for_def
        piece_length_of_def)
qed

text \<open>The weak invariant does not look at the peers of the buffer.\<close>

lemma ph_inv_safe: "ph_inv h \<Longrightarrow> ph_safe h"
  by (simp add: ph_inv_def ph_safe_def buffer_inv_def buffer_safe_def pb_inv_safe)

lemma buffer_safe_frame [simp]:
  "buffer_safe (h\<lparr>ph_piece_buffer := B\<rparr>) b = buffer_safe h b"
  "buffer_safe (h\<lparr>ph_peers := ps\<rparr>) b = buffer_safe h b"
  "buffer_safe (h\<lparr>ph_pending_seed_blocks := xs\<rparr>) b = buffer_safe h b"
  by (simp_all add: buffer_safe_def piece_length_of_def)

lemma ph_safe_pending [simp]: "ph_safe (h\<lparr>ph_pending_seed_blocks := xs\<rparr>) = ph_safe h"
  by (simp add: ph_safe_def)

lemma ph_safe_no_buffer [inv_intros]: "ph_safe h \<Longrightarrow> ph_safe (h\<lparr>ph_piece_buffer := None\<rparr>)"
  by (simp add: ph_safe_def)

lemma ph_safe_peers [inv_intros]:
  "ph_safe h \<Longrightarrow> distinct (keys ps) \<Longrightarrow> ph_safe (h\<lparr>ph_peers := ps\<rparr>)"
  by (simp add: ph_safe_def)

lemma ph_safe_distinct: "ph_safe h \<Longrightarrow> distinct (keys (ph_peers h))"
  by (simp add: ph_safe_def)

lemma ph_safe_buffer: "ph_safe h \<Longrightarrow> ph_piece_buffer h = Some b \<Longrightarrow> buffer_safe h b"
  by (simp add: ph_safe_def)

text \<open>Changing the buffer without changing what it is about.\<close>

lemma ph_safe_update_buffer:
  assumes "ph_safe h" and "ph_piece_buffer h = Some b" and "pb_safe b'"
    and "pb_torrent_id b' = pb_torrent_id b" and "pb_piece_index b' = pb_piece_index b"
    and "pb_piece_length b' = pb_piece_length b"
  shows "ph_safe (h\<lparr>ph_piece_buffer := Some b'\<rparr>)"
  using assms by (auto simp: ph_safe_def buffer_safe_def piece_length_of_def)

lemma buffer_safe_new:
  "i \<in> set (missing_piece_indices h) \<Longrightarrow> buffer_safe h (new_buffer_for h i ps)"
  by (auto simp: buffer_safe_def missing_piece_indices_set new_buffer_for_def piece_length_of_def
      pb_safe_new)

text \<open>The outcomes of a poll in a state that satisfies the invariant.\<close>

lemma ph_poll_cases:
  assumes "ph_safe h" and "permutes shuffle"
  obtains
    (finished_piece) b data where "ph_piece_buffer h = Some b" "is_full_piece b"
      "data = concat (map (bl_data \<circ> snd) (pb_blocks b))"
      "ph_poll shuffle h =
         (PieceFinished (Inr (Block_new (BlockMetadata_new (pb_piece_index b) 0 (pb_piece_length b)) data)),
          h\<lparr>ph_piece_buffer := None, ph_bitfield := (ph_bitfield h)[pb_piece_index b := True]\<rparr>)"
  | (current) b where "ph_piece_buffer h = Some b" "\<not> is_full_piece b"
      "ph_poll shuffle h = (LeechBlock (fst (PieceBuffer_next b)),
         h\<lparr>ph_piece_buffer := Some (snd (PieceBuffer_next b))\<rparr>)"
  | (fresh) i b where "ph_piece_buffer h = None" "\<not> bv_all (ph_bitfield h)"
      "i \<in> set (missing_piece_indices h)" "eligible h i"
      "b = new_buffer_for h i (keys (ph_peers h))" "next_piece_buffer shuffle h = Some b"
      "ph_poll shuffle h = (LeechBlock (fst (PieceBuffer_next b)),
         h\<lparr>ph_piece_buffer := Some (snd (PieceBuffer_next b))\<rparr>)"
  | (waiting) "ph_piece_buffer h = None" "\<not> bv_all (ph_bitfield h)"
      "next_piece_buffer shuffle h = None" "ph_poll shuffle h = (WaitingPeers, h)"
  | (seeding) "ph_piece_buffer h = None" "ph_finished h" "bv_all (ph_bitfield h)"
      "ph_poll shuffle h = (Seed, h)"
  | (complete) "ph_piece_buffer h = None" "\<not> ph_finished h" "bv_all (ph_bitfield h)"
      "ph_poll shuffle h = (Finished, h\<lparr>ph_finished := True\<rparr>)"
proof (cases "ph_piece_buffer h")
  case (Some b)
  with assms(1) have inv: "pb_safe b" and idx: "pb_piece_index b < length (ph_bitfield h)"
    by (simp_all add: ph_safe_def buffer_safe_def)
  show ?thesis
  proof (cases "is_full_piece b")
    case True
    with Some idx finished_piece [OF Some True refl] show ?thesis
      by (simp add: ph_poll_def try_finalize_full [OF inv] set_piece_def Block_new_def
          BlockMetadata_new_def Let_def)
  next
    case False
    with Some current show ?thesis by (simp add: ph_poll_def split_beta)
  qed
next
  case None
  consider "bv_all (ph_bitfield h)" "ph_finished h" | "bv_all (ph_bitfield h)" "\<not> ph_finished h"
    | "\<not> bv_all (ph_bitfield h)" by blast
  then show ?thesis
  proof cases
    case 3
    with assms(1) have nf: "\<not> ph_finished h" by (auto simp: ph_safe_def)
    show ?thesis
    proof (cases "next_piece_buffer shuffle h")
      case None
      with waiting 3 nf \<open>ph_piece_buffer h = None\<close> show ?thesis by (simp add: ph_poll_def)
    next
      case (Some b)
      from next_piece_buffer_Some [OF assms(2) Some] obtain i where
        "i \<in> set (missing_piece_indices h)" "eligible h i"
        "b = new_buffer_for h i (keys (ph_peers h))" .
      from fresh [OF None 3 this Some] Some 3 nf None show ?thesis
        by (simp add: ph_poll_def split_beta)
    qed
  qed (use None seeding complete in \<open>simp_all add: ph_poll_def\<close>)
qed

lemma ph_safe_poll [inv_intros]:
  assumes "ph_safe h" and "permutes shuffle"
  shows "ph_safe (snd (ph_poll shuffle h))"
  using assms
proof (cases rule: ph_poll_cases)
  case (finished_piece b data)
  with assms(1) show ?thesis by (auto simp: ph_safe_def buffer_safe_def bv_all_iff)
next
  case (current b)
  with assms(1) have "pb_safe b" by (simp add: ph_safe_def buffer_safe_def)
  from pb_safe_next [OF this] current assms(1) show ?thesis
    by (auto intro: ph_safe_update_buffer)
next
  case (fresh i b)
  have b: "buffer_safe h b" unfolding fresh(5) by (rule buffer_safe_new [OF fresh(3)])
  with assms(1) have "ph_safe (h\<lparr>ph_piece_buffer := Some b\<rparr>)" by (simp add: ph_safe_def)
  moreover from b have "pb_safe b" by (simp add: buffer_safe_def)
  ultimately have "ph_safe ((h\<lparr>ph_piece_buffer := Some b\<rparr>)
      \<lparr>ph_piece_buffer := Some (snd (PieceBuffer_next b))\<rparr>)"
    by (rule_tac ph_safe_update_buffer) (auto intro: pb_safe_next)
  with fresh show ?thesis by simp
qed (use assms in \<open>auto simp: ph_safe_def\<close>)

lemma ph_inv_poll [inv_intros]:
  assumes "ph_inv h" and "permutes shuffle"
  shows "ph_inv (snd (ph_poll shuffle h))"
  using ph_inv_safe [OF assms(1)] assms(2)
proof (cases rule: ph_poll_cases)
  case (finished_piece b data)
  with assms(1) show ?thesis
    by (auto simp: ph_inv_def buffer_inv_def bv_all_iff)
next
  case (current b)
  with assms(1) have "pb_inv b" by (simp add: ph_inv_def buffer_inv_def)
  from pb_inv_next [OF this] current assms(1) show ?thesis
    by (auto intro: ph_inv_update_buffer)
next
  case (fresh i b)
  from ph_inv_new_buffer [OF assms(1) fresh(3,4)] fresh(5)
  have "ph_inv (h\<lparr>ph_piece_buffer := Some b\<rparr>)" by simp
  moreover from this have "pb_inv b" by (simp add: ph_inv_def buffer_inv_def)
  ultimately have "ph_inv ((h\<lparr>ph_piece_buffer := Some b\<rparr>)
      \<lparr>ph_piece_buffer := Some (snd (PieceBuffer_next b))\<rparr>)"
    by (rule_tac ph_inv_update_buffer) (auto intro: pb_inv_next)
  with fresh show ?thesis by simp
qed (use assms in \<open>auto simp: ph_inv_def\<close>)

lemma ph_inv_insert_peer [inv_intros]:
  assumes "ph_inv h" and "\<not> hm_contains_key (ph_peers h) p"
  shows "ph_inv (snd (insert_peer p peer h))"
proof -
  from assms have d: "distinct (keys (ph_peers h))" and new: "hm_get (ph_peers h) p = None"
    by (simp_all add: ph_inv_def hm_contains_key_def)
  let ?h = "h\<lparr>ph_peers := hm_insert p peer (ph_peers h)\<rparr>"
  have old: "buffer_inv ?h b" if "buffer_inv h b" for b
    using that new by (rule_tac buffer_inv_peers) (auto simp: hash_map.get_insert [OF d])
  have join: "buffer_inv ?h (b\<lparr>pb_peers := pb_peers b @ [p]\<rparr>)"
    if b: "buffer_inv h b" and seed: "remote_can_seed_piece peer (pb_piece_index b)" for b
  proof (rule buffer_inv_join [OF old [OF b]])
    show "p \<notin> busy b" using b new by (auto simp: buffer_inv_def)
    show "hm_get (ph_peers ?h) p = Some peer" by (simp add: hash_map.get_insert [OF d])
    show "remote_choke peer = UnChoked" using seed by (simp add: remote_can_seed_piece_iff)
  qed
  with assms old show ?thesis
    by (auto simp: insert_peer_def Let_def ph_inv_def split: option.splits)
qed

lemma ph_inv_choke [inv_intros]:
  assumes "ph_inv h"
  shows "ph_inv (snd (set_choke_on_remote p Choked h))"
proof (cases "hm_get (ph_peers h) p")
  case (Some peer)
  from assms have d: "distinct (keys (ph_peers h))" by (simp add: ph_inv_def)
  let ?ps = "hm_insert p (peer\<lparr>remote_choke := Choked\<rparr>) (ph_peers h)"
  have removed: "buffer_inv (h\<lparr>ph_peers := ?ps\<rparr>) (snd (PieceBuffer_remove_peer p b))"
    if b: "buffer_inv h b" for b
  proof -
    from b have "pb_inv b" by (simp add: buffer_inv_def)
    with b have "buffer_inv h (snd (PieceBuffer_remove_peer p b))"
      using pb_inv_remove_peer [of b p] busy_remove_peer [of b p] by (auto simp: buffer_inv_def)
    then show ?thesis using busy_remove_peer [OF \<open>pb_inv b\<close>]
      by (rule_tac buffer_inv_peers) (auto simp: hash_map.get_insert [OF d])
  qed
  with assms Some show ?thesis
    by (auto simp: set_choke_on_remote_def Let_def ph_inv_def split: option.splits)
qed (simp add: set_choke_on_remote_def assms)

lemma ph_inv_unchoke [inv_intros]:
  assumes "ph_inv h" and "\<And>peer. hm_get (ph_peers h) p = Some peer \<Longrightarrow> remote_choke peer = Choked"
  shows "ph_inv (snd (set_choke_on_remote p UnChoked h))"
proof (cases "hm_get (ph_peers h) p")
  case (Some peer)
  from assms have d: "distinct (keys (ph_peers h))" by (simp add: ph_inv_def)
  let ?peer = "peer\<lparr>remote_choke := UnChoked\<rparr>"
  let ?ps = "hm_insert p ?peer (ph_peers h)"
  have same: "buffer_inv (h\<lparr>ph_peers := ?ps\<rparr>) b" if "buffer_inv h b" for b
    using that by (rule buffer_inv_peers) (auto simp: hash_map.get_insert [OF d])
  have "buffer_inv (h\<lparr>ph_peers := ?ps\<rparr>) (b\<lparr>pb_peers := pb_peers b @ [p]\<rparr>)"
    if b: "buffer_inv h b" for b
  proof (rule buffer_inv_join [OF same [OF b]])
    show "p \<notin> busy b" using b Some assms(2) by (auto simp: buffer_inv_def)
    show "hm_get (ph_peers (h\<lparr>ph_peers := ?ps\<rparr>)) p = Some ?peer"
      by (simp add: hash_map.get_insert [OF d])
  qed simp
  with assms(1) Some same show ?thesis
    by (auto simp: set_choke_on_remote_def Let_def ph_inv_def split: option.splits)
qed (simp add: set_choke_on_remote_def assms(1))

lemma ph_inv_remove [inv_intros]:
  assumes "ph_inv h"
  shows "ph_inv (snd (ph_remove_peer p h))"
proof -
  from assms have d: "distinct (keys (ph_peers h))" by (simp add: ph_inv_def)
  let ?ps = "hm_remove p (ph_peers h)"
  have known: "buffer_inv (h\<lparr>ph_peers := ?ps\<rparr>) (snd (PieceBuffer_remove_peer p b))"
    if b: "buffer_inv h b" for b
  proof -
    from b have "pb_inv b" by (simp add: buffer_inv_def)
    with b have "buffer_inv h (snd (PieceBuffer_remove_peer p b))"
      using pb_inv_remove_peer [of b p] busy_remove_peer [of b p] by (auto simp: buffer_inv_def)
    then show ?thesis using busy_remove_peer [OF \<open>pb_inv b\<close>]
      by (rule_tac buffer_inv_peers) (auto simp: hash_map.get_remove [OF d])
  qed
  have unknown: "buffer_inv (h\<lparr>ph_peers := ?ps\<rparr>) b"
    if "buffer_inv h b" and "hm_get (ph_peers h) p = None" for b
    using that by (rule_tac buffer_inv_peers) (auto simp: hash_map.get_remove [OF d])
  from assms known unknown show ?thesis
    by (auto simp: ph_remove_peer_def Let_def ph_inv_def split: option.splits)
qed

lemma ph_inv_add_block [inv_intros]:
  assumes "ph_inv h" and "is_correct_len blk"
  shows "ph_inv (snd (ph_add_block p blk h))"
proof (cases "ph_piece_buffer h")
  case (Some b)
  with assms have "pb_inv (snd (PieceBuffer_add_block p blk b))"
    by (intro pb_inv_add_block) (simp_all add: ph_inv_def buffer_inv_def)
  with Some assms show ?thesis
    by (auto simp: ph_add_block_def split_beta intro: ph_inv_update_buffer)
qed (simp add: ph_add_block_def assms)

text \<open>The operations that touch only the pending seed requests.\<close>

lemma ph_inv_pending [simp]:
  "ph_inv (h\<lparr>ph_pending_seed_blocks := xs\<rparr>) = ph_inv h"
  by (simp add: ph_inv_def buffer_inv_def piece_length_of_def)

lemma ph_inv_rehash [inv_intros]:
  assumes "ph_inv h" and "mset ps = mset (ph_peers h)"
  shows "ph_inv (h\<lparr>ph_peers := ps\<rparr>)"
proof -
  from assms(1) have d: "distinct (keys (ph_peers h))" by (simp add: ph_inv_def)
  from assms(2) have "mset (keys ps) = mset (keys (ph_peers h))" by (metis mset_map)
  with d have "distinct (keys ps)" by (metis mset_eq_imp_distinct_iff)
  moreover have "hm_get ps p = hm_get (ph_peers h) p" for p
    using hm_get_perm [OF assms(2) [symmetric] d] .
  ultimately show ?thesis using assms(1)
    by (auto simp: ph_inv_def intro: buffer_inv_peers)
qed

lemma ph_inv_peer_piece [inv_intros]: "ph_inv h \<Longrightarrow> ph_inv (snd (set_peer_piece p n h))"
  by (auto simp: set_peer_piece_def add_piece_def set_bitfield_def split_beta Let_def
      split: option.splits intro!: ph_inv_update_peer)

lemma ph_inv_step: "ph_step True h h' \<Longrightarrow> ph_inv h \<Longrightarrow> ph_inv h'"
proof (induction rule: ph_step.induct)
  case (s_client_choke h p c)
  then show ?case
    by (auto simp: set_client_choke_for_peer_def split: option.splits intro!: ph_inv_update_peer)
next
  case (s_client_interest h p i)
  then show ?case
    by (auto simp: set_client_interest_def split: option.splits intro!: ph_inv_update_peer)
next
  case (s_interest h p i)
  then show ?case
    by (auto simp: set_interest_on_remote_def split: option.splits intro!: ph_inv_update_peer)
qed (auto simp: insert_block_seed_def remove_pending_seed_by_request_def
      clear_pending_seed_block_def clear_buffer_def split_beta split: option.splits
      intro: inv_intros)

lemma ph_inv_new: "ph_inv (TorrentPieceHandler_new tid sel bf plen last_len)"
  by (simp add: ph_inv_def TorrentPieceHandler_new_def)

lemma ph_run_inv: "ph_run True h \<Longrightarrow> ph_inv h"
  by (induction rule: ph_run.induct) (auto intro: ph_inv_new ph_inv_step)

text \<open>Every step keeps the weak invariant.\<close>

lemma remove_peer_frame [simp]:
  "pb_torrent_id (snd (PieceBuffer_remove_peer p b)) = pb_torrent_id b"
  "pb_piece_index (snd (PieceBuffer_remove_peer p b)) = pb_piece_index b"
  "pb_piece_length (snd (PieceBuffer_remove_peer p b)) = pb_piece_length b"
  by (simp_all add: PieceBuffer_remove_peer_def split: option.splits)

lemma buffer_safe_remove_peer: "buffer_safe h b \<Longrightarrow> buffer_safe h (snd (PieceBuffer_remove_peer p b))"
  by (simp add: buffer_safe_def pb_safe_remove_peer)

lemma buffer_safe_join: "buffer_safe h b \<Longrightarrow> buffer_safe h (b\<lparr>pb_peers := ps\<rparr>)"
  by (simp add: buffer_safe_def pb_safe_join)

lemmas safe_ops = buffer_safe_remove_peer buffer_safe_join

lemma ph_safe_insert_peer [inv_intros]: "ph_safe h \<Longrightarrow> ph_safe (snd (insert_peer p peer h))"
  by (auto simp: insert_peer_def Let_def ph_safe_def safe_ops split: option.splits)

lemma ph_safe_choke [inv_intros]: "ph_safe h \<Longrightarrow> ph_safe (snd (set_choke_on_remote p c h))"
  by (auto simp: set_choke_on_remote_def Let_def ph_safe_def safe_ops
      split: option.splits ChokeType.splits)

lemma ph_safe_remove [inv_intros]: "ph_safe h \<Longrightarrow> ph_safe (snd (ph_remove_peer p h))"
  by (auto simp: ph_remove_peer_def Let_def ph_safe_def safe_ops split: option.splits)

lemma ph_safe_add_block [inv_intros]:
  assumes "ph_safe h" and "is_correct_len blk"
  shows "ph_safe (snd (ph_add_block p blk h))"
proof (cases "ph_piece_buffer h")
  case (Some b)
  with assms have "pb_safe (snd (PieceBuffer_add_block p blk b))"
    by (intro pb_safe_add_block) (simp_all add: ph_safe_def buffer_safe_def)
  with Some assms show ?thesis
    by (auto simp: ph_add_block_def split_beta intro: ph_safe_update_buffer)
qed (simp add: ph_add_block_def assms)

lemma ph_safe_set_piece [inv_intros]:
  "ph_safe h \<Longrightarrow> map_option pb_piece_index (ph_piece_buffer h) \<noteq> Some n \<Longrightarrow>
   ph_safe (snd (set_piece n h))"
  by (auto simp: ph_safe_def set_piece_def buffer_safe_def piece_length_of_def bv_all_iff nth_list_update)

lemma ph_safe_step: "ph_step orderly h h' \<Longrightarrow> ph_safe h \<Longrightarrow> ph_safe h'"
proof (induction rule: ph_step.induct)
  case (s_rehash ps h)
  with distinct_keys_perm [of ps "ph_peers h"] show ?case by (simp add: ph_safe_def)
qed (auto simp: insert_block_seed_def remove_pending_seed_by_request_def
      clear_pending_seed_block_def clear_buffer_def set_client_choke_for_peer_def
      set_client_interest_def set_interest_on_remote_def set_peer_piece_def add_piece_def
      set_bitfield_def ph_safe_distinct Let_def split_beta split: option.splits
      intro: inv_intros)

lemma ph_run_safe: "ph_run orderly h \<Longrightarrow> ph_safe h"
  by (induction rule: ph_run.induct)
    (auto intro: ph_safe_step ph_inv_safe ph_inv_new)

text \<open>Between two pieces both invariants say the same.\<close>

lemma ph_run_idle_inv: "ph_run orderly h \<Longrightarrow> ph_piece_buffer h = None \<Longrightarrow> ph_inv h"
  using ph_run_safe [of orderly h] by (simp add: ph_safe_def ph_inv_def)

section \<open>Properties\<close>

text \<open>
  C16. In every state a piece handler can reach, whatever its peers send: each peer is tracked
  once; a handler that calls itself finished owns every piece; the piece being downloaded is one
  the client lacks and has the length the metainfo gives it, and no block of it is held twice.
  In an orderly run, in which a peer is inserted once and unchokes only after it choked, every
  block of the piece is accounted for exactly once, and every peer the buffer counts on is
  tracked and has the client unchoked.
\<close>

theorem handler_invariant:
  assumes "ph_run orderly h"
  shows "distinct (keys (ph_peers h)) \<and>
    (ph_finished h \<longrightarrow> (\<forall>i < length (ph_bitfield h). ph_bitfield h ! i)) \<and>
    (\<forall>b. ph_piece_buffer h = Some b \<longrightarrow>
       bv_get (ph_bitfield h) (pb_piece_index b) = Some False \<and>
       pb_piece_length b = piece_length_of h (pb_piece_index b) \<and>
       mset (pb_missing_blocks b @ map snd (pb_pending_blocks b)
             @ map (bl_metadata \<circ> snd) (pb_blocks b))
         \<subseteq># mset (piece_layout (pb_piece_index b) (pb_piece_length b)) \<and>
       (orderly \<longrightarrow>
         mset (pb_missing_blocks b @ map snd (pb_pending_blocks b)
               @ map (bl_metadata \<circ> snd) (pb_blocks b))
           = mset (piece_layout (pb_piece_index b) (pb_piece_length b)) \<and>
         distinct (pb_peers b @ keys (pb_pending_blocks b)) \<and>
         (\<forall>p \<in> set (pb_peers b @ keys (pb_pending_blocks b)).
            \<exists>peer. hm_get (ph_peers h) p = Some peer \<and> remote_choke peer = UnChoked)))"
    (is "_ \<and> _ \<and> (\<forall>b. _ \<longrightarrow> ?weak b \<and> ?len b \<and> ?sub b \<and> (orderly \<longrightarrow> ?strong b))")
proof -
  have strong: "?strong b" if orderly "ph_piece_buffer h = Some b" for b
    using that assms ph_run_inv [of h]
    by (auto simp: ph_inv_def buffer_inv_def pb_inv_def pb_all_def busy_def add.assoc)
  have "?weak b \<and> ?len b \<and> ?sub b" if "ph_piece_buffer h = Some b" for b
    using ph_safe_buffer [OF ph_run_safe [OF assms] that]
    by (auto simp: buffer_safe_def bv_get_def pb_safe_def pb_all_def add.assoc)
  moreover have "distinct (keys (ph_peers h))"
    and "ph_finished h \<longrightarrow> (\<forall>i < length (ph_bitfield h). ph_bitfield h ! i)"
    using ph_run_safe [OF assms] by (simp_all add: ph_safe_def bv_all_iff)
  ultimately show ?thesis using strong by blast
qed

theorem handler_invariant_witness:
  "distinct (keys (ph_peers (snd (insert_peer 3 (BitTorrentPeer_new 0 [])
     (TorrentPieceHandler_new (TorrentId 0) Random [False] 5 5)))))"
proof -
  have "ph_run True (snd (insert_peer 3 (BitTorrentPeer_new 0 [])
      (TorrentPieceHandler_new (TorrentId 0) Random [False] 5 5)))"
    by (rule ph_more [OF ph_start s_insert])
      (simp add: TorrentPieceHandler_new_def hm_contains_key_def hm_get_def)
  from handler_invariant [OF this] show ?thesis by blast
qed

text \<open>
  C17. What a poll of the handler answers, in every state it can reach and for every shuffle. A
  finished piece is always a complete block of a piece that was missing, and exactly that
  piece becomes owned; a requested block belongs to a piece that is missing, and in an orderly run
  it is requested from a tracked peer that has the client unchoked; \<^verbatim>\<open>Finished\<close> and \<^verbatim>\<open>Seed\<close> are
  only answered when every piece is owned, and \<^verbatim>\<open>WaitingPeers\<close> only when one is missing; finalising
  never fails and the endgame state is never answered.
\<close>

theorem poll_outcome:
  assumes "ph_run orderly h" and "\<forall>xs. mset (shuffle xs) = mset xs"
    and "ph_poll shuffle h = (st, h')"
  shows "case st of
      PieceFinished res \<Rightarrow> \<exists>i data.
        res = Inr (Block_new (BlockMetadata_new i 0 (piece_length_of h i)) data) \<and>
        length data = piece_length_of h i \<and> bv_get (ph_bitfield h) i = Some False \<and>
        h' = h\<lparr>ph_piece_buffer := None, ph_bitfield := (ph_bitfield h)[i := True]\<rparr>
    | LeechBlock (Some nb) \<Rightarrow>
        (\<exists>i. nb_block_metadata nb \<in> set (piece_layout i (piece_length_of h i)) \<and>
           bv_get (ph_bitfield h) i = Some False) \<and>
        (orderly \<longrightarrow> (\<exists>peer.
           hm_get (ph_peers h) (nb_peer_id nb) = Some peer \<and> remote_choke peer = UnChoked))
    | LeechBlock None \<Rightarrow> False \<in> set (ph_bitfield h)
    | WaitingPeers \<Rightarrow> False \<in> set (ph_bitfield h) \<and> h' = h
    | Finished \<Rightarrow> False \<notin> set (ph_bitfield h) \<and> h' = h\<lparr>ph_finished := True\<rparr>
    | Seed \<Rightarrow> False \<notin> set (ph_bitfield h) \<and> h' = h
    | Endgame \<Rightarrow> False"
proof -
  from assms(1) have safe: "ph_safe h" by (rule ph_run_safe)
  have inv: "ph_inv h" if orderly using that assms(1) by (auto intro: ph_run_inv)
  have all: "bv_all bf \<longleftrightarrow> False \<notin> set bf" for bf
    by (metis (full_types) bv_all_def list_all_iff)
  have leech: ?thesis
    if b: "buffer_safe h b" and orderly_b: "orderly \<Longrightarrow> buffer_inv h b"
      and st: "st = LeechBlock (fst (PieceBuffer_next b))" for b
  proof (cases b rule: next_cases)
    case (request ps p ms m)
    from b have "pb_safe b" by (simp add: buffer_safe_def)
    from missing_in_layout [OF this, of m] request b orderly_b st show ?thesis
      by (auto simp: buffer_safe_def buffer_inv_def bv_get_def busy_def)
  qed (use b st in \<open>auto simp: buffer_safe_def in_set_conv_nth\<close>)
  from safe assms(2) show ?thesis
  proof (cases rule: ph_poll_cases)
    case (finished_piece b data)
    with safe have b: "buffer_safe h b" by (simp add: ph_safe_def)
    then have "length data = pb_piece_length b"
      using full_data_lengths [of b] finished_piece(2,3) sum_layout
      by (simp add: buffer_safe_def length_concat)
    with b finished_piece(4) assms(3) show ?thesis by (auto simp: buffer_safe_def bv_get_def)
  next
    case (current b)
    with safe inv assms(3) show ?thesis by (intro leech [of b]) (auto simp: ph_safe_def ph_inv_def)
  next
    case (fresh i b)
    have "buffer_inv h b" if orderly
      using ph_inv_new_buffer [OF inv [OF that] fresh(3,4)] fresh(5) by (simp add: ph_inv_def)
    with buffer_safe_new [OF fresh(3)] fresh(5) show ?thesis
      by (intro leech [of b]) (use fresh assms(3) in simp_all)
  qed (use assms(3) in \<open>auto simp: all\<close>)
qed

theorem poll_outcome_witness:
  "False \<notin> set (ph_bitfield (TorrentPieceHandler_new (TorrentId 0) Random [True] 5 5)) \<and>
   fst (ph_poll id (TorrentPieceHandler_new (TorrentId 0) Random [True] 5 5)) = Seed"
proof -
  let ?h = "TorrentPieceHandler_new (TorrentId 0) Random [True] 5 5"
  have "ph_poll id ?h = (Seed, ?h)"
    by (simp add: ph_poll_def TorrentPieceHandler_new_def bv_all_def)
  with poll_outcome [OF ph_start [of True] _ this] show ?thesis by simp
qed

text \<open>
  C25. The choice of the next piece, for every shuffle. A selected piece is one the client
  lacks and is not already downloading, every tracked peer can seed it, and the new buffer
  covers the whole piece with all of those peers free. Nothing is selected exactly when no
  missing piece can be seeded by every peer or, under the rarest-first strategy, when no peer
  can seed at all.
\<close>

theorem piece_selection_correct:
  assumes "\<forall>xs. mset (shuffle xs) = mset xs"
  shows "(\<forall>b. next_piece_buffer shuffle h = Some b \<longrightarrow>
      (\<exists>i. bv_get (ph_bitfield h) i = Some False \<and>
         map_option pb_piece_index (ph_piece_buffer h) \<noteq> Some i \<and>
         (\<forall>(p, peer) \<in> set (ph_peers h). remote_can_seed_piece peer i) \<and>
         b = PieceBuffer_new i (piece_length_of h i) (ph_id h) (keys (ph_peers h)))) \<and>
    (next_piece_buffer shuffle h = None \<longleftrightarrow>
      (\<forall>i. bv_get (ph_bitfield h) i = Some False \<longrightarrow>
         map_option pb_piece_index (ph_piece_buffer h) \<noteq> Some i \<longrightarrow>
         (\<exists>(p, peer) \<in> set (ph_peers h). \<not> remote_can_seed_piece peer i)) \<or>
      ph_selection_strategy h = Rarest \<and>
        (\<forall>(p, peer) \<in> set (ph_peers h). \<not> remote_can_seed peer))"
proof (intro conjI allI impI)
  fix b assume "next_piece_buffer shuffle h = Some b"
  from next_piece_buffer_Some [OF assms this] obtain i where
    "i \<in> set (missing_piece_indices h)" "eligible h i"
    "b = new_buffer_for h i (keys (ph_peers h))" .
  then show "\<exists>i. bv_get (ph_bitfield h) i = Some False \<and>
      map_option pb_piece_index (ph_piece_buffer h) \<noteq> Some i \<and>
      (\<forall>(p, peer) \<in> set (ph_peers h). remote_can_seed_piece peer i) \<and>
      b = PieceBuffer_new i (piece_length_of h i) (ph_id h) (keys (ph_peers h))"
    by (auto simp: missing_piece_indices_set bv_get_def eligible_def new_buffer_for_def)
next
  have "i \<in> set (missing_piece_indices h) \<longleftrightarrow> bv_get (ph_bitfield h) i = Some False \<and>
      map_option pb_piece_index (ph_piece_buffer h) \<noteq> Some i" for i
    by (cases "ph_piece_buffer h") (auto simp: missing_piece_indices_set bv_get_def)
  then show "next_piece_buffer shuffle h = None \<longleftrightarrow>
      (\<forall>i. bv_get (ph_bitfield h) i = Some False \<longrightarrow>
         map_option pb_piece_index (ph_piece_buffer h) \<noteq> Some i \<longrightarrow>
         (\<exists>(p, peer) \<in> set (ph_peers h). \<not> remote_can_seed_piece peer i)) \<or>
      ph_selection_strategy h = Rarest \<and>
        (\<forall>(p, peer) \<in> set (ph_peers h). \<not> remote_can_seed peer)"
    unfolding next_piece_buffer_None [OF assms] eligible_def strategy_ready_def by fast
qed

theorem piece_selection_correct_witness:
  "next_piece_buffer rev (TorrentPieceHandler_new (TorrentId 0) Rarest [False] 5 5) = None"
  using piece_selection_correct [of rev "TorrentPieceHandler_new (TorrentId 0) Rarest [False] 5 5"]
  by (simp add: TorrentPieceHandler_new_def)


end
