(* ===== verification/Torrents.thy ===== *)
theory Torrents
  imports PieceHandlers
begin

text \<open>
  One torrent of the pool (\<^verbatim>\<open>Torrent\<close> in \<^verbatim>\<open>src/peer/torrent.rs\<close>), its configuration
  (\<^verbatim>\<open>src/peer/builder.rs\<close>) and the seed/leech mode (\<^verbatim>\<open>src/behavior.rs\<close>).

  \<^verbatim>\<open>Instant::now()\<close> is the argument \<open>clock\<close>. The state \<^verbatim>\<open>Waiting\<close> carries the identifier of the
  torrent in place of the reference to it.
\<close>

section \<open>Data\<close>

datatype SeedLeechConfig = SeedOnly | LeechOnly | SeedAndLeech

datatype TorrentState = Active | Paused | Stopped

record Torrent =
  t_id :: TorrentId
  t_info_hash :: ShaHash
  t_piece_handler :: TorrentPieceHandler
  t_created :: Instant
  t_seed_leech :: SeedLeechConfig
  t_state :: TorrentState

datatype TorrentPoolState =
    Idle
  | Waiting TorrentId
  | PieceReady "TorrentError + (TorrentId \<times> Block)"
  | Finished TorrentId
  | KeepAlive TorrentId PeerId
  | Timeout TorrentId PeerId
  | NextBlock NextBlock

record TorrentConfig =
  tc_info_hash :: ShaHash
  tc_state :: TorrentState
  tc_bitfield :: BitField
  tc_piece_length :: u64
  tc_last_piece_length :: u64
  tc_seed_leech :: SeedLeechConfig

record TorrentConfigBuilder =
  tb_state :: "TorrentState option"
  tb_bitfield :: "BitField option"
  tb_info_hash :: "ShaHash option"
  tb_piece_length :: "u64 option"
  tb_last_piece_length :: "u64 option"

section \<open>Modes and states\<close>

fun is_seed_only :: "SeedLeechConfig \<Rightarrow> bool" where
  "is_seed_only SeedOnly = True"
| "is_seed_only _ = False"

fun is_leech_only :: "SeedLeechConfig \<Rightarrow> bool" where
  "is_leech_only LeechOnly = True"
| "is_leech_only _ = False"

fun is_seed_and_leech :: "SeedLeechConfig \<Rightarrow> bool" where
  "is_seed_and_leech SeedAndLeech = True"
| "is_seed_and_leech _ = False"

definition is_seeding :: "SeedLeechConfig \<Rightarrow> bool" where
  "is_seeding c \<longleftrightarrow> \<not> is_leech_only c"

definition is_leeching :: "SeedLeechConfig \<Rightarrow> bool" where
  "is_leeching c \<longleftrightarrow> \<not> is_seed_only c"

fun is_active :: "TorrentState \<Rightarrow> bool" where
  "is_active Active = True"
| "is_active _ = False"

fun is_paused :: "TorrentState \<Rightarrow> bool" where
  "is_paused Paused = True"
| "is_paused _ = False"

fun is_stopped :: "TorrentState \<Rightarrow> bool" where
  "is_stopped Stopped = True"
| "is_stopped _ = False"

definition TorrentState_default :: TorrentState where
  "TorrentState_default = Paused"

section \<open>Configuration\<close>

definition TorrentConfigBuilder_default :: TorrentConfigBuilder where
  "TorrentConfigBuilder_default =
     \<lparr>tb_state = None, tb_bitfield = None, tb_info_hash = None, tb_piece_length = None,
      tb_last_piece_length = None\<rparr>"

definition config_state :: "TorrentState \<Rightarrow> TorrentConfigBuilder \<Rightarrow> TorrentConfigBuilder" where
  [simp]: "config_state state b = b\<lparr>tb_state := Some state\<rparr>"

definition config_bitfield :: "BitField \<Rightarrow> TorrentConfigBuilder \<Rightarrow> TorrentConfigBuilder" where
  [simp]: "config_bitfield bitfield b = b\<lparr>tb_bitfield := Some bitfield\<rparr>"

definition config_info_hash :: "ShaHash \<Rightarrow> TorrentConfigBuilder \<Rightarrow> TorrentConfigBuilder" where
  [simp]: "config_info_hash info_hash b = b\<lparr>tb_info_hash := Some info_hash\<rparr>"

definition config_piece_length :: "u64 \<Rightarrow> TorrentConfigBuilder \<Rightarrow> TorrentConfigBuilder" where
  [simp]: "config_piece_length piece_length b = b\<lparr>tb_piece_length := Some piece_length\<rparr>"

definition config_last_piece_length :: "u64 \<Rightarrow> TorrentConfigBuilder \<Rightarrow> TorrentConfigBuilder" where
  [simp]: "config_last_piece_length len b = b\<lparr>tb_last_piece_length := Some len\<rparr>"

definition TorrentConfigBuilder_build ::
  "TorrentConfigBuilder \<Rightarrow> SeedLeechConfig \<Rightarrow> string + TorrentConfig" where
  "TorrentConfigBuilder_build b seed_leech =
     (let state = (case tb_state b of Some s \<Rightarrow> s | None \<Rightarrow> TorrentState_default) in
      case tb_bitfield b of
        None \<Rightarrow> Inl ''field bitfield must be? initialized.''
      | Some bitfield \<Rightarrow>
          (case tb_info_hash b of
             None \<Rightarrow> Inl ''field info_hash must be initialized.''
           | Some info_hash \<Rightarrow>
               (case tb_piece_length b of
                  None \<Rightarrow> Inl ''field piece_length? must be initialized.''
                | Some piece_length \<Rightarrow>
                    (case tb_last_piece_length b of
                       None \<Rightarrow> Inl ''field? last_piece_length must be initialized.''
                     | Some last_length \<Rightarrow>
                         Inr \<lparr>tc_info_hash = info_hash, tc_state = state, tc_bitfield = bitfield,
                              tc_piece_length = piece_length, tc_last_piece_length = last_length,
                              tc_seed_leech = seed_leech\<rparr>))))"

definition into_seed :: "TorrentConfigBuilder \<Rightarrow> string + TorrentConfig" where
  "into_seed b = TorrentConfigBuilder_build b SeedOnly"

definition into_leech :: "TorrentConfigBuilder \<Rightarrow> string + TorrentConfig" where
  "into_leech b = TorrentConfigBuilder_build b SeedAndLeech"

definition new_leech :: "bool \<Rightarrow> MetaInfo \<Rightarrow> TorrentState \<Rightarrow> TorrentConfig panics" where
  "new_leech checks torrent state = do {
     last_length \<leftarrow> last_piece_length checks (mi_info torrent);
     case into_leech
       (config_last_piece_length last_length
         (config_piece_length (ti_piece_length (mi_info torrent))
           (config_state state
             (config_bitfield (new_all_clear (length (ti_pieces (mi_info torrent))))
               (config_info_hash (mi_info_hash torrent) TorrentConfigBuilder_default))))) of
       Inr c \<Rightarrow> Some c
     | Inl _ \<Rightarrow> None
   }"

definition new_seed :: "bool \<Rightarrow> MetaInfo \<Rightarrow> TorrentState \<Rightarrow> TorrentConfig panics" where
  "new_seed checks torrent state = do {
     last_length \<leftarrow> last_piece_length checks (mi_info torrent);
     case into_seed
       (config_last_piece_length last_length
         (config_piece_length (ti_piece_length (mi_info torrent))
           (config_state state
             (config_bitfield (new_all_set (length (ti_pieces (mi_info torrent))))
               (config_info_hash (mi_info_hash torrent) TorrentConfigBuilder_default))))) of
       Inr c \<Rightarrow> Some c
     | Inl _ \<Rightarrow> None
   }"

section \<open>Operations of a torrent\<close>

definition Torrent_new ::
  "Instant \<Rightarrow> TorrentId \<Rightarrow> ShaHash \<Rightarrow> TorrentPieceHandler \<Rightarrow> SeedLeechConfig \<Rightarrow> TorrentState \<Rightarrow> Torrent" where
  "Torrent_new clock tid info_hash piece_handler seed_leech state =
     \<lparr>t_id = tid, t_info_hash = info_hash, t_piece_handler = piece_handler, t_created = clock,
      t_seed_leech = seed_leech, t_state = state\<rparr>"

text \<open>An operation of the piece handler, run on the torrent's own.\<close>

definition on_handler ::
  "(TorrentPieceHandler \<Rightarrow> 'a \<times> TorrentPieceHandler) \<Rightarrow> Torrent \<Rightarrow> 'a \<times> Torrent" where
  "on_handler f t = (case f (t_piece_handler t) of (r, h) \<Rightarrow> (r, t\<lparr>t_piece_handler := h\<rparr>))"

text \<open>
  A write through \<^verbatim>\<open>get_peer_mut\<close>: when the peer is tracked, \<open>f\<close> computes the answer and the new
  peer.
\<close>

definition with_peer ::
  "PeerId \<Rightarrow> (BitTorrentPeer \<Rightarrow> 'a \<times> BitTorrentPeer) \<Rightarrow> TorrentPieceHandler
    \<Rightarrow> 'a option \<times> TorrentPieceHandler" where
  "with_peer peer_id f h =
     (case hm_get (ph_peers h) peer_id of
        Some peer \<Rightarrow>
          (case f peer of (r, peer') \<Rightarrow>
             (Some r, h\<lparr>ph_peers := hm_insert peer_id peer' (ph_peers h)\<rparr>))
      | None \<Rightarrow> (None, h))"

definition iter_peer_ids :: "Torrent \<Rightarrow> PeerId list" where
  "iter_peer_ids t = keys (ph_peers (t_piece_handler t))"

definition iter_peers :: "Torrent \<Rightarrow> BitTorrentPeer list" where
  "iter_peers t = map snd (ph_peers (t_piece_handler t))"

definition t_remove_peer :: "PeerId \<Rightarrow> Torrent \<Rightarrow> BitTorrentPeer option \<times> Torrent" where
  "t_remove_peer peer_id = on_handler (ph_remove_peer peer_id)"

definition t_add_block :: "PeerId \<Rightarrow> Block \<Rightarrow> Torrent \<Rightarrow> (BlockErr + BlockMetadata) \<times> Torrent" where
  "t_add_block peer_id block = on_handler (ph_add_block peer_id block)"

definition t_set_piece :: "usize \<Rightarrow> Torrent \<Rightarrow> (unit + unit) \<times> Torrent" where
  "t_set_piece piece_index = on_handler (set_piece piece_index)"

definition t_bitfield :: "Torrent \<Rightarrow> BitField" where
  "t_bitfield t = ph_bitfield (t_piece_handler t)"

text \<open>
  The heartbeat loop of \<^verbatim>\<open>Torrent::poll\<close>: the first peer whose client or remote heartbeat timed
  out ends the poll; the peers before it are unchanged.
\<close>

fun heartbeat_loop ::
  "TorrentId \<Rightarrow> Instant \<Rightarrow> Instant \<Rightarrow> (PeerId, BitTorrentPeer) hash_map
    \<Rightarrow> (TorrentPoolState option \<times> (PeerId, BitTorrentPeer) hash_map) panics" where
  "heartbeat_loop tid now clock [] = Some (None, [])"
| "heartbeat_loop tid now clock ((pid, peer) # rest) = do {
     client \<leftarrow> is_client_timeout peer now;
     if client then Some (Some (KeepAlive tid pid), (pid, peer\<lparr>client_heartbeat := clock\<rparr>) # rest)
     else do {
       remote \<leftarrow> is_remote_timeout peer now;
       if remote then Some (Some (Timeout tid pid), (pid, peer) # rest)
       else do {
         (st, rest') \<leftarrow> heartbeat_loop tid now clock rest;
         Some (st, (pid, peer) # rest')
       }
     }
   }"

definition t_poll ::
  "(usize list \<Rightarrow> usize list) \<Rightarrow> Instant \<Rightarrow> Instant \<Rightarrow> Torrent \<Rightarrow> (TorrentPoolState \<times> Torrent) panics" where
  "t_poll shuffle now clock t = do {
     (hb, peers) \<leftarrow> heartbeat_loop (t_id t) now clock (ph_peers (t_piece_handler t));
     let t1 = t\<lparr>t_piece_handler := (t_piece_handler t)\<lparr>ph_peers := peers\<rparr>\<rparr>;
     case hb of
       Some st \<Rightarrow> Some (st, t1)
     | None \<Rightarrow>
         (case ph_poll shuffle (t_piece_handler t1) of (st, h) \<Rightarrow>
            let t2 = t1\<lparr>t_piece_handler := h\<rparr> in
            (case st of
               WaitingPeers \<Rightarrow> Some (Waiting (t_id t2), t2)
             | LeechBlock block \<Rightarrow>
                 (case block of
                    Some block \<Rightarrow> Some (NextBlock block, t2)
                  | None \<Rightarrow> Some (Waiting (t_id t2), t2))
             | PieceFinished res \<Rightarrow>
                 Some (PieceReady (case res of Inr x \<Rightarrow> Inr (t_id t2, x) | Inl e \<Rightarrow> Inl e), t2)
             | TorrentPieceHandlerState.Finished \<Rightarrow>
                 Some (Finished (t_id t2), t2\<lparr>t_seed_leech := SeedOnly\<rparr>)
             | Endgame \<Rightarrow> None
             | Seed \<Rightarrow> Some (Idle, t2)))
   }"

definition t_keep_alive_by_remote :: "PeerId \<Rightarrow> Instant \<Rightarrow> Torrent \<Rightarrow> Instant option \<times> Torrent" where
  "t_keep_alive_by_remote peer_id heartbeat =
     on_handler (with_peer peer_id
       (\<lambda>peer. (remote_heartbeat peer, peer\<lparr>remote_heartbeat := heartbeat\<rparr>)))"

definition t_keep_alive_by_client :: "PeerId \<Rightarrow> Instant \<Rightarrow> Torrent \<Rightarrow> Instant option \<times> Torrent" where
  "t_keep_alive_by_client peer_id heartbeat =
     on_handler (with_peer peer_id
       (\<lambda>peer. (client_heartbeat peer, peer\<lparr>client_heartbeat := heartbeat\<rparr>)))"

definition t_choked_by_remote :: "PeerId \<Rightarrow> Torrent \<Rightarrow> ChokeType option \<times> Torrent" where
  "t_choked_by_remote peer_id = on_handler (set_choke_on_remote peer_id Choked)"

definition t_unchoked_by_remote :: "PeerId \<Rightarrow> Torrent \<Rightarrow> ChokeType option \<times> Torrent" where
  "t_unchoked_by_remote peer_id = on_handler (set_choke_on_remote peer_id UnChoked)"

fun t_choke_by_remote :: "PeerId \<Rightarrow> ChokeType \<Rightarrow> Torrent \<Rightarrow> ChokeType option \<times> Torrent" where
  "t_choke_by_remote peer_id Choked t = t_choked_by_remote peer_id t"
| "t_choke_by_remote peer_id UnChoked t = t_unchoked_by_remote peer_id t"

definition t_remote_interested :: "PeerId \<Rightarrow> Torrent \<Rightarrow> InterestType option \<times> Torrent" where
  "t_remote_interested peer_id = on_handler (set_interest_on_remote peer_id InterestType.Interested)"

definition t_remote_not_interested :: "PeerId \<Rightarrow> Torrent \<Rightarrow> InterestType option \<times> Torrent" where
  "t_remote_not_interested peer_id =
     on_handler (set_interest_on_remote peer_id InterestType.NotInterested)"

definition t_set_client_interest ::
  "PeerId \<Rightarrow> InterestType \<Rightarrow> Torrent \<Rightarrow> InterestType option \<times> Torrent" where
  "t_set_client_interest peer_id interest = on_handler (set_client_interest peer_id interest)"

definition t_set_choke_for_remote :: "PeerId \<Rightarrow> ChokeType \<Rightarrow> Torrent \<Rightarrow> ChokeType option \<times> Torrent" where
  "t_set_choke_for_remote peer_id choke =
     on_handler (with_peer peer_id (\<lambda>peer. (client_choke peer, peer\<lparr>client_choke := choke\<rparr>)))"

definition t_unchoke_remote :: "PeerId \<Rightarrow> Torrent \<Rightarrow> ChokeType option \<times> Torrent" where
  "t_unchoke_remote peer = t_set_choke_for_remote peer UnChoked"

definition t_choke_remote :: "PeerId \<Rightarrow> Torrent \<Rightarrow> ChokeType option \<times> Torrent" where
  "t_choke_remote peer = t_set_choke_for_remote peer Choked"

definition t_remote_have :: "PeerId \<Rightarrow> usize \<Rightarrow> Torrent \<Rightarrow> bool option \<times> Torrent" where
  "t_remote_have peer_id piece_index t =
     (case on_handler (with_peer peer_id (\<lambda>peer. add_piece peer piece_index)) t of
        (r, t') \<Rightarrow> (Option.bind r (\<lambda>x. x), t'))"

definition can_seed_piece_to :: "Torrent \<Rightarrow> PeerId \<Rightarrow> usize \<Rightarrow> bool" where
  "can_seed_piece_to t peer_id piece_index =
     (case hm_get (ph_peers (t_piece_handler t)) peer_id of
        Some peer \<Rightarrow>
          ph_has_piece (t_piece_handler t) piece_index \<and> remote_can_leech peer \<and>
          is_ready_to_seed_block (t_piece_handler t) peer_id
      | None \<Rightarrow> False)"

definition can_leech_piece_from :: "Torrent \<Rightarrow> PeerId \<Rightarrow> usize \<Rightarrow> bool" where
  "can_leech_piece_from t peer_id piece_index =
     (case hm_get (ph_peers (t_piece_handler t)) peer_id of
        Some peer \<Rightarrow> remote_can_seed_piece peer piece_index
      | None \<Rightarrow> False)"

definition contains_peer :: "Torrent \<Rightarrow> PeerId \<Rightarrow> bool" where
  "contains_peer t peer_id = hm_contains_key (ph_peers (t_piece_handler t)) peer_id"

text \<open>A heartbeat is overdue from 121 seconds on: the comparison is in whole seconds.\<close>

definition overdue :: "Instant \<Rightarrow> Instant \<Rightarrow> bool" where
  "overdue now heartbeat \<longleftrightarrow> 121 * 1000000000 \<le> now - heartbeat"

definition heartbeats_past :: "Instant \<Rightarrow> (PeerId, BitTorrentPeer) hash_map \<Rightarrow> bool" where
  "heartbeats_past now peers \<longleftrightarrow>
     (\<forall>(p, peer) \<in> set peers. client_heartbeat peer \<le> now \<and> remote_heartbeat peer \<le> now)"

section \<open>Lemmas\<close>

lemma overdue_secs: "(now - hb) div 1000000000 > 120 \<longleftrightarrow> overdue now hb"
  unfolding overdue_def
  using less_eq_div_iff_mult_less_eq [of 1000000000 121 "now - hb"] by auto

lemma timeouts [simp]:
  "client_heartbeat peer \<le> now \<Longrightarrow> is_client_timeout peer now = Some (overdue now (client_heartbeat peer))"
  "remote_heartbeat peer \<le> now \<Longrightarrow> is_remote_timeout peer now = Some (overdue now (remote_heartbeat peer))"
  using overdue_secs by (auto simp: is_client_timeout_def is_remote_timeout_def secs_since_def)

lemma heartbeat_loop_cases:
  assumes "heartbeats_past now peers"
  obtains
    (alive) "heartbeat_loop tid now clock peers = Some (None, peers)"
      "\<forall>(p, peer) \<in> set peers.
         \<not> overdue now (client_heartbeat peer) \<and> \<not> overdue now (remote_heartbeat peer)"
  | (client) xs p peer ys where "peers = xs @ (p, peer) # ys"
      "overdue now (client_heartbeat peer)"
      "heartbeat_loop tid now clock peers = Some (Some (KeepAlive tid p),
         xs @ (p, peer\<lparr>client_heartbeat := clock\<rparr>) # ys)"
  | (remote) xs p peer ys where "peers = xs @ (p, peer) # ys"
      "overdue now (remote_heartbeat peer)"
      "heartbeat_loop tid now clock peers = Some (Some (Timeout tid p), peers)"
  using assms
proof (induction peers arbitrary: thesis)
  case Nil
  show ?case by (rule Nil.prems(1)) simp_all
next
  case (Cons e peers)
  obtain p peer where e: "e = (p, peer)" by fastforce
  with Cons.prems(4) have past: "client_heartbeat peer \<le> now" "remote_heartbeat peer \<le> now"
    and rest: "heartbeats_past now peers" by (auto simp: heartbeats_past_def)
  consider "overdue now (client_heartbeat peer)"
    | "\<not> overdue now (client_heartbeat peer)" "overdue now (remote_heartbeat peer)"
    | "\<not> overdue now (client_heartbeat peer)" "\<not> overdue now (remote_heartbeat peer)" by blast
  then show ?case
  proof cases
    case 1
    show ?thesis by (rule Cons.prems(2) [of "[]" p peer peers]) (use 1 past e in simp_all)
  next
    case 2
    show ?thesis by (rule Cons.prems(3) [of "[]" p peer peers]) (use 2 past e in simp_all)
  next
    case 3
    show ?thesis
    proof (rule Cons.IH [OF _ _ _ rest])
      assume "heartbeat_loop tid now clock peers = Some (None, peers)"
        "\<forall>(p, peer) \<in> set peers.
           \<not> overdue now (client_heartbeat peer) \<and> \<not> overdue now (remote_heartbeat peer)"
      then show thesis by (intro Cons.prems(1)) (use 3 past e in auto)
    next
      fix xs q peer' ys
      assume "peers = xs @ (q, peer') # ys" "overdue now (client_heartbeat peer')"
        "heartbeat_loop tid now clock peers = Some (Some (KeepAlive tid q),
           xs @ (q, peer'\<lparr>client_heartbeat := clock\<rparr>) # ys)"
      then show thesis by (intro Cons.prems(2) [of "e # xs" q peer' ys]) (use 3 past e in simp_all)
    next
      fix xs q peer' ys
      assume "peers = xs @ (q, peer') # ys" "overdue now (remote_heartbeat peer')"
        "heartbeat_loop tid now clock peers = Some (Some (Timeout tid q), peers)"
      then show thesis by (intro Cons.prems(3) [of "e # xs" q peer' ys]) (use 3 past e in simp_all)
    qed
  qed
qed

lemma ph_poll_not_endgame: "fst (ph_poll shuffle h) \<noteq> Endgame"
  by (auto simp: ph_poll_def Let_def split_beta split: option.splits sum.splits)

lemma hm_insert_split:
  "distinct (keys (xs @ (k, v) # ys)) \<Longrightarrow> hm_insert k w (xs @ (k, v) # ys) = xs @ (k, w) # ys"
  by (induction xs) (auto simp: hm_insert_def)

section \<open>Properties\<close>

text \<open>
  C30. Polling a torrent never panics while no heartbeat lies in the future. It asks for a
  keep-alive only for a tracked peer whose client heartbeat is at least 121 seconds old, and
  then renews exactly that heartbeat; it reports a timeout only for a tracked peer whose remote
  heartbeat is at least 121 seconds old, changing nothing; any other answer means that no
  heartbeat of any peer is overdue.
\<close>

theorem torrent_poll_heartbeats:
  assumes "distinct (keys (ph_peers (t_piece_handler t)))"
    and "\<forall>(p, peer) \<in> set (ph_peers (t_piece_handler t)).
      client_heartbeat peer \<le> now \<and> remote_heartbeat peer \<le> now"
  shows "\<exists>st t'. t_poll shuffle now clock t = Some (st, t') \<and>
    (case st of
       KeepAlive tid p \<Rightarrow> tid = t_id t \<and>
         (\<exists>peer. hm_get (ph_peers (t_piece_handler t)) p = Some peer \<and>
            121 * 1000000000 \<le> now - client_heartbeat peer \<and>
            t' = t\<lparr>t_piece_handler := (t_piece_handler t)\<lparr>ph_peers :=
                   hm_insert p (peer\<lparr>client_heartbeat := clock\<rparr>) (ph_peers (t_piece_handler t))\<rparr>\<rparr>)
     | Timeout tid p \<Rightarrow> tid = t_id t \<and> t' = t \<and>
         (\<exists>peer. hm_get (ph_peers (t_piece_handler t)) p = Some peer \<and>
            121 * 1000000000 \<le> now - remote_heartbeat peer)
     | _ \<Rightarrow> \<forall>(p, peer) \<in> set (ph_peers (t_piece_handler t)).
         now - client_heartbeat peer < 121 * 1000000000 \<and>
         now - remote_heartbeat peer < 121 * 1000000000)"
proof -
  let ?ps = "ph_peers (t_piece_handler t)"
  have "heartbeats_past now ?ps" using assms(2) by (simp add: heartbeats_past_def)
  then show ?thesis
  proof (cases rule: heartbeat_loop_cases [where tid = "t_id t" and clock = clock])
    case alive
    then have ok: "\<forall>(p, peer) \<in> set ?ps. now - client_heartbeat peer < 121 * 1000000000 \<and>
        now - remote_heartbeat peer < 121 * 1000000000" by (auto simp: overdue_def)
    obtain st h where p: "ph_poll shuffle (t_piece_handler t) = (st, h)" by fastforce
    with ph_poll_not_endgame [of shuffle "t_piece_handler t"] have "st \<noteq> Endgame" by simp
    with alive(1) p ok show ?thesis
    proof (cases st)
      case (LeechBlock nb)
      with alive(1) p ok show ?thesis by (cases nb) (simp_all add: t_poll_def Let_def)
    qed (simp_all add: t_poll_def Let_def)
  next
    case (client xs p peer ys)
    with assms(1) hm_insert_split [of xs p peer ys] have "hm_get ?ps p = Some peer"
      "hm_insert p (peer\<lparr>client_heartbeat := clock\<rparr>) ?ps = xs @ (p, peer\<lparr>client_heartbeat := clock\<rparr>) # ys"
      by (simp_all add: hm_get_distinct)
    with client show ?thesis by (simp add: t_poll_def overdue_def)
  next
    case (remote xs p peer ys)
    with assms(1) have "hm_get ?ps p = Some peer" by (simp add: hm_get_distinct)
    with remote show ?thesis by (simp add: t_poll_def overdue_def)
  qed
qed

theorem torrent_poll_heartbeats_witness:
  "let t = Torrent_new 0 (TorrentId 0) [] (snd (insert_peer 7 (BitTorrentPeer_new 0 [])
             (TorrentPieceHandler_new (TorrentId 0) Random [True] 5 5))) SeedOnly Active
   in \<exists>t'. t_poll id 121000000000 121000000001 t = Some (KeepAlive (TorrentId 0) 7, t')"
proof -
  let ?h = "snd (insert_peer 7 (BitTorrentPeer_new 0 [])
    (TorrentPieceHandler_new (TorrentId 0) Random [True] 5 5))"
  let ?t = "Torrent_new 0 (TorrentId 0) [] ?h SeedOnly Active"
  have ps: "ph_peers (t_piece_handler ?t) = [(7, BitTorrentPeer_new 0 [])]"
    by (simp add: Torrent_new_def insert_peer_def TorrentPieceHandler_new_def hm_insert_def Let_def)
  have tid: "t_id ?t = TorrentId 0" by (simp add: Torrent_new_def)
  have hb: "client_heartbeat (BitTorrentPeer_new 0 []) = 0" "remote_heartbeat (BitTorrentPeer_new 0 []) = 0"
    by (simp_all add: BitTorrentPeer_new_def)
  from torrent_poll_heartbeats [of ?t 121000000000 id 121000000001] ps hb
  obtain st t' where "t_poll id 121000000000 121000000001 ?t = Some (st, t')" by auto
  moreover have "fst (the (t_poll id 121000000000 121000000001 ?t)) = KeepAlive (TorrentId 0) 7"
    using tid by (simp add: t_poll_def ps hb overdue_def Let_def)
  ultimately show ?thesis by (simp add: Let_def)
qed

end
