(* ===== verification/Pool.thy ===== *)
theory Pool
  imports Torrents
begin

text \<open>
  The pool of torrents (\<^verbatim>\<open>TorrentPool\<close> in \<^verbatim>\<open>src/peer/torrent.rs\<close>) and the result types its handlers
  return (\<^verbatim>\<open>src/behavior.rs\<close>). The handlers of remote events walk over the torrents of the pool
  and act on the first one that answers; that walk is the function \<open>first_hit\<close>.
\<close>

section \<open>Data\<close>

record TorrentSeed =
  ts_path :: path
  ts_torrent :: MetaInfo

definition TorrentSeed_new :: "path \<Rightarrow> MetaInfo \<Rightarrow> TorrentSeed" where
  "TorrentSeed_new p torrent = \<lparr>ts_path = p, ts_torrent = torrent\<rparr>"

record BitTorrentConfig =
  cf_max_simultaneous_downloads :: "usize option"
  cf_max_active_torrents :: "usize option"
  cf_move_completed_downloads :: "path option"
  cf_resume_leech :: "path list option"
  cf_files_to_seed :: "TorrentSeed list option"
  cf_initial_piece_selection :: "PieceSelection option"
  cf_peer_hash :: "ShaHash option"

definition MAX_ACTIVE_TORRENTS :: usize where
  "MAX_ACTIVE_TORRENTS = 5"

definition BitTorrentConfig_default :: BitTorrentConfig where
  "BitTorrentConfig_default =
     \<lparr>cf_max_simultaneous_downloads = Some MAX_ACTIVE_TORRENTS,
      cf_max_active_torrents = Some MAX_ACTIVE_TORRENTS, cf_move_completed_downloads = None,
      cf_resume_leech = None, cf_files_to_seed = None,
      cf_initial_piece_selection = Some Random, cf_peer_hash = None\<rparr>"

record TorrentPool =
  local_peer_hash :: ShaHash
  local_peer_id :: PeerId
  torrents :: "(TorrentId, Torrent) hash_map"
  peer_timeout :: u64
  max_simultaneous_downloads :: usize
  max_active_torrents :: usize
  move_completed_downloads :: "path option"
  initial_piece_selection_strategy :: PieceSelection
  next_unique_torrent :: usize

datatype HandshakeOk = HandshakeOk PeerId

datatype HandshakeError =
    InfoHashMismatch PeerId "TorrentId option"
  | InfoHashNotFound PeerId ShaHash
  | InvalidPeer PeerId "TorrentId option"
  | HandshakeTimeout PeerId

datatype PeerError = NotFound PeerId

datatype KeepAliveOk =
    RemoteAlive TorrentId PeerId Instant Instant
  | ClientAlive TorrentId PeerId Instant Instant

datatype InterestOk = InterestedOk PeerId | NotInterestedOk PeerId

section \<open>Operations\<close>

text \<open>\<open>random_hash\<close> is the value \<^verbatim>\<open>ShaHash::random()\<close> would give.\<close>

definition TorrentPool_new :: "ShaHash \<Rightarrow> PeerId \<Rightarrow> BitTorrentConfig \<Rightarrow> TorrentPool" where
  "TorrentPool_new random_hash peer_id config =
     \<lparr>local_peer_hash = (case cf_peer_hash config of Some h \<Rightarrow> h | None \<Rightarrow> random_hash),
      local_peer_id = peer_id, torrents = [], peer_timeout = 120,
      max_simultaneous_downloads =
        (case cf_max_simultaneous_downloads config of Some n \<Rightarrow> n | None \<Rightarrow> MAX_ACTIVE_TORRENTS),
      max_active_torrents =
        (case cf_max_active_torrents config of Some n \<Rightarrow> n | None \<Rightarrow> MAX_ACTIVE_TORRENTS),
      move_completed_downloads = cf_move_completed_downloads config,
      initial_piece_selection_strategy =
        (case cf_initial_piece_selection config of Some s \<Rightarrow> s | None \<Rightarrow> Random),
      next_unique_torrent = 0\<rparr>"

definition iter_active :: "TorrentPool \<Rightarrow> Torrent list" where
  "iter_active pool = filter (\<lambda>t. is_active (t_state t)) (map snd (torrents pool))"

definition add_torrent ::
  "Instant \<Rightarrow> TorrentConfig \<Rightarrow> TorrentPool \<Rightarrow> (ShaHash + TorrentId \<times> TorrentState) \<times> TorrentPool" where
  "add_torrent clock torrent pool =
     (if list_ex (\<lambda>x. t_info_hash x = tc_info_hash torrent) (map snd (torrents pool))
      then (Inl (tc_info_hash torrent), pool)
      else
        let state =
              (if is_active (tc_state torrent) then
                 if length (iter_active pool) < max_active_torrents pool then Active else Paused
               else tc_state torrent);
            tid = TorrentId (next_unique_torrent pool);
            t = Torrent_new clock tid (tc_info_hash torrent)
                  (TorrentPieceHandler_new tid (initial_piece_selection_strategy pool)
                     (tc_bitfield torrent) (tc_piece_length torrent) (tc_last_piece_length torrent))
                  (tc_seed_leech torrent) (tc_state torrent)
        in (Inr (tid, state),
            pool\<lparr>next_unique_torrent := next_unique_torrent pool + 1,
                 torrents := hm_insert tid t (torrents pool)\<rparr>))"

text \<open>
  \<^verbatim>\<open>for torrent in self.torrents.values_mut()\<close> with a return at the first torrent for which the
  operation answers \<^verbatim>\<open>Some\<close>.
\<close>

fun first_hit ::
  "('v \<Rightarrow> 'a option \<times> 'v) \<Rightarrow> ('k, 'v) hash_map \<Rightarrow> ('v \<times> 'a) option \<times> ('k, 'v) hash_map" where
  "first_hit f [] = (None, [])"
| "first_hit f ((k, v) # m) =
     (case f v of
        (Some a, v') \<Rightarrow> (Some (v', a), (k, v') # m)
      | (None, v') \<Rightarrow> (case first_hit f m of (r, m') \<Rightarrow> (r, (k, v') # m')))"

definition on_first ::
  "(Torrent \<Rightarrow> 'a option \<times> Torrent) \<Rightarrow> TorrentPool \<Rightarrow> (Torrent \<times> 'a) option \<times> TorrentPool" where
  "on_first f pool = (case first_hit f (torrents pool) of (r, ts) \<Rightarrow> (r, pool\<lparr>torrents := ts\<rparr>))"

text \<open>\<^verbatim>\<open>self.torrents.get_mut(&id)\<close> followed by an operation on the torrent.\<close>

definition on_torrent ::
  "TorrentId \<Rightarrow> (Torrent \<Rightarrow> 'a \<times> Torrent) \<Rightarrow> TorrentPool \<Rightarrow> 'a option \<times> TorrentPool" where
  "on_torrent tid f pool =
     (case hm_get (torrents pool) tid of
        Some t \<Rightarrow>
          (case f t of (r, t') \<Rightarrow> (Some r, pool\<lparr>torrents := hm_insert tid t' (torrents pool)\<rparr>))
      | None \<Rightarrow> (None, pool))"

definition unchoke_remote :: "PeerId \<Rightarrow> TorrentPool \<Rightarrow> (unit + TorrentId) \<times> TorrentPool" where
  "unchoke_remote peer_id pool =
     (case on_first (t_unchoke_remote peer_id) pool of
        (Some (t, _), pool') \<Rightarrow> (Inr (t_id t), pool')
      | (None, pool') \<Rightarrow> (Inl (), pool'))"

definition choke_remote :: "PeerId \<Rightarrow> TorrentPool \<Rightarrow> (unit + TorrentId) \<times> TorrentPool" where
  "choke_remote peer_id pool =
     (case on_first (t_choke_remote peer_id) pool of
        (Some (t, _), pool') \<Rightarrow> (Inr (t_id t), pool')
      | (None, pool') \<Rightarrow> (Inl (), pool'))"

definition is_remote_interesting :: "TorrentPool \<Rightarrow> TorrentId \<Rightarrow> PeerId \<Rightarrow> bool panics" where
  "is_remote_interesting pool torrent_id peer_id =
     (case hm_get (torrents pool) torrent_id of
        Some torrent \<Rightarrow>
          if is_leeching (t_seed_leech torrent) then
            (case hm_get (ph_peers (t_piece_handler torrent)) peer_id of
               Some peer \<Rightarrow> is_having_missing_pieces_for peer (t_bitfield torrent)
             | None \<Rightarrow> Some False)
          else Some False
      | None \<Rightarrow> Some False)"

definition pool_set_client_interest ::
  "TorrentId \<Rightarrow> PeerId \<Rightarrow> InterestType \<Rightarrow> TorrentPool \<Rightarrow> InterestType option \<times> TorrentPool" where
  "pool_set_client_interest torrent_id peer_id interest pool =
     (case on_torrent torrent_id (t_set_client_interest peer_id interest) pool of
        (Some r, pool') \<Rightarrow> (r, pool')
      | (None, pool') \<Rightarrow> (None, pool'))"

definition get_for_info_hash :: "TorrentPool \<Rightarrow> ShaHash \<Rightarrow> Torrent option" where
  "get_for_info_hash pool info_hash =
     (case filter (\<lambda>x. t_info_hash x = info_hash) (map snd (torrents pool)) of
        t # _ \<Rightarrow> Some t
      | [] \<Rightarrow> None)"

definition is_associated :: "TorrentPool \<Rightarrow> PeerId \<Rightarrow> bool" where
  "is_associated pool peer_id = list_ex (\<lambda>t. contains_peer t peer_id) (map snd (torrents pool))"

definition on_handshake_request ::
  "Instant \<Rightarrow> PeerId \<Rightarrow> Handshake \<Rightarrow> TorrentPool \<Rightarrow> (HandshakeError + Handshake) \<times> TorrentPool" where
  "on_handshake_request clock peer_id handshake pool =
     (if is_associated pool peer_id then (Inl (InvalidPeer peer_id None), pool)
      else
        (case on_first
                (\<lambda>t. if t_info_hash t = hs_info_hash handshake
                     then (case on_handler (insert_peer peer_id
                                  (BitTorrentPeer_new clock (hs_peer_id handshake))) t of
                             (_, t') \<Rightarrow> (Some (), t'))
                     else (None, t)) pool of
           (Some _, pool') \<Rightarrow>
             (Inr (Handshake_new (hs_info_hash handshake) (local_peer_hash pool')), pool')
         | (None, pool') \<Rightarrow> (Inl (InfoHashMismatch peer_id None), pool')))"

definition on_handshake_response ::
  "Instant \<Rightarrow> PeerId \<Rightarrow> TorrentId \<Rightarrow> Handshake \<Rightarrow> TorrentPool
    \<Rightarrow> (HandshakeError + HandshakeOk \<times> BitField) \<times> TorrentPool" where
  "on_handshake_response clock peer_id torrent_id handshake pool =
     (case on_torrent torrent_id
             (\<lambda>t. if t_info_hash t = hs_info_hash handshake
                  then (case on_handler (insert_peer peer_id
                               (BitTorrentPeer_new clock (hs_peer_id handshake))) t of
                          (_, t') \<Rightarrow> (Inr (HandshakeOk peer_id, t_bitfield t'), t'))
                  else (Inl (InfoHashMismatch peer_id (Some torrent_id)), t)) pool of
        (Some r, pool') \<Rightarrow> (r, pool')
      | (None, pool') \<Rightarrow> (Inl (InvalidPeer peer_id (Some torrent_id)), pool'))"

definition on_choke_by_remote ::
  "PeerId \<Rightarrow> ChokeType \<Rightarrow> TorrentPool \<Rightarrow> (TorrentId \<times> ChokeType) option \<times> TorrentPool" where
  "on_choke_by_remote peer_id choke pool =
     (case on_first (t_choke_by_remote peer_id choke) pool of
        (Some (t, old), pool') \<Rightarrow> (Some (t_id t, old), pool')
      | (None, pool') \<Rightarrow> (None, pool'))"

definition on_keep_alive_by_remote ::
  "PeerId \<Rightarrow> Instant \<Rightarrow> TorrentPool \<Rightarrow> (PeerError + KeepAliveOk) \<times> TorrentPool" where
  "on_keep_alive_by_remote peer new_heartbeat pool =
     (case on_first (t_keep_alive_by_remote peer new_heartbeat) pool of
        (Some (t, old_heartbeat), pool') \<Rightarrow>
          (Inr (RemoteAlive (t_id t) peer old_heartbeat new_heartbeat), pool')
      | (None, pool') \<Rightarrow> (Inl (NotFound peer), pool'))"

definition on_interest_by_remote ::
  "PeerId \<Rightarrow> InterestType \<Rightarrow> TorrentPool \<Rightarrow> (PeerError + InterestOk) \<times> TorrentPool" where
  "on_interest_by_remote peer_id interest pool =
     (case on_first
             (case interest of
                InterestType.NotInterested \<Rightarrow> t_remote_not_interested peer_id
              | InterestType.Interested \<Rightarrow> t_remote_interested peer_id) pool of
        (Some _, pool') \<Rightarrow>
          (case interest of
             InterestType.Interested \<Rightarrow> (Inr (InterestedOk peer_id), pool')
           | InterestType.NotInterested \<Rightarrow> (Inr (NotInterestedOk peer_id), pool'))
      | (None, pool') \<Rightarrow> (Inl (NotFound peer_id), pool'))"

definition on_piece_request ::
  "PeerId \<Rightarrow> BlockMetadata \<Rightarrow> BitTorrentRequestId \<Rightarrow> TorrentPool
    \<Rightarrow> ((PeerId \<times> BlockMetadata \<times> BitTorrentRequestId) + TorrentId \<times> BlockMetadata) \<times> TorrentPool" where
  "on_piece_request peer_id metadata request_id pool =
     (case on_first
             (\<lambda>t. if can_seed_piece_to t peer_id (bm_piece_index metadata)
                  then (Some (), t\<lparr>t_piece_handler :=
                          insert_block_seed peer_id metadata request_id (t_piece_handler t)\<rparr>)
                  else (None, t)) pool of
        (Some (t, _), pool') \<Rightarrow> (Inr (t_id t, metadata), pool')
      | (None, pool') \<Rightarrow> (Inl (peer_id, metadata, request_id), pool'))"

definition on_block_response ::
  "TorrentId \<Rightarrow> PeerId \<Rightarrow> Block \<Rightarrow> TorrentPool \<Rightarrow> (BlockErr + BlockMetadata) \<times> TorrentPool" where
  "on_block_response torrent_id peer_id block pool =
     (case on_torrent torrent_id (t_add_block peer_id block) pool of
        (Some r, pool') \<Rightarrow> (r, pool')
      | (None, pool') \<Rightarrow> (Inl (NotRequested peer_id block), pool'))"

definition on_cancel_request ::
  "BitTorrentRequestId \<Rightarrow> TorrentPool \<Rightarrow> (PeerId \<times> BlockMetadata) option \<times> TorrentPool" where
  "on_cancel_request rid pool =
     (case on_first (on_handler (remove_pending_seed_by_request rid)) pool of
        (Some (_, r), pool') \<Rightarrow> (Some r, pool')
      | (None, pool') \<Rightarrow> (None, pool'))"

definition on_block_read ::
  "TorrentId \<Rightarrow> BlockMetadata \<Rightarrow> TorrentPool
    \<Rightarrow> (PeerId \<times> BitTorrentRequestId) option \<times> TorrentPool" where
  "on_block_read torrent_id block pool =
     (case on_torrent torrent_id (on_handler (clear_pending_seed_block block)) pool of
        (Some r, pool') \<Rightarrow> (r, pool')
      | (None, pool') \<Rightarrow> (None, pool'))"

definition on_remote_have :: "PeerId \<Rightarrow> usize \<Rightarrow> TorrentPool \<Rightarrow> bool option \<times> TorrentPool" where
  "on_remote_have peer_id piece_index pool =
     (case on_first (t_remote_have peer_id piece_index) pool of
        (Some (_, b), pool') \<Rightarrow> (Some b, pool')
      | (None, pool') \<Rightarrow> (None, pool'))"

definition set_peer_bitfield ::
  "PeerId \<Rightarrow> TorrentId \<Rightarrow> BitField \<Rightarrow> TorrentPool \<Rightarrow> bool \<times> TorrentPool" where
  "set_peer_bitfield peer_id torrent_id bitfield pool =
     (case on_torrent torrent_id
             (on_handler (with_peer peer_id (\<lambda>peer. set_bitfield peer bitfield))) pool of
        (Some (Some _), pool') \<Rightarrow> (True, pool')
      | (_, pool') \<Rightarrow> (False, pool'))"

definition on_bitfield_request ::
  "PeerId \<Rightarrow> BitField \<Rightarrow> TorrentPool \<Rightarrow> BitField option \<times> TorrentPool" where
  "on_bitfield_request peer_id bitfield pool =
     (case on_first (on_handler (with_peer peer_id (\<lambda>peer. set_bitfield peer bitfield))) pool of
        (Some (t, _), pool') \<Rightarrow> (Some (ph_bitfield (t_piece_handler t)), pool')
      | (None, pool') \<Rightarrow> (None, pool'))"

definition remove_peer :: "PeerId \<Rightarrow> TorrentPool \<Rightarrow> BitTorrentPeer option \<times> TorrentPool" where
  "remove_peer peer_id pool =
     (case on_first (t_remove_peer peer_id) pool of
        (Some (_, peer), pool') \<Rightarrow> (Some peer, pool')
      | (None, pool') \<Rightarrow> (None, pool'))"

definition iter_candidate_peers :: "TorrentPool \<Rightarrow> ShaHash \<Rightarrow> BitTorrentPeer list" where
  "iter_candidate_peers pool info_hash =
     concat (map iter_peers (filter (\<lambda>t. t_info_hash t \<noteq> info_hash) (map snd (torrents pool))))"

definition iter_candidate_peer_ids :: "TorrentPool \<Rightarrow> ShaHash \<Rightarrow> PeerId list" where
  "iter_candidate_peer_ids pool info_hash =
     concat (map iter_peer_ids (filter (\<lambda>t. t_info_hash t \<noteq> info_hash) (map snd (torrents pool))))"

definition iter_leeching :: "TorrentPool \<Rightarrow> Torrent list" where
  "iter_leeching pool = filter (\<lambda>t. t_seed_leech t \<noteq> SeedOnly) (map snd (torrents pool))"

definition iter_seeding :: "TorrentPool \<Rightarrow> Torrent list" where
  "iter_seeding pool = filter (\<lambda>t. t_seed_leech t \<noteq> LeechOnly) (map snd (torrents pool))"

definition iter_complete_seeds :: "TorrentPool \<Rightarrow> Torrent list" where
  "iter_complete_seeds pool = filter (\<lambda>t. t_seed_leech t = SeedOnly) (map snd (torrents pool))"

text \<open>\<^verbatim>\<open>TorrentPool::poll\<close>: the first active torrent that has something to report.\<close>

fun pool_poll_loop ::
  "(usize list \<Rightarrow> usize list) \<Rightarrow> Instant \<Rightarrow> Instant \<Rightarrow> (TorrentId, Torrent) hash_map
    \<Rightarrow> (TorrentPoolState \<times> (TorrentId, Torrent) hash_map) panics" where
  "pool_poll_loop shuffle now clock [] = Some (Idle, [])"
| "pool_poll_loop shuffle now clock ((k, t) # rest) =
     (if is_active (t_state t) then do {
        (st, t') \<leftarrow> t_poll shuffle now clock t;
        (case st of
           Idle \<Rightarrow> do { (r, rest') \<leftarrow> pool_poll_loop shuffle now clock rest; Some (r, (k, t') # rest') }
         | Waiting _ \<Rightarrow> do { (r, rest') \<leftarrow> pool_poll_loop shuffle now clock rest; Some (r, (k, t') # rest') }
         | ready \<Rightarrow> Some (ready, (k, t') # rest))
      }
      else do { (r, rest') \<leftarrow> pool_poll_loop shuffle now clock rest; Some (r, (k, t) # rest') })"

definition pool_poll ::
  "(usize list \<Rightarrow> usize list) \<Rightarrow> Instant \<Rightarrow> Instant \<Rightarrow> TorrentPool
    \<Rightarrow> (TorrentPoolState \<times> TorrentPool) panics" where
  "pool_poll shuffle now clock pool = do {
     (st, ts) \<leftarrow> pool_poll_loop shuffle now clock (torrents pool);
     Some (st, pool\<lparr>torrents := ts\<rparr>)
   }"

section \<open>A concrete pool\<close>

text \<open>A pool that seeds one piece to one interested, unchoked peer.\<close>

definition demo_config :: TorrentConfig where
  "demo_config = \<lparr>tc_info_hash = [1], tc_state = Active, tc_bitfield = [True], tc_piece_length = 5,
     tc_last_piece_length = 5, tc_seed_leech = SeedOnly\<rparr>"

definition demo_empty :: TorrentPool where
  "demo_empty = TorrentPool_new [] 0 BitTorrentConfig_default"

definition demo_added :: TorrentPool where
  "demo_added = snd (add_torrent 0 demo_config demo_empty)"

definition demo_pool :: TorrentPool where
  "demo_pool = snd (on_interest_by_remote 1 InterestType.Interested (snd (unchoke_remote 1
     (snd (on_handshake_request 0 1 (Handshake_new [1] [2]) demo_added)))))"

section \<open>The invariant of the pool\<close>

text \<open>
  What every torrent of the pool keeps: the handler belongs to the torrent, peers are tracked
  once, and a peer waits for at most one block.
\<close>

definition handler_ok :: "TorrentId \<Rightarrow> TorrentPieceHandler \<Rightarrow> bool" where
  "handler_ok k h \<longleftrightarrow>
     ph_id h = k \<and> distinct (keys (ph_peers h)) \<and> distinct (map fst (ph_pending_seed_blocks h))"

definition torrent_ok :: "TorrentId \<Rightarrow> Torrent \<Rightarrow> bool" where
  "torrent_ok k t \<longleftrightarrow> t_id t = k \<and> handler_ok k (t_piece_handler t)"

definition pool_inv :: "TorrentPool \<Rightarrow> bool" where
  "pool_inv pool \<longleftrightarrow>
     distinct (keys (torrents pool)) \<and>
     distinct (map (t_info_hash \<circ> snd) (torrents pool)) \<and>
     (\<forall>(k, t) \<in> set (torrents pool). torrent_ok k t) \<and>
     (\<forall>k \<in> set (keys (torrents pool)). torrent_num k < next_unique_torrent pool)"

inductive pool_step :: "TorrentPool \<Rightarrow> TorrentPool \<Rightarrow> bool" where
  p_add: "pool_step pool (snd (add_torrent clock c pool))"
| p_unchoke_remote: "pool_step pool (snd (unchoke_remote p pool))"
| p_choke_remote: "pool_step pool (snd (choke_remote p pool))"
| p_client_interest: "pool_step pool (snd (pool_set_client_interest tid p i pool))"
| p_handshake_request: "pool_step pool (snd (on_handshake_request clock p hs pool))"
| p_handshake_response: "pool_step pool (snd (on_handshake_response clock p tid hs pool))"
| p_choke: "pool_step pool (snd (on_choke_by_remote p c pool))"
| p_keep_alive: "pool_step pool (snd (on_keep_alive_by_remote p hb pool))"
| p_interest: "pool_step pool (snd (on_interest_by_remote p i pool))"
| p_piece_request: "pool_step pool (snd (on_piece_request p m rid pool))"
| p_block_response: "pool_step pool (snd (on_block_response tid p blk pool))"
| p_cancel: "pool_step pool (snd (on_cancel_request rid pool))"
| p_block_read: "pool_step pool (snd (on_block_read tid m pool))"
| p_have: "pool_step pool (snd (on_remote_have p n pool))"
| p_set_bitfield: "pool_step pool (snd (set_peer_bitfield p tid bf pool))"
| p_bitfield: "pool_step pool (snd (on_bitfield_request p bf pool))"
| p_remove: "pool_step pool (snd (remove_peer p pool))"
| p_set_piece: "pool_step pool (snd (on_torrent tid (t_set_piece n) pool))"
| p_poll: "pool_poll shuffle now clock pool = Some (st, pool') \<Longrightarrow> pool_step pool pool'"
| p_rehash: "mset ts = mset (torrents pool) \<Longrightarrow> pool_step pool (pool\<lparr>torrents := ts\<rparr>)"

inductive pool_reachable :: "TorrentPool \<Rightarrow> bool" where
  pool_start: "pool_reachable (TorrentPool_new rh pid config)"
| pool_more: "pool_reachable pool \<Longrightarrow> pool_step pool pool' \<Longrightarrow> pool_reachable pool'"

section \<open>The contracts of the operations\<close>

text \<open>
  The pool relies on two things of an operation it runs on a torrent: it keeps the torrent
  well-formed and does not change its info hash. Operations of the piece handler give such
  operations.
\<close>

locale torrent_op =
  fixes f :: "Torrent \<Rightarrow> 'a \<times> Torrent"
  assumes keeps_ok: "torrent_ok k t \<Longrightarrow> torrent_ok k (snd (f t))"
    and keeps_hash: "t_info_hash (snd (f t)) = t_info_hash t"
begin

lemma on_torrent_inv: "pool_inv pool \<Longrightarrow> pool_inv (snd (on_torrent tid f pool))"
proof (cases "hm_get (torrents pool) tid")
  case (Some t)
  assume inv: "pool_inv pool"
  then have d: "distinct (keys (torrents pool))" by (simp add: pool_inv_def)
  from hm_get_in [OF Some] obtain xs ys where ts: "torrents pool = xs @ (tid, t) # ys"
    by (metis split_list)
  with d have ins: "hm_insert tid t' (torrents pool) = xs @ (tid, t') # ys" for t'
    using hm_insert_split [of xs tid t ys] by simp
  obtain r t' where f: "f t = (r, t')" by fastforce
  with keeps_ok [of tid t] keeps_hash [of t] have "torrent_ok tid t \<Longrightarrow> torrent_ok tid t'"
    "t_info_hash t' = t_info_hash t" by simp_all
  moreover have "snd (on_torrent tid f pool) = pool\<lparr>torrents := xs @ (tid, t') # ys\<rparr>"
    by (simp add: on_torrent_def Some f ins)
  ultimately show ?thesis using inv by (auto simp: pool_inv_def ts)
qed (simp add: on_torrent_def)

end

locale torrent_query = torrent_op f for f :: "Torrent \<Rightarrow> 'b option \<times> Torrent"
begin

lemma first_hit_static:
  "keys (snd (first_hit f ts)) = keys ts \<and>
   map (t_info_hash \<circ> snd) (snd (first_hit f ts)) = map (t_info_hash \<circ> snd) ts \<and>
   ((\<forall>(k, t) \<in> set ts. torrent_ok k t) \<longrightarrow> (\<forall>(k, t) \<in> set (snd (first_hit f ts)). torrent_ok k t))"
proof (induction ts)
  case (Cons e ts)
  obtain k t where e: "e = (k, t)" by fastforce
  obtain r t' where f: "f t = (r, t')" by fastforce
  with keeps_ok [of k t] keeps_hash [of t] have "torrent_ok k t \<Longrightarrow> torrent_ok k t'"
    "t_info_hash t' = t_info_hash t" by simp_all
  with e f Cons show ?case by (cases r) (auto simp: split_beta)
qed simp

lemma on_first_inv: "pool_inv pool \<Longrightarrow> pool_inv (snd (on_first f pool))"
proof -
  assume inv: "pool_inv pool"
  obtain r ts where f: "first_hit f (torrents pool) = (r, ts)" by fastforce
  with first_hit_static [of "torrents pool"] have "keys ts = keys (torrents pool)"
    "map (t_info_hash \<circ> snd) ts = map (t_info_hash \<circ> snd) (torrents pool)"
    "(\<forall>(k, t) \<in> set (torrents pool). torrent_ok k t) \<longrightarrow> (\<forall>(k, t) \<in> set ts. torrent_ok k t)"
    by simp_all
  with inv f show ?thesis by (simp add: pool_inv_def on_first_def del: set_map)
qed

end

locale handler_op =
  fixes g :: "TorrentPieceHandler \<Rightarrow> 'a \<times> TorrentPieceHandler"
  assumes keeps_handler: "handler_ok k h \<Longrightarrow> handler_ok k (snd (g h))"
begin

lemma lifted_ok: "torrent_ok k t \<Longrightarrow> torrent_ok k (snd (on_handler g t))"
  using keeps_handler by (auto simp: torrent_ok_def on_handler_def split_beta)

lemma lifted_hash: "t_info_hash (snd (on_handler g t)) = t_info_hash t"
  by (simp add: on_handler_def split_beta)

end

sublocale handler_op \<subseteq> lifted: torrent_op "on_handler g"
  by unfold_locales (auto intro: lifted_ok lifted_hash)

locale handler_query = handler_op g for g :: "TorrentPieceHandler \<Rightarrow> 'b option \<times> TorrentPieceHandler"

sublocale handler_query \<subseteq> query: torrent_query "on_handler g"
  by unfold_locales

section \<open>The operations meet their contracts\<close>

lemma pending_distinct_remove:
  "distinct (map fst xs) \<Longrightarrow> distinct (map fst (vec_remove i xs))"
  using distinct_vec_remove [of "map fst xs" i]
  by (simp add: vec_remove_def take_map drop_map)

lemma handler_ok_buffer [simp]: "handler_ok k (h\<lparr>ph_piece_buffer := b\<rparr>) = handler_ok k h"
  by (simp add: handler_ok_def)

lemma handler_ok_bitfield [simp]: "handler_ok k (h\<lparr>ph_bitfield := bf\<rparr>) = handler_ok k h"
  by (simp add: handler_ok_def)

lemma handler_ok_insert:
  "handler_ok k h \<Longrightarrow> handler_ok k (h\<lparr>ph_peers := hm_insert p peer (ph_peers h)\<rparr>)"
  by (simp add: handler_ok_def)

interpretation h_with_peer: handler_query "with_peer p f" for p f
  by unfold_locales (auto simp: with_peer_def split_beta handler_ok_insert split: option.splits)

interpretation h_remove: handler_query "ph_remove_peer p" for p
  by unfold_locales (auto simp: ph_remove_peer_def handler_ok_def Let_def split: option.splits)

interpretation h_add_block: handler_op "ph_add_block p blk" for p blk
  by unfold_locales (auto simp: ph_add_block_def split_beta split: option.splits)

interpretation h_set_piece: handler_op "set_piece n" for n
  by unfold_locales (auto simp: set_piece_def)

interpretation h_choke: handler_query "set_choke_on_remote p c" for p c
  by unfold_locales (auto simp: set_choke_on_remote_def handler_ok_insert Let_def
      split: option.splits ChokeType.splits)

interpretation h_interest: handler_query "set_interest_on_remote p i" for p i
  by unfold_locales (auto simp: set_interest_on_remote_def handler_ok_insert split: option.splits)

interpretation h_client_interest: handler_query "set_client_interest p i" for p i
  by unfold_locales (auto simp: set_client_interest_def handler_ok_insert split: option.splits)

interpretation h_insert_peer: handler_query "insert_peer p peer" for p peer
  by unfold_locales (auto simp: insert_peer_def handler_ok_def Let_def split: option.splits)

interpretation h_cancel: handler_query "remove_pending_seed_by_request rid" for rid
  by unfold_locales (auto simp: remove_pending_seed_by_request_def handler_ok_def split_beta
      pending_distinct_remove split: option.splits)

interpretation h_block_read: handler_query "clear_pending_seed_block m" for m
  by unfold_locales (auto simp: clear_pending_seed_block_def handler_ok_def split_beta
      pending_distinct_remove split: option.splits)

interpretation q_have: torrent_query "t_remote_have p n" for p n
  using h_with_peer.lifted_ok [of _ _ p "\<lambda>peer. add_piece peer n"]
    h_with_peer.lifted_hash [of p "\<lambda>peer. add_piece peer n"]
  by unfold_locales (auto simp: t_remote_have_def split_beta)

interpretation q_choke: torrent_query "t_choke_by_remote p c" for p c
proof -
  have "t_choke_by_remote p c = on_handler (set_choke_on_remote p c)"
    by (cases c) (simp_all add: fun_eq_iff t_choked_by_remote_def t_unchoked_by_remote_def)
  then show "torrent_query (t_choke_by_remote p c)"
    using h_choke.query.torrent_query_axioms [of p c] by simp
qed

interpretation q_handshake: torrent_query
  "\<lambda>t. if t_info_hash t = info_hash
       then (case on_handler (insert_peer p peer) t of (_, t') \<Rightarrow> (Some (), t'))
       else (None, t)" for info_hash p peer
  using h_insert_peer.lifted_ok [of _ _ p peer] h_insert_peer.lifted_hash [of p peer]
  by unfold_locales (auto simp: split_beta)

interpretation q_piece_request: torrent_query
  "\<lambda>t. if can_seed_piece_to t p n
       then (Some (), t\<lparr>t_piece_handler := insert_block_seed p m rid (t_piece_handler t)\<rparr>)
       else (None, t)" for p n m rid
proof unfold_locales
  fix k t assume ok: "torrent_ok k t"
  have "p \<notin> fst ` set (ph_pending_seed_blocks (t_piece_handler t))" if "can_seed_piece_to t p n"
    using that by (auto simp: can_seed_piece_to_def is_ready_to_seed_block_def list_ex_iff
        split: option.splits)
  with ok show "torrent_ok k (snd (if can_seed_piece_to t p n
      then (Some (), t\<lparr>t_piece_handler := insert_block_seed p m rid (t_piece_handler t)\<rparr>)
      else (None, t)))"
    by (auto simp: torrent_ok_def handler_ok_def insert_block_seed_def)
qed auto

interpretation o_handshake: torrent_op
  "\<lambda>t. if t_info_hash t = info_hash
       then (case on_handler (insert_peer p peer) t of (_, t') \<Rightarrow> (Inr (HandshakeOk p, t_bitfield t'), t'))
       else (Inl (InfoHashMismatch p (Some tid)), t)" for info_hash p peer tid
  using h_insert_peer.lifted_ok [of _ _ p peer] h_insert_peer.lifted_hash [of p peer]
  by unfold_locales (auto simp: split_beta)

section \<open>Every step keeps the invariant\<close>

lemma snd_on_first_case:
  "snd (case on_first f pool of (Some x, pool') \<Rightarrow> (g x pool', pool') | (None, pool') \<Rightarrow> (e, pool'))
   = snd (on_first f pool)"
  by (auto split: prod.splits option.splits)

lemma pool_states:
  "snd (unchoke_remote p pool) = snd (on_first (t_unchoke_remote p) pool)"
  "snd (choke_remote p pool) = snd (on_first (t_choke_remote p) pool)"
  "snd (pool_set_client_interest tid p i pool) = snd (on_torrent tid (t_set_client_interest p i) pool)"
  "snd (on_choke_by_remote p c pool) = snd (on_first (t_choke_by_remote p c) pool)"
  "snd (on_keep_alive_by_remote p hb pool) = snd (on_first (t_keep_alive_by_remote p hb) pool)"
  "snd (on_interest_by_remote p i pool)
     = snd (on_first (on_handler (set_interest_on_remote p i)) pool)"
  "snd (on_block_response tid p blk pool) = snd (on_torrent tid (t_add_block p blk) pool)"
  "snd (on_cancel_request rid pool) = snd (on_first (on_handler (remove_pending_seed_by_request rid)) pool)"
  "snd (on_block_read tid m pool) = snd (on_torrent tid (on_handler (clear_pending_seed_block m)) pool)"
  "snd (on_remote_have p n pool) = snd (on_first (t_remote_have p n) pool)"
  "snd (set_peer_bitfield p tid bf pool)
     = snd (on_torrent tid (on_handler (with_peer p (\<lambda>peer. set_bitfield peer bf))) pool)"
  "snd (on_bitfield_request p bf pool)
     = snd (on_first (on_handler (with_peer p (\<lambda>peer. set_bitfield peer bf))) pool)"
  "snd (remove_peer p pool) = snd (on_first (t_remove_peer p) pool)"
  by (auto simp: unchoke_remote_def choke_remote_def pool_set_client_interest_def
      on_choke_by_remote_def on_keep_alive_by_remote_def on_interest_by_remote_def
      on_block_response_def on_cancel_request_def on_block_read_def on_remote_have_def
      set_peer_bitfield_def on_bitfield_request_def remove_peer_def t_remote_interested_def
      t_remote_not_interested_def split: prod.splits option.splits InterestType.splits)

lemmas torrent_ops = t_unchoke_remote_def t_choke_remote_def t_set_choke_for_remote_def
  t_set_client_interest_def t_keep_alive_by_remote_def t_add_block_def t_remove_peer_def
  t_set_piece_def

lemmas contract_invs = h_with_peer.query.on_first_inv h_with_peer.lifted.on_torrent_inv
  h_remove.query.on_first_inv h_add_block.lifted.on_torrent_inv h_set_piece.lifted.on_torrent_inv
  h_interest.query.on_first_inv h_client_interest.lifted.on_torrent_inv
  h_cancel.query.on_first_inv h_block_read.lifted.on_torrent_inv q_have.on_first_inv
  q_choke.on_first_inv q_handshake.on_first_inv q_piece_request.on_first_inv
  o_handshake.on_torrent_inv

lemma heartbeat_loop_keys:
  "heartbeat_loop tid now clock ps = Some (r, ps') \<Longrightarrow> keys ps' = keys ps"
  by (induction tid now clock ps arbitrary: r ps' rule: heartbeat_loop.induct)
    (auto split: if_splits simp: bind_eq_Some_conv)

lemma ph_poll_ok: "handler_ok k h \<Longrightarrow> handler_ok k (snd (ph_poll shuffle h))"
  by (auto simp: ph_poll_def handler_ok_def set_piece_def Let_def split_beta
      split: option.splits sum.splits)

lemma t_poll_ok:
  assumes "t_poll shuffle now clock t = Some (st, t')"
  shows "t_info_hash t' = t_info_hash t \<and> (torrent_ok k t \<longrightarrow> torrent_ok k t')"
proof -
  from assms obtain hb ps where
    l: "heartbeat_loop (t_id t) now clock (ph_peers (t_piece_handler t)) = Some (hb, ps)"
    by (auto simp: t_poll_def bind_eq_Some_conv)
  let ?h = "(t_piece_handler t)\<lparr>ph_peers := ps\<rparr>"
  from heartbeat_loop_keys [OF l] have h: "torrent_ok k t \<Longrightarrow> handler_ok k ?h"
    by (simp add: torrent_ok_def handler_ok_def)
  obtain pst h' where p: "ph_poll shuffle ?h = (pst, h')" by fastforce
  with ph_poll_ok [of k ?h shuffle] h have "torrent_ok k t \<Longrightarrow> handler_ok k h'" by simp
  with assms l h p show ?thesis
    by (cases pst; cases hb)
      (auto simp: t_poll_def Let_def torrent_ok_def split: option.splits)
qed

lemma pool_poll_loop_ok:
  "pool_poll_loop shuffle now clock ts = Some (st, ts') \<Longrightarrow>
   keys ts' = keys ts \<and> map (t_info_hash \<circ> snd) ts' = map (t_info_hash \<circ> snd) ts \<and>
   ((\<forall>(k, t) \<in> set ts. torrent_ok k t) \<longrightarrow> (\<forall>(k, t) \<in> set ts'. torrent_ok k t))"
proof (induction ts arbitrary: ts')
  case (Cons e rest)
  obtain k t where e: "e = (k, t)" by fastforce
  show ?case
  proof (cases "is_active (t_state t)")
    case True
    with Cons.prems e obtain pst t' where p: "t_poll shuffle now clock t = Some (pst, t')"
      by (auto simp: bind_eq_Some_conv)
    note ok = t_poll_ok [OF p, of k]
    show ?thesis
    proof (cases "pst = Idle \<or> (\<exists>w. pst = Waiting w)")
      case True
      with \<open>is_active _\<close> p Cons.prems e obtain rest' where
        r: "pool_poll_loop shuffle now clock rest = Some (st, rest')" and "ts' = (k, t') # rest'"
        by (auto simp: bind_eq_Some_conv)
      with Cons.IH [OF r] ok e show ?thesis by auto
    next
      case False
      with \<open>is_active _\<close> p Cons.prems e have "ts' = (k, t') # rest" by (cases pst) auto
      with ok e show ?thesis by auto
    qed
  next
    case False
    with Cons.prems e obtain rest' where
      r: "pool_poll_loop shuffle now clock rest = Some (st, rest')" and "ts' = (k, t) # rest'"
      by (auto simp: bind_eq_Some_conv)
    with Cons.IH [OF r] e show ?thesis by auto
  qed
qed simp

lemma pool_inv_add: "pool_inv pool \<Longrightarrow> pool_inv (snd (add_torrent clock c pool))"
proof (cases "list_ex (\<lambda>x. t_info_hash x = tc_info_hash c) (map snd (torrents pool))")
  case False
  assume inv: "pool_inv pool"
  let ?tid = "TorrentId (next_unique_torrent pool)"
  from inv have new: "?tid \<notin> set (keys (torrents pool))" by (fastforce simp: pool_inv_def)
  with inv False show ?thesis
    by (auto simp: add_torrent_def Let_def pool_inv_def hm_insert_def update_absent torrent_ok_def
        handler_ok_def Torrent_new_def TorrentPieceHandler_new_def list_ex_iff less_Suc_eq)
qed (simp add: add_torrent_def)

lemma pool_inv_rehash:
  assumes "pool_inv pool" and "mset ts = mset (torrents pool)"
  shows "pool_inv (pool\<lparr>torrents := ts\<rparr>)"
proof -
  have "mset (keys ts) = mset (keys (torrents pool))"
    "mset (map (t_info_hash \<circ> snd) ts) = mset (map (t_info_hash \<circ> snd) (torrents pool))"
    using assms(2) by (metis mset_map)+
  from this [THEN mset_eq_imp_distinct_iff] mset_eq_setD [OF assms(2)] assms(1) show ?thesis
    by (simp add: pool_inv_def)
qed

lemma pool_inv_handshake_request: "pool_inv pool \<Longrightarrow> pool_inv (snd (on_handshake_request clock p hs pool))"
  using q_handshake.on_first_inv [of pool "hs_info_hash hs" p "BitTorrentPeer_new clock (hs_peer_id hs)"]
  by (auto simp: on_handshake_request_def split: prod.splits option.splits)

lemma pool_inv_handshake_response:
  "pool_inv pool \<Longrightarrow> pool_inv (snd (on_handshake_response clock p tid hs pool))"
  using o_handshake.on_torrent_inv [of pool tid "hs_info_hash hs" p "BitTorrentPeer_new clock (hs_peer_id hs)" tid]
  by (auto simp: on_handshake_response_def split: prod.splits option.splits)

lemma pool_inv_piece_request: "pool_inv pool \<Longrightarrow> pool_inv (snd (on_piece_request p m rid pool))"
  using q_piece_request.on_first_inv [of pool p "bm_piece_index m" m rid]
  by (auto simp: on_piece_request_def split: prod.splits option.splits)

lemma pool_inv_step: "pool_step pool pool' \<Longrightarrow> pool_inv pool \<Longrightarrow> pool_inv pool'"
proof (induction rule: pool_step.induct)
  case (p_poll shuffle now clock pool st pool')
  then obtain ts where l: "pool_poll_loop shuffle now clock (torrents pool) = Some (st, ts)"
    and "pool' = pool\<lparr>torrents := ts\<rparr>" by (auto simp: pool_poll_def bind_eq_Some_conv)
  with pool_poll_loop_ok [OF l] p_poll(2) show ?case by (simp add: pool_inv_def del: set_map)
qed (simp_all add: pool_states torrent_ops contract_invs pool_inv_add pool_inv_rehash
      pool_inv_handshake_request pool_inv_handshake_response pool_inv_piece_request)

lemma pool_inv_new: "pool_inv (TorrentPool_new rh pid config)"
  by (simp add: pool_inv_def TorrentPool_new_def)

lemma pool_reachable_inv: "pool_reachable pool \<Longrightarrow> pool_inv pool"
  by (induction rule: pool_reachable.induct) (auto intro: pool_inv_step pool_inv_new)

text \<open>An operation that does not change a torrent it does not answer for.\<close>

lemma first_hit_cases:
  assumes keep: "\<forall>v. fst (f v) = None \<longrightarrow> snd (f v) = v"
  obtains (miss) "first_hit f m = (None, m)" "\<forall>(k, v) \<in> set m. fst (f v) = None"
  | (hit) xs k v ys a v' where "m = xs @ (k, v) # ys" "f v = (Some a, v')"
      "first_hit f m = (Some (v', a), xs @ (k, v') # ys)" "\<forall>(k, v) \<in> set xs. fst (f v) = None"
proof (induction m arbitrary: thesis)
  case Nil
  show ?case by (rule Nil.prems(1)) simp_all
next
  case (Cons e m)
  obtain k v where e: "e = (k, v)" by fastforce
  obtain r v' where f: "f v = (r, v')" by fastforce
  show ?case
  proof (cases r)
    case (Some a)
    show ?thesis by (rule Cons.prems(2) [of "[]" k v m a v']) (use e f Some in simp_all)
  next
    case None
    with f keep have v': "v' = v" by (metis fst_conv snd_conv)
    show ?thesis
    proof (rule Cons.IH)
      assume "first_hit f m = (None, m)" "\<forall>(k, v) \<in> set m. fst (f v) = None"
      then show thesis by (intro Cons.prems(1)) (use e f None v' in auto)
    next
      fix xs k' w ys a w'
      assume "m = xs @ (k', w) # ys" "f w = (Some a, w')"
        "first_hit f m = (Some (w', a), xs @ (k', w') # ys)" "\<forall>(k, v) \<in> set xs. fst (f v) = None"
      then show thesis
        by (intro Cons.prems(2) [of "e # xs" k' w ys a w']) (use e f None v' in auto)
    qed
  qed
qed

lemma pool_entry:
  assumes "pool_inv pool" and "torrents pool = xs @ (k, t) # ys"
  shows "t_id t = k" and "hm_get (torrents pool) k = Some t" and "k \<notin> set (keys xs)"
    and "hm_insert k t' (torrents pool) = xs @ (k, t') # ys" and "torrent_ok k t"
  using assms hm_insert_split [of xs k t ys t']
  by (auto simp: pool_inv_def torrent_ok_def hm_get_distinct)

lemma piece_request_cases:
  assumes "pool_inv pool"
  obtains (denied) "on_piece_request p m rid pool = (Inl (p, m, rid), pool)"
      "\<forall>(k, t) \<in> set (torrents pool). \<not> can_seed_piece_to t p (bm_piece_index m)"
  | (granted) tid t t' xs ys where "torrents pool = xs @ (tid, t) # ys"
      "can_seed_piece_to t p (bm_piece_index m)" "t_id t = tid"
      "t' = t\<lparr>t_piece_handler := insert_block_seed p m rid (t_piece_handler t)\<rparr>"
      "on_piece_request p m rid pool = (Inr (tid, m), pool\<lparr>torrents := xs @ (tid, t') # ys\<rparr>)"
proof -
  let ?f = "\<lambda>t. if can_seed_piece_to t p (bm_piece_index m)
    then (Some (), t\<lparr>t_piece_handler := insert_block_seed p m rid (t_piece_handler t)\<rparr>) else (None, t)"
  have "\<forall>t. fst (?f t) = None \<longrightarrow> snd (?f t) = t" by (simp split: if_splits)
  then show ?thesis
  proof (cases rule: first_hit_cases [where m = "torrents pool"])
    case miss
    then show ?thesis
      by (intro denied) (auto simp: on_piece_request_def on_first_def split: if_splits)
  next
    case (hit xs k t ys a t')
    from pool_entry(1) [OF assms hit(1)] have "t_id t = k" .
    with hit show ?thesis
      by (intro granted [OF hit(1) _ _ refl]) (auto simp: on_piece_request_def on_first_def split: if_splits)
  qed
qed

lemma demo_reachable: "pool_reachable demo_added" "pool_reachable demo_pool"
proof -
  show a: "pool_reachable demo_added"
    unfolding demo_added_def demo_empty_def by (rule pool_more [OF pool_start p_add])
  show "pool_reachable demo_pool" unfolding demo_pool_def
    by (rule pool_more [OF pool_more [OF pool_more [OF a p_handshake_request] p_unchoke_remote]
          p_interest])
qed

lemma demo_granted:
  "fst (on_piece_request 1 (BlockMetadata_new 0 0 5) 9 demo_pool)
     = Inr (TorrentId 0, BlockMetadata_new 0 0 5)"
  "\<forall>t. hm_get (torrents demo_pool) (TorrentId 0) = Some t \<longrightarrow>
     ph_pending_seed_blocks (t_piece_handler t) = []"
  by (simp_all add: demo_pool_def demo_added_def demo_empty_def demo_config_def add_torrent_def
      TorrentPool_new_def BitTorrentConfig_default_def Torrent_new_def TorrentPieceHandler_new_def
      hm_insert_def hm_get_def hm_contains_key_def on_handshake_request_def is_associated_def
      contains_peer_def on_first_def on_handler_def insert_peer_def Handshake_new_def
      BitTorrentPeer_new_def unchoke_remote_def t_unchoke_remote_def t_set_choke_for_remote_def
      with_peer_def on_interest_by_remote_def t_remote_interested_def set_interest_on_remote_def
      on_piece_request_def can_seed_piece_to_def ph_has_piece_def bv_get_def remote_can_leech_def
      peer_flags is_ready_to_seed_block_def BlockMetadata_new_def Let_def)

lemma handshake_request_cases:
  assumes "pool_inv pool"
  obtains (tracked) "is_associated pool p"
      "on_handshake_request clock p hs pool = (Inl (InvalidPeer p None), pool)"
  | (unknown) "\<not> is_associated pool p"
      "\<forall>(k, t) \<in> set (torrents pool). t_info_hash t \<noteq> hs_info_hash hs"
      "on_handshake_request clock p hs pool = (Inl (InfoHashMismatch p None), pool)"
  | (accepted) xs k t ys t' where "\<not> is_associated pool p" "torrents pool = xs @ (k, t) # ys"
      "t_info_hash t = hs_info_hash hs"
      "t' = snd (on_handler (insert_peer p (BitTorrentPeer_new clock (hs_peer_id hs))) t)"
      "on_handshake_request clock p hs pool =
         (Inr (Handshake_new (hs_info_hash hs) (local_peer_hash pool)),
          pool\<lparr>torrents := xs @ (k, t') # ys\<rparr>)"
proof (cases "is_associated pool p")
  case True
  with tracked show ?thesis by (simp add: on_handshake_request_def)
next
  case False
  let ?f = "\<lambda>t. if t_info_hash t = hs_info_hash hs
    then (case on_handler (insert_peer p (BitTorrentPeer_new clock (hs_peer_id hs))) t of
            (_, t') \<Rightarrow> (Some (), t')) else (None, t)"
  have "\<forall>t. fst (?f t) = None \<longrightarrow> snd (?f t) = t" by (simp add: split_beta)
  then show ?thesis
  proof (cases rule: first_hit_cases [where m = "torrents pool"])
    case miss
    with False show ?thesis
      by (intro unknown) (auto simp: on_handshake_request_def on_first_def split_beta split: if_splits)
  next
    case (hit xs k t ys a t')
    with False show ?thesis
      by (intro accepted [OF False hit(1)])
        (auto simp: on_handshake_request_def on_first_def split_beta split: if_splits)
  qed
qed

lemma granted_block_read:
  assumes inv: "pool_inv pool" and "on_piece_request p m rid pool = (Inr (tid, m'), pool')"
    and "\<forall>t. hm_get (torrents pool) tid = Some t \<longrightarrow>
      m \<notin> (snd \<circ> snd) ` set (ph_pending_seed_blocks (t_piece_handler t))"
  shows "on_block_read tid m pool' = (Some (p, rid), pool)" and "m' = m"
proof -
  from inv have "on_block_read tid m pool' = (Some (p, rid), pool) \<and> m' = m"
  proof (cases rule: piece_request_cases [where p = p and m = m and rid = rid])
    case (granted k t t' xs ys)
    note e = pool_entry [OF inv granted(1)]
    from granted assms(2) have k: "k = tid" and m: "m' = m" and pool': "pool' = pool\<lparr>torrents := xs @ (k, t') # ys\<rparr>"
      by simp_all
    let ?pend = "ph_pending_seed_blocks (t_piece_handler t)"
    have "m \<notin> (snd \<circ> snd) ` set ?pend" using assms(3) e(2) k by simp
    then have pos: "position (\<lambda>(_, _, x). x = m) (?pend @ [(p, rid, m)]) = Some (length ?pend)"
      by (intro position_append_new) force+
    have d: "distinct (keys (xs @ (k, t') # ys))" using inv granted(1) by (simp add: pool_inv_def)
    then have "hm_get (xs @ (k, t') # ys) k = Some t'" by (simp add: hm_get_distinct)
    with pos granted(1,4) hm_insert_split [OF d, of t] m show ?thesis
      by (simp add: on_block_read_def on_torrent_def on_handler_def clear_pending_seed_block_def
          insert_block_seed_def pool' k [symmetric])
  qed (use assms(2) in simp)
  then show "on_block_read tid m pool' = (Some (p, rid), pool)" and "m' = m" by simp_all
qed

lemma insert_peer_peers: "ph_peers (snd (insert_peer p peer h)) = hm_insert p peer (ph_peers h)"
  by (simp add: insert_peer_def Let_def split: option.splits)

section \<open>Properties\<close>

text \<open>
  C20. In every reachable state of the pool: identifiers are unique, below the next free one
  and equal to the identifier stored in the torrent and its handler; no two torrents share an
  info hash; every torrent tracks a peer once and owes it at most one block.
\<close>

theorem pool_invariant:
  assumes "pool_reachable pool"
  shows "distinct (keys (torrents pool)) \<and> distinct (map (t_info_hash \<circ> snd) (torrents pool)) \<and>
    (\<forall>(k, t) \<in> set (torrents pool).
       t_id t = k \<and> ph_id (t_piece_handler t) = k \<and> torrent_num k < next_unique_torrent pool \<and>
       distinct (keys (ph_peers (t_piece_handler t))) \<and>
       distinct (map fst (ph_pending_seed_blocks (t_piece_handler t))))"
  using pool_reachable_inv [OF assms] by (auto simp: pool_inv_def torrent_ok_def handler_ok_def)

theorem pool_invariant_witness:
  "distinct (keys (torrents (snd (add_torrent 0
     \<lparr>tc_info_hash = [1], tc_state = Active, tc_bitfield = [False], tc_piece_length = 5,
      tc_last_piece_length = 5, tc_seed_leech = SeedAndLeech\<rparr>
     (TorrentPool_new [] 0 BitTorrentConfig_default)))))"
  using pool_invariant [OF pool_more [OF pool_start p_add]] by blast

text \<open>
  C21. A request for a block is granted exactly when some torrent of the pool owns the piece,
  tracks the peer as interested and unchoked, and owes it no other block. Then the request is
  queued at the end of that torrent's list and nothing else changes; a denied request changes
  nothing.
\<close>

theorem piece_request_correct:
  assumes "pool_reachable pool" and "on_piece_request p m rid pool = (res, pool')"
  shows "case res of
      Inl e \<Rightarrow> e = (p, m, rid) \<and> pool' = pool \<and>
        (\<forall>(k, t) \<in> set (torrents pool). \<not> can_seed_piece_to t p (bm_piece_index m))
    | Inr (tid, m') \<Rightarrow> m' = m \<and>
        (\<exists>t h peer. hm_get (torrents pool) tid = Some t \<and> h = t_piece_handler t \<and>
           hm_get (ph_peers h) p = Some peer \<and> client_choke peer = UnChoked \<and>
           remote_interest peer = InterestType.Interested \<and>
           bv_get (ph_bitfield h) (bm_piece_index m) = Some True \<and>
           p \<notin> fst ` set (ph_pending_seed_blocks h) \<and>
           pool' = pool\<lparr>torrents := hm_insert tid (t\<lparr>t_piece_handler :=
              h\<lparr>ph_pending_seed_blocks := ph_pending_seed_blocks h @ [(p, rid, m)]\<rparr>\<rparr>) (torrents pool)\<rparr>)"
proof -
  from assms(1) have inv: "pool_inv pool" by (rule pool_reachable_inv)
  then show ?thesis
  proof (cases rule: piece_request_cases [where p = p and m = m and rid = rid])
    case (granted tid t t' xs ys)
    note e = pool_entry [OF inv granted(1)]
    have p: "p \<notin> fst ` set (ph_pending_seed_blocks (t_piece_handler t))"
      using granted(2) by (auto simp: can_seed_piece_to_def is_ready_to_seed_block_def list_ex_iff
          split: option.splits)
    from granted(2) obtain peer where "hm_get (ph_peers (t_piece_handler t)) p = Some peer"
      "client_choke peer = UnChoked" "remote_interest peer = InterestType.Interested"
      "bv_get (ph_bitfield (t_piece_handler t)) (bm_piece_index m) = Some True"
      by (auto simp: can_seed_piece_to_def ph_has_piece_def remote_can_leech_def peer_flags
          split: option.splits)
    with p e granted assms(2) show ?thesis by (auto simp: insert_block_seed_def)
  qed (use assms(2) in auto)
qed

theorem piece_request_correct_witness:
  "\<exists>t. hm_get (torrents demo_pool) (TorrentId 0) = Some t \<and>
     bv_get (ph_bitfield (t_piece_handler t)) 0 = Some True"
proof -
  obtain pool' where "on_piece_request 1 (BlockMetadata_new 0 0 5) 9 demo_pool
      = (Inr (TorrentId 0, BlockMetadata_new 0 0 5), pool')"
    using demo_granted(1) by (metis prod.collapse)
  from piece_request_correct [OF demo_reachable(2) this] show ?thesis
    by (auto simp: BlockMetadata_new_def)
qed

text \<open>
  C22. A block read from disk finds its way back to the peer that asked for it: after a granted
  request for a block nobody else waits for in that torrent, the block's arrival answers that
  peer and request, and takes exactly the queued entry out again.
\<close>

theorem seed_request_roundtrip:
  assumes "pool_reachable pool" and "on_piece_request p m rid pool = (Inr (tid, m), pool')"
    and "\<forall>t. hm_get (torrents pool) tid = Some t \<longrightarrow>
      m \<notin> (snd \<circ> snd) ` set (ph_pending_seed_blocks (t_piece_handler t))"
  shows "on_block_read tid m pool' = (Some (p, rid), pool)"
  by (rule granted_block_read(1) [OF pool_reachable_inv [OF assms(1)] assms(2,3)])

theorem seed_request_roundtrip_witness:
  "on_block_read (TorrentId 0) (BlockMetadata_new 0 0 5)
     (snd (on_piece_request 1 (BlockMetadata_new 0 0 5) 9 demo_pool)) = (Some (1, 9), demo_pool)"
proof -
  have "on_piece_request 1 (BlockMetadata_new 0 0 5) 9 demo_pool
      = (Inr (TorrentId 0, BlockMetadata_new 0 0 5),
         snd (on_piece_request 1 (BlockMetadata_new 0 0 5) 9 demo_pool))"
    using demo_granted(1) by (metis prod.collapse)
  from seed_request_roundtrip [OF demo_reachable(2) this] demo_granted(2) show ?thesis by simp
qed

text \<open>
  C23. A handshake request is accepted exactly when the peer is not yet tracked by any torrent
  and a torrent with the announced info hash exists. The answer repeats the info hash with the
  client's own hash, and the peer is from then on tracked, choked and not interested in both
  directions, by that torrent only. A refused handshake changes nothing.
\<close>

theorem handshake_request_correct:
  assumes "pool_reachable pool" and "on_handshake_request clock p hs pool = (res, pool')"
  shows "case res of
      Inr reply \<Rightarrow> reply = Handshake_new (hs_info_hash hs) (local_peer_hash pool) \<and>
        \<not> is_associated pool p \<and>
        (\<exists>k t t'. hm_get (torrents pool) k = Some t \<and> t_info_hash t = hs_info_hash hs \<and>
           hm_get (ph_peers (t_piece_handler t')) p
             = Some (BitTorrentPeer_new clock (hs_peer_id hs)) \<and>
           t_info_hash t' = t_info_hash t \<and>
           pool' = pool\<lparr>torrents := hm_insert k t' (torrents pool)\<rparr>)
    | Inl e \<Rightarrow> pool' = pool \<and>
        (is_associated pool p \<or>
         (\<forall>(k, t) \<in> set (torrents pool). t_info_hash t \<noteq> hs_info_hash hs))"
proof -
  from assms(1) have inv: "pool_inv pool" by (rule pool_reachable_inv)
  then show ?thesis
  proof (cases rule: handshake_request_cases [where p = p and clock = clock and hs = hs])
    case (accepted xs k t ys t')
    note e = pool_entry [OF inv accepted(2)]
    from e(5) have "distinct (keys (ph_peers (t_piece_handler t)))"
      by (simp add: torrent_ok_def handler_ok_def)
    then have "hm_get (ph_peers (t_piece_handler t')) p
        = Some (BitTorrentPeer_new clock (hs_peer_id hs))"
      using accepted(4) hash_map.get_insert_same
      by (simp add: on_handler_def split_beta insert_peer_peers)
    moreover have "t_info_hash t' = t_info_hash t"
      using accepted(4) by (simp add: h_insert_peer.lifted_hash)
    ultimately have "\<exists>k t t'. hm_get (torrents pool) k = Some t \<and> t_info_hash t = hs_info_hash hs \<and>
        hm_get (ph_peers (t_piece_handler t')) p = Some (BitTorrentPeer_new clock (hs_peer_id hs)) \<and>
        t_info_hash t' = t_info_hash t \<and> pool' = pool\<lparr>torrents := hm_insert k t' (torrents pool)\<rparr>"
      using e(2) e(4) [of t'] accepted(3,5) assms(2) by (intro exI [of _ k] exI [of _ t] exI [of _ t']) simp
    with accepted(1,5) assms(2) show ?thesis by auto
  qed (use assms(2) in auto)
qed

theorem handshake_request_correct_witness:
  "\<not> is_associated demo_added 1 \<and>
   fst (on_handshake_request 0 1 (Handshake_new [1] [2]) demo_added) = Inr (Handshake_new [1] [])"
proof -
  have r: "fst (on_handshake_request 0 1 (Handshake_new [1] [2]) demo_added) = Inr (Handshake_new [1] [])"
    by (simp add: demo_added_def demo_empty_def demo_config_def add_torrent_def
      TorrentPool_new_def BitTorrentConfig_default_def Torrent_new_def TorrentPieceHandler_new_def
      hm_insert_def hm_get_def hm_contains_key_def on_handshake_request_def is_associated_def
      contains_peer_def on_first_def on_handler_def insert_peer_def Handshake_new_def Let_def)
  then have "on_handshake_request 0 1 (Handshake_new [1] [2]) demo_added
      = (Inr (Handshake_new [1] []), snd (on_handshake_request 0 1 (Handshake_new [1] [2]) demo_added))"
    by (metis prod.collapse)
  from handshake_request_correct [OF demo_reachable(1) this] r show ?thesis by simp
qed

text \<open>
  C24. Adding a torrent fails exactly when its info hash is already in the pool, and then
  changes nothing. Otherwise the torrent is stored under a fresh identifier and every other
  torrent is kept. The answer reports \<^verbatim>\<open>Paused\<close> when the limit of active torrents is reached,
  but the torrent is stored in the state the caller asked for: the limit is not enforced.
\<close>

theorem add_torrent_correct:
  assumes "pool_reachable pool" and "add_torrent clock c pool = (res, pool')"
  shows "case res of
      Inl hash \<Rightarrow> hash = tc_info_hash c \<and> pool' = pool \<and>
        (\<exists>(k, t) \<in> set (torrents pool). t_info_hash t = tc_info_hash c)
    | Inr (tid, st) \<Rightarrow> hm_get (torrents pool) tid = None \<and>
        (\<forall>(k, t) \<in> set (torrents pool). t_info_hash t \<noteq> tc_info_hash c) \<and>
        (\<forall>k. k \<noteq> tid \<longrightarrow> hm_get (torrents pool') k = hm_get (torrents pool) k) \<and>
        (\<exists>t. hm_get (torrents pool') tid = Some t \<and> t_id t = tid \<and>
           t_info_hash t = tc_info_hash c \<and> t_bitfield t = tc_bitfield c \<and>
           iter_peer_ids t = [] \<and> t_state t = tc_state c) \<and>
        (st = Active \<longleftrightarrow> tc_state c = Active \<and>
           length (iter_active pool) < max_active_torrents pool)"
proof -
  from assms(1) have inv: "pool_inv pool" by (rule pool_reachable_inv)
  then have d: "distinct (keys (torrents pool))" by (simp add: pool_inv_def)
  let ?tid = "TorrentId (next_unique_torrent pool)"
  have "hm_get (torrents pool) ?tid = None"
    using inv by (fastforce simp: pool_inv_def hm_get_None)
  moreover have "is_active s \<longleftrightarrow> s = Active" for s by (cases s) simp_all
  moreover have known: "list_ex (\<lambda>x. t_info_hash x = hash) (map snd (torrents pool))
      \<longleftrightarrow> (\<exists>(k, t) \<in> set (torrents pool). t_info_hash t = hash)" for hash
    by (force simp: list_ex_iff)
  ultimately show ?thesis
  proof (cases "list_ex (\<lambda>x. t_info_hash x = tc_info_hash c) (map snd (torrents pool))")
    case True
    then show ?thesis using assms(2) unfolding known [symmetric] by (auto simp: add_torrent_def)
  next
    case False
    with \<open>hm_get (torrents pool) ?tid = None\<close> \<open>\<And>s. is_active s \<longleftrightarrow> s = Active\<close> show ?thesis
      using assms(2) hash_map.get_insert [OF d, of ?tid] known [of "tc_info_hash c"]
      by (auto simp: add_torrent_def Let_def Torrent_new_def t_bitfield_def
          TorrentPieceHandler_new_def iter_peer_ids_def)
  qed
qed

theorem add_torrent_correct_witness:
  "\<exists>t. hm_get (torrents demo_added) (TorrentId 0) = Some t \<and> t_state t = Active"
proof -
  have "add_torrent 0 demo_config demo_empty = (Inr (TorrentId 0, Active), demo_added)"
    by (simp add: demo_added_def demo_empty_def demo_config_def add_torrent_def iter_active_def
        TorrentPool_new_def BitTorrentConfig_default_def MAX_ACTIVE_TORRENTS_def Let_def)
  from add_torrent_correct [OF _ this] show ?thesis
    using pool_start unfolding demo_empty_def by (auto simp: demo_config_def)
qed

end
