(* ===== verification/Files.thy ===== *)
theory Files
  imports Metainfo
begin

text \<open>
  Which files of a torrent a block belongs to (\<^verbatim>\<open>src/disk/file.rs\<close>).

  The \<^verbatim>\<open>HashSet\<close> of file entries is a list whose order is the order of iteration; the entries of
  a torrent have different identifiers, so no insertion is lost. The theorems hold for every
  order. The arithmetic is the code's 64-bit arithmetic: \<open>checks\<close> says whether the build panics
  on overflow (a debug build) or wraps around (a release build).
\<close>

section \<open>Data\<close>

datatype FileId = FileId usize

record TorrentFileId =
  tf_torrent :: TorrentId
  tf_file :: FileId

definition TorrentFileId_new :: "TorrentId \<Rightarrow> FileId \<Rightarrow> TorrentFileId" where
  "TorrentFileId_new torrent file = \<lparr>tf_torrent = torrent, tf_file = file\<rparr>"

record FileEntry =
  fe_path :: path
  fe_id :: TorrentFileId
  fe_offset :: u64
  fe_size :: u64

record FileWindow =
  fw_offset :: u64
  fw_length :: u64

definition FileWindow_new :: "u64 \<Rightarrow> u64 \<Rightarrow> FileWindow" where
  "FileWindow_new off len = \<lparr>fw_offset = off, fw_length = len\<rparr>"

record TorrentFile =
  tfl_id :: TorrentId
  tfl_meta_info :: MetaInfo
  tfl_files :: "FileEntry list"

section \<open>Operations\<close>

text \<open>The fold of \<^verbatim>\<open>TorrentFile::new\<close> over the files of a directory.\<close>

fun multi_entries ::
  "bool \<Rightarrow> TorrentId \<Rightarrow> path \<Rightarrow> usize \<Rightarrow> u64 \<Rightarrow> SubFileInfo list \<Rightarrow> FileEntry list panics" where
  "multi_entries checks tid root_dir file_index off [] = Some []"
| "multi_entries checks tid root_dir file_index off (file # files) = do {
     let entry = \<lparr>fe_path = path_join root_dir (relative_file_path file),
                  fe_id = TorrentFileId_new tid (FileId file_index),
                  fe_offset = off, fe_size = sf_length file\<rparr>;
     off' \<leftarrow> u64_add checks off (sf_length file);
     rest \<leftarrow> multi_entries checks tid root_dir (file_index + 1) off' files;
     Some (entry # rest)
   }"

definition TorrentFile_new :: "bool \<Rightarrow> TorrentId \<Rightarrow> MetaInfo \<Rightarrow> TorrentFile panics" where
  "TorrentFile_new checks tid meta_info =
     (let root_dir = [ti_name (mi_info meta_info)] in
      case ti_content (mi_info meta_info) of
        Single len \<Rightarrow>
          Some \<lparr>tfl_id = tid, tfl_meta_info = meta_info,
                tfl_files = [\<lparr>fe_path = root_dir, fe_id = TorrentFileId_new tid (FileId 0),
                              fe_offset = 0, fe_size = len\<rparr>]\<rparr>
      | Multi files \<Rightarrow> do {
          entries \<leftarrow> multi_entries checks tid root_dir 0 0 files;
          Some \<lparr>tfl_id = tid, tfl_meta_info = meta_info, tfl_files = entries\<rparr>
        })"

text \<open>\<open>sha1\<close> is the hash function of the sha1 crate.\<close>

definition is_good_piece :: "(u8 list \<Rightarrow> ShaHash) \<Rightarrow> TorrentFile \<Rightarrow> Block \<Rightarrow> bool" where
  "is_good_piece sha1 t block =
     (let pieces = ti_pieces (mi_info (tfl_meta_info t));
          i = bm_piece_index (bl_metadata block)
      in if i < length pieces then sha1 (bl_data block) = pieces ! i else False)"

text \<open>The set of files, looked up by path.\<close>

definition get_file :: "TorrentFile \<Rightarrow> path \<Rightarrow> FileEntry option" where
  "get_file t p = find (\<lambda>file. fe_path file = p) (tfl_files t)"

fun files_loop ::
  "bool \<Rightarrow> u64 \<Rightarrow> u64 \<Rightarrow> usize \<Rightarrow> FileEntry list \<Rightarrow> (FileEntry \<times> FileWindow) list
    \<Rightarrow> (FileEntry \<times> FileWindow) list panics" where
  "files_loop checks block_start block_end block_length [] files = Some files"
| "files_loop checks block_start block_end block_length (file # rest) files =
     (if block_start \<ge> fe_offset file then do {
        file_end \<leftarrow> u64_add checks (fe_offset file) (fe_size file);
        if file_end \<ge> block_end then do {
          window_offset \<leftarrow> u64_sub checks block_start (fe_offset file);
          Some [(file, FileWindow_new window_offset block_length)]
        }
        else do {
          window_offset \<leftarrow> u64_sub checks block_start (fe_offset file);
          file_end' \<leftarrow> u64_add checks (fe_offset file) (fe_size file);
          window_length \<leftarrow> u64_sub checks file_end' block_start;
          files_loop checks block_start block_end block_length rest
            (files @ [(file, FileWindow_new window_offset window_offset)])
        }
      }
      else do {
        file_end \<leftarrow> u64_add checks (fe_size file) (fe_offset file);
        if file_end \<le> block_end then do {
          d \<leftarrow> u64_sub checks block_end (fe_offset file);
          window_length \<leftarrow> u64_add checks d (fe_size file);
          files_loop checks block_start block_end block_length rest
            (files @ [(file, FileWindow_new 0 window_length)])
        }
        else files_loop checks block_start block_end block_length rest files
      })"

definition files_for_block ::
  "bool \<Rightarrow> TorrentFile \<Rightarrow> BlockMetadata \<Rightarrow> (TorrentError + (FileEntry \<times> FileWindow) list) panics" where
  "files_for_block checks t metadata =
     (let info = mi_info (tfl_meta_info t) in
      if bm_piece_index metadata < length (ti_pieces info) then do {
        bend \<leftarrow> u64_add checks (bm_block_offset metadata) (bm_block_length metadata);
        if bend \<le> ti_piece_length info then do {
          piece_start \<leftarrow> u64_mul checks (ti_piece_length info) (bm_piece_index metadata);
          block_start \<leftarrow> u64_add checks piece_start (bm_block_offset metadata);
          end1 \<leftarrow> u64_add checks piece_start (bm_block_offset metadata);
          block_end \<leftarrow> u64_add checks end1 (bm_block_length metadata);
          files \<leftarrow> files_loop checks block_start block_end (bm_block_length metadata) (tfl_files t) [];
          Some (Inr files)
        }
        else Some (Inl (BadPiece (bm_piece_index metadata)))
      }
      else Some (Inl (BadPiece (bm_piece_index metadata))))"

section \<open>Specification\<close>

text \<open>A file holds a whole range of the torrent's bytes.\<close>

definition holds :: "FileEntry \<Rightarrow> u64 \<Rightarrow> u64 \<Rightarrow> bool" where
  "holds f bs be \<longleftrightarrow> fe_offset f \<le> bs \<and> be \<le> fe_offset f + fe_size f"

text \<open>Consecutive entries, as the files of a torrent are laid out.\<close>

fun laid_out :: "u64 \<Rightarrow> FileEntry list \<Rightarrow> bool" where
  "laid_out off [] \<longleftrightarrow> True"
| "laid_out off (f # fs) \<longleftrightarrow> fe_offset f = off \<and> laid_out (off + fe_size f) fs"

text \<open>The start of a block within the torrent.\<close>

definition block_start :: "TorrentFile \<Rightarrow> BlockMetadata \<Rightarrow> u64" where
  "block_start t m = ti_piece_length (mi_info (tfl_meta_info t)) * bm_piece_index m + bm_block_offset m"

text \<open>A block within the pieces and the bytes of a torrent.\<close>

definition block_in_range :: "TorrentFile \<Rightarrow> BlockMetadata \<Rightarrow> bool" where
  "block_in_range t m \<longleftrightarrow>
     bm_piece_index m < length (ti_pieces (mi_info (tfl_meta_info t))) \<and>
     bm_block_offset m + bm_block_length m \<le> ti_piece_length (mi_info (tfl_meta_info t)) \<and>
     0 < bm_block_length m \<and>
     block_start t m + bm_block_length m \<le> total_length (ti_content (mi_info (tfl_meta_info t)))"

text \<open>A torrent of two files, of three and five bytes, in pieces of four bytes.\<close>

definition two_files :: MetaInfo where
  "two_files =
     \<lparr>mi_announce = None, mi_announce_list = [], mi_encoding = None, mi_comment = None,
      mi_created_by = None, mi_creation_date = None, mi_httpseeds = [], mi_webseeds = [],
      mi_info = \<lparr>ti_pieces = [[], []], ti_piece_length = 4,
                 ti_content = Multi [\<lparr>sf_length = 3, sf_paths = [[97]]\<rparr>, \<lparr>sf_length = 5, sf_paths = [[98]]\<rparr>],
                 ti_name = [99]\<rparr>,
      mi_nodes = [], mi_info_hash = []\<rparr>"

definition two_entries :: "FileEntry list" where
  "two_entries =
     [\<lparr>fe_path = [[99], [97]], fe_id = TorrentFileId_new (TorrentId 0) (FileId 0), fe_offset = 0, fe_size = 3\<rparr>,
      \<lparr>fe_path = [[99], [98]], fe_id = TorrentFileId_new (TorrentId 0) (FileId 1), fe_offset = 3, fe_size = 5\<rparr>]"

definition two_torrent :: TorrentFile where
  "two_torrent = \<lparr>tfl_id = TorrentId 0, tfl_meta_info = two_files, tfl_files = two_entries\<rparr>"

section \<open>Lemmas\<close>

lemma laid_out_bounds:
  "laid_out off fs \<Longrightarrow> f \<in> set fs \<Longrightarrow>
   off \<le> fe_offset f \<and> fe_offset f + fe_size f \<le> off + sum_list (map fe_size fs)"
proof (induction fs arbitrary: off)
  case (Cons g fs)
  then show ?case by (cases "f = g") fastforce+
qed simp

lemma laid_out_unique:
  "laid_out off fs \<Longrightarrow> f \<in> set fs \<Longrightarrow> g \<in> set fs \<Longrightarrow> holds f bs be \<Longrightarrow> holds g bs be \<Longrightarrow> bs < be \<Longrightarrow> f = g"
proof (induction fs arbitrary: off)
  case (Cons e fs)
  then have e: "fe_offset e = off" and l: "laid_out (off + fe_size e) fs" by simp_all
  have "\<not> (holds e bs be \<and> holds x bs be)" if "x \<in> set fs" for x
    using laid_out_bounds [OF l that] e Cons.prems(6) by (auto simp: holds_def)
  with Cons l show ?case by auto
qed simp

text \<open>The bytes of a file are a part of the torrent's bytes.\<close>

lemma laid_out_content:
  assumes "laid_out off fs" and "f \<in> set fs" and "holds f bs be" and "bs < be"
    and "\<forall>e \<in> set fs. length (content e) = fe_size e"
  shows "take (be - bs) (drop (bs - off) (concat (map content fs)))
    = take (be - bs) (drop (bs - fe_offset f) (content f))"
  using assms
proof (induction fs arbitrary: off)
  case (Cons e fs)
  then have e: "fe_offset e = off" "length (content e) = fe_size e"
    and l: "laid_out (off + fe_size e) fs" by simp_all
  show ?case
  proof (cases "f = e")
    case True
    with Cons.prems(3,4) e have "be - bs \<le> length (drop (bs - off) (content e))"
      by (auto simp: holds_def)
    with True e show ?thesis by (simp add: holds_def)
  next
    case False
    with Cons.prems(2) have f: "f \<in> set fs" by simp
    from laid_out_bounds [OF l f] Cons.prems(3) have "off + fe_size e \<le> bs" by (auto simp: holds_def)
    with e Cons.IH [OF l f Cons.prems(3,4)] Cons.prems(5) show ?thesis
      by (simp add: diff_diff_left)
  qed
qed simp

lemma multi_entries_ok:
  "off + sum_list (map sf_length fs) < 2 ^ 64 \<Longrightarrow>
   \<exists>es. multi_entries checks tid root i off fs = Some es \<and> laid_out off es \<and>
     map fe_size es = map sf_length fs"
proof (induction fs arbitrary: i off)
  case (Cons f fs)
  then have "off + sf_length f + sum_list (map sf_length fs) < 2 ^ 64" by (simp add: add.assoc)
  from Cons.IH [OF this, of "i + 1"] obtain es where
    "multi_entries checks tid root (i + 1) (off + sf_length f) fs = Some es"
    "laid_out (off + sf_length f) es" "map fe_size es = map sf_length fs" by blast
  with Cons.prems show ?case by (simp add: Let_def)
qed simp

lemma TorrentFile_new_ok:
  assumes "total_length (ti_content (mi_info mi)) < 2 ^ 64"
  obtains es where
    "TorrentFile_new checks tid mi = Some \<lparr>tfl_id = tid, tfl_meta_info = mi, tfl_files = es\<rparr>"
    "laid_out 0 es" "sum_list (map fe_size es) = total_length (ti_content (mi_info mi))"
proof (cases "ti_content (mi_info mi)")
  case (Single len)
  show ?thesis by (rule that) (use Single in \<open>auto simp: TorrentFile_new_def total_length_def Let_def\<close>)
next
  case (Multi fs)
  with assms multi_entries_ok [of 0 fs checks tid "[ti_name (mi_info mi)]" 0] obtain es where
    "multi_entries checks tid [ti_name (mi_info mi)] 0 0 fs = Some es" "laid_out 0 es"
    "map fe_size es = map sf_length fs" by (auto simp: total_length_def)
  with Multi that show ?thesis by (simp add: TorrentFile_new_def total_length_def Let_def)
qed

lemma unchecked_total:
  "\<exists>c. u64_add False a b = Some c" "\<exists>c. u64_sub False a b = Some c"
  by (auto simp: u64_add_def u64_sub_def)

lemma files_loop_release:
  assumes "f \<in> set fs" and "holds f bs be"
    and "\<forall>g \<in> set fs. fe_offset g + fe_size g < 2 ^ 64 \<and> (g \<noteq> f \<longrightarrow> \<not> holds g bs be)"
  shows "files_loop False bs be blen fs acc
    = Some [(f, FileWindow_new (bs - fe_offset f) blen)]"
  using assms
proof (induction fs arbitrary: acc)
  case (Cons g fs)
  show ?case
  proof (cases "g = f")
    case True
    with Cons.prems show ?thesis by (simp add: holds_def)
  next
    case False
    with Cons.prems have f: "f \<in> set fs" and nh: "\<not> holds g bs be"
      and g: "fe_offset g + fe_size g < 2 ^ 64" by auto
    have IH: "files_loop False bs be blen fs acc' = Some [(f, FileWindow_new (bs - fe_offset f) blen)]" for acc'
      using Cons.prems(3) by (intro Cons.IH [OF f Cons.prems(2)]) simp
    have g1: "u64_add False (fe_offset g) (fe_size g) = Some (fe_offset g + fe_size g)"
      by (rule u64_add_small [OF g])
    have g2: "u64_add False (fe_size g) (fe_offset g) = Some (fe_offset g + fe_size g)"
      using u64_add_small [of "fe_size g" "fe_offset g" False] g by (simp only: add.commute)
    obtain c1 where c1: "u64_sub False (fe_offset g + fe_size g) bs = Some c1"
      using unchecked_total(2) by blast
    obtain d where d: "u64_sub False be (fe_offset g) = Some d" using unchecked_total(2) by blast
    obtain c2 where c2: "u64_add False d (fe_size g) = Some c2" using unchecked_total(1) by blast
    show ?thesis
    proof (cases "fe_offset g \<le> bs")
      case True
      with nh have "\<not> be \<le> fe_offset g + fe_size g" by (simp add: holds_def)
      with True show ?thesis by (simp add: g1 c1 IH)
    qed (simp add: g2 d c2 IH)
  qed
qed simp

lemma files_loop_single:
  "holds f bs be \<Longrightarrow> fe_offset f + fe_size f < 2 ^ 64 \<Longrightarrow>
   files_loop checks bs be blen [f] acc = Some [(f, FileWindow_new (bs - fe_offset f) blen)]"
  by (simp add: holds_def)

lemma files_for_block_loop:
  assumes "block_in_range t m"
    and "total_length (ti_content (mi_info (tfl_meta_info t))) < 2 ^ 64"
    and "ti_piece_length (mi_info (tfl_meta_info t)) < 2 ^ 64"
  shows "files_for_block checks t m =
    map_option Inr (files_loop checks (block_start t m) (block_start t m + bm_block_length m)
      (bm_block_length m) (tfl_files t) [])"
proof -
  define p n k l where "p = ti_piece_length (mi_info (tfl_meta_info t))"
    and "n = bm_piece_index m" and "k = bm_block_offset m" and "l = bm_block_length m"
  note d = p_def [symmetric] n_def [symmetric] k_def [symmetric] l_def [symmetric]
  have r: "n < length (ti_pieces (mi_info (tfl_meta_info t)))" "k + l \<le> p"
    using assms(1) by (simp_all add: block_in_range_def d)
  have "p * n + k + l \<le> total_length (ti_content (mi_info (tfl_meta_info t)))"
    using assms(1) by (simp add: block_in_range_def block_start_def d)
  from le_less_trans [OF this assms(2)] have b: "p * n + k + l < 2 ^ 64" .
  from assms(3) have "p < 2 ^ 64" by (simp only: d)
  from le_less_trans [OF r(2) this] have kl: "k + l < 2 ^ 64" .
  have pn: "p * n + k < 2 ^ 64" by (rule le_less_trans [OF _ b]) simp
  have pm: "p * n < 2 ^ 64" by (rule le_less_trans [OF _ pn]) simp
  note ops = u64_add_small [OF kl] u64_mul_small [OF pm] u64_add_small [OF pn] u64_add_small [OF b]
  have "Option.bind X (\<lambda>files. Some (Inr files)) = map_option Inr X" for X :: "'b option"
    by (cases X) simp_all
  with r show ?thesis
    unfolding files_for_block_def block_start_def Let_def d
    by (simp only: ops if_True bind.bind_lunit)
qed

text \<open>The files found are different files of the torrent, and carry its identifier.\<close>

lemma files_loop_entries:
  "files_loop checks bs be blen fs acc = Some files \<Longrightarrow> distinct (map (fe_id \<circ> fst) acc @ map fe_id fs) \<Longrightarrow>
   distinct (map (fe_id \<circ> fst) files) \<and> fst ` set files \<subseteq> fst ` set acc \<union> set fs"
proof (induction fs arbitrary: acc)
  case (Cons f fs)
  from Cons.prems(2) have d: "distinct (map (fe_id \<circ> fst) acc @ map fe_id fs)" by (auto simp: comp_def)
  have d': "distinct (map (fe_id \<circ> fst) (acc @ [(f, win)]) @ map fe_id fs)" for win
    using Cons.prems(2) by (auto simp: comp_def)
  consider win where "files = [(f, win)]" | "files_loop checks bs be blen fs acc = Some files"
    | win where "files_loop checks bs be blen fs (acc @ [(f, win)]) = Some files"
    using Cons.prems(1) by (fastforce simp: bind_eq_Some_conv split: if_splits)
  then show ?case
  proof cases
    case 2
    with Cons.IH [OF _ d] show ?thesis by auto
  next
    case 3
    with Cons.IH [OF _ d'] show ?thesis by fastforce
  qed simp
qed simp

lemma files_for_block_entries:
  assumes "files_for_block checks t m = Some (Inr files)" and "distinct (map fe_id (tfl_files t))"
  shows "distinct (map (fe_id \<circ> fst) files) \<and> fst ` set files \<subseteq> set (tfl_files t)"
proof -
  from assms(1) obtain bs be where "files_loop checks bs be (bm_block_length m) (tfl_files t) [] = Some files"
    by (auto simp: files_for_block_def Let_def bind_eq_Some_conv split: if_splits)
  from files_loop_entries [OF this] assms(2) show ?thesis by simp
qed

lemma multi_entries_ids:
  "multi_entries checks tid root i off fs = Some es \<Longrightarrow>
   map fe_id es = map (\<lambda>j. TorrentFileId_new tid (FileId j)) [i..<i + length fs]"
proof (induction fs arbitrary: i off es)
  case (Cons f fs)
  have "[i..<i + length (f # fs)] = i # [i + 1..<i + 1 + length fs]" by (subst upt_conv_Cons) simp_all
  with Cons show ?case by (auto simp: Let_def bind_eq_Some_conv simp del: upt_Suc)
qed simp

lemma TorrentFile_new_entries:
  assumes "TorrentFile_new checks tid mi = Some t"
  shows "tfl_id t = tid \<and> tfl_meta_info t = mi \<and> distinct (map fe_id (tfl_files t)) \<and>
    (\<forall>f \<in> set (tfl_files t). tf_torrent (fe_id f) = tid)"
proof (cases "ti_content (mi_info mi)")
  case (Single len)
  with assms show ?thesis by (auto simp: TorrentFile_new_def TorrentFileId_new_def Let_def)
next
  case (Multi fs)
  with assms obtain es where es: "multi_entries checks tid [ti_name (mi_info mi)] 0 0 fs = Some es"
    and t: "t = \<lparr>tfl_id = tid, tfl_meta_info = mi, tfl_files = es\<rparr>"
    by (auto simp: TorrentFile_new_def Let_def bind_eq_Some_conv)
  note ids = multi_entries_ids [OF es]
  have "tf_torrent (fe_id f) = tid" if "f \<in> set es" for f
  proof -
    from that have "fe_id f \<in> set (map fe_id es)" by simp
    then show ?thesis unfolding ids by (auto simp: TorrentFileId_new_def)
  qed
  moreover have "distinct (map fe_id es)"
    unfolding ids by (auto simp: distinct_map inj_on_def TorrentFileId_new_def)
  ultimately show ?thesis by (simp add: t)
qed

lemma two_torrent_new: "TorrentFile_new checks (TorrentId 0) two_files = Some two_torrent"
  by (simp add: TorrentFile_new_def two_files_def two_torrent_def two_entries_def Let_def
      relative_file_path_def path_join_def)

lemmas two_defs = two_torrent_def two_files_def two_entries_def

section \<open>Properties\<close>

text \<open>
  C29. A block that lies inside one file is found there, whatever the order in which the set of
  files is iterated: the answer is exactly that file with the window that starts where the
  block starts in the file and has the length of the block, and the bytes of that window are
  the bytes of the block in the torrent's content. This holds for a build without overflow
  checks, and for a torrent of a single file in every build.
\<close>

theorem block_inside_file_found:
  assumes "total_length (ti_content (mi_info mi)) < 2 ^ 64" and "ti_piece_length (mi_info mi) < 2 ^ 64"
    and "TorrentFile_new checks tid mi = Some t0" and "mset files = mset (tfl_files t0)"
    and "t = t0\<lparr>tfl_files := files\<rparr>" and "block_in_range t m"
    and "f \<in> set files" and "holds f (block_start t m) (block_start t m + bm_block_length m)"
    and "\<not> checks \<or> files = [f]"
  shows "files_for_block checks t m
      = Some (Inr [(f, FileWindow_new (block_start t m - fe_offset f) (bm_block_length m))]) \<and>
    (\<forall>content :: FileEntry \<Rightarrow> u8 list. (\<forall>e \<in> set files. length (content e) = fe_size e) \<longrightarrow>
       take (bm_block_length m) (drop (block_start t m) (concat (map content (tfl_files t0))))
         = take (bm_block_length m) (drop (block_start t m - fe_offset f) (content f)))"
proof -
  let ?bs = "block_start t m" and ?l = "bm_block_length m"
  from TorrentFile_new_ok [OF assms(1), of checks tid] assms(3) obtain es where
    t0: "t0 = \<lparr>tfl_id = tid, tfl_meta_info = mi, tfl_files = es\<rparr>"
    and es: "laid_out 0 es" "sum_list (map fe_size es) = total_length (ti_content (mi_info mi))"
    by (metis option.inject)
  have set: "set files = set es" using assms(4) t0 by (metis mset_eq_setD TorrentFile.select_convs(3))
  have pos: "?bs < ?bs + ?l" using assms(6) by (simp add: block_in_range_def)
  have ends: "fe_offset g + fe_size g < 2 ^ 64" if "g \<in> set files" for g
    using laid_out_bounds [OF es(1), of g] es(2) assms(1) that set by simp
  have "files_loop checks ?bs (?bs + ?l) ?l files [] = Some [(f, FileWindow_new (?bs - fe_offset f) ?l)]"
  proof (cases "files = [f]")
    case True
    then show ?thesis using files_loop_single [OF assms(8) ends [OF assms(7)]] by simp
  next
    case False
    with assms(9) have "checks = False" by simp
    moreover have "\<forall>g \<in> set files. fe_offset g + fe_size g < 2 ^ 64 \<and>
        (g \<noteq> f \<longrightarrow> \<not> holds g ?bs (?bs + ?l))"
      using ends laid_out_unique [OF es(1) _ _ _ assms(8) pos] assms(7) set by blast
    ultimately show ?thesis using files_loop_release [OF assms(7,8)] by simp
  qed
  moreover have "files_for_block checks t m
      = map_option Inr (files_loop checks ?bs (?bs + ?l) ?l (tfl_files t) [])"
    using assms(1,2,5) t0 by (intro files_for_block_loop [OF assms(6)]) simp_all
  moreover have "take ?l (drop ?bs (concat (map content es))) = take ?l (drop (?bs - fe_offset f) (content f))"
    if "\<forall>e \<in> set files. length (content e) = fe_size e" for content :: "FileEntry \<Rightarrow> u8 list"
    using laid_out_content [OF es(1) _ assms(8) pos, of content] that assms(7) set by simp
  ultimately show ?thesis using assms(5) t0 by simp
qed

theorem block_inside_file_found_witness:
  "files_for_block False (two_torrent\<lparr>tfl_files := rev two_entries\<rparr>) (BlockMetadata_new 1 1 3)
     = Some (Inr [(two_entries ! 1, FileWindow_new 2 3)])"
proof -
  let ?t = "two_torrent\<lparr>tfl_files := rev two_entries\<rparr>"
  let ?m = "BlockMetadata_new 1 1 3"
  have bs: "block_start ?t ?m = 5"
    by (simp add: block_start_def two_defs BlockMetadata_new_def)
  have len: "bm_block_length ?m = 3" by (simp add: BlockMetadata_new_def)
  have f: "fe_offset (two_entries ! 1) = 3" "fe_size (two_entries ! 1) = 5" by (simp_all add: two_defs)
  have "files_for_block False ?t ?m = Some (Inr [(two_entries ! 1,
      FileWindow_new (block_start ?t ?m - fe_offset (two_entries ! 1)) (bm_block_length ?m))])"
  proof (rule block_inside_file_found [THEN conjunct1])
    show "total_length (ti_content (mi_info two_files)) < 2 ^ 64" "ti_piece_length (mi_info two_files) < 2 ^ 64"
      by (simp_all add: two_files_def total_length_def)
    show "TorrentFile_new False (TorrentId 0) two_files = Some two_torrent" by (rule two_torrent_new)
    show "mset (rev two_entries) = mset (tfl_files two_torrent)" by (simp add: two_torrent_def)
    show "block_in_range ?t ?m"
      unfolding block_in_range_def bs by (simp add: two_defs BlockMetadata_new_def total_length_def)
    show "two_entries ! 1 \<in> set (rev two_entries)" by (simp add: two_entries_def)
    show "holds (two_entries ! 1) (block_start ?t ?m) (block_start ?t ?m + bm_block_length ?m)"
      unfolding bs len by (simp add: holds_def two_entries_def)
  qed simp_all
  then show ?thesis unfolding bs len f by simp
qed

text \<open>
  Blocks that span two files are given wrong windows, and blocks of later files crash a
  debug build. In the torrent of a three-byte and a five-byte file with pieces of four bytes,
  the first piece covers the first file and one byte of the second: the answer is only the
  first file, with an empty window. A piece that covers both files whole gets windows of
  length 0 and 10 for files of 3 and 5 bytes. Asking for the second piece panics in a build
  with overflow checks when the first file is visited first, although the second file holds it.
\<close>

theorem overlapping_windows_wrong:
  "files_for_block checks two_torrent (BlockMetadata_new 0 0 4)
     = Some (Inr [(two_entries ! 0, FileWindow_new 0 0)]) \<and>
   files_for_block checks
     (two_torrent\<lparr>tfl_meta_info := two_files\<lparr>mi_info := (mi_info two_files)\<lparr>ti_piece_length := 8\<rparr>\<rparr>\<rparr>)
     (BlockMetadata_new 0 0 8)
     = Some (Inr [(two_entries ! 0, FileWindow_new 0 0), (two_entries ! 1, FileWindow_new 0 10)]) \<and>
   files_for_block True two_torrent (BlockMetadata_new 1 0 4) = None \<and>
   holds (two_entries ! 1) 4 8"
  by (simp add: files_for_block_def two_defs BlockMetadata_new_def u64_sub_def holds_def Let_def)

end
