(* ===== verification/BlockJobs.thy ===== *)
theory BlockJobs
  imports Files
begin

text \<open>
  Reading and writing blocks (\<^verbatim>\<open>src/disk/block.rs\<close>, second part): the state machine of one file
  access, the jobs over one or several files and their finalisation.

  The \<^verbatim>\<open>FileSystem\<close> trait (\<^verbatim>\<open>src/disk/fs.rs\<close>) is a record of the operations the jobs call; a world
  of type \<open>'w\<close> stands for everything outside the program that decides how an operation ends. Its
  implementation on tokio is not part of the model. A read appends to the buffer it is given.
\<close>

section \<open>Data\<close>

record ('f, 'e, 'w) FileSystem =
  poll_open_file :: "path \<Rightarrow> 'w \<Rightarrow> ('e + 'f) poll \<times> 'w"
  sync_file :: "'f \<Rightarrow> 'w \<Rightarrow> ('e + unit) poll \<times> 'f \<times> 'w"
  poll_file_size :: "'f \<Rightarrow> 'w \<Rightarrow> ('e + u64) poll \<times> 'f \<times> 'w"
  poll_seek :: "'f \<Rightarrow> u64 \<Rightarrow> 'w \<Rightarrow> ('e + u64) poll \<times> 'f \<times> 'w"
  poll_read_block :: "'f \<Rightarrow> u8 list \<Rightarrow> 'w \<Rightarrow> ('e + usize) poll \<times> 'f \<times> u8 list \<times> 'w"
  poll_write_block :: "'f \<Rightarrow> u8 list \<Rightarrow> 'w \<Rightarrow> ('e + usize) poll \<times> 'f \<times> 'w"

datatype BlockState = Seek | Process | Ready

record 'f BlockFile =
  bf_id :: TorrentFileId
  bf_inner :: 'f

definition BlockFile_new :: "TorrentFileId \<Rightarrow> 'f \<Rightarrow> 'f BlockFile" where
  "BlockFile_new file_id file = \<lparr>bf_id = file_id, bf_inner = file\<rparr>"

record 'f BlockFileWrite =
  bw_file :: "'f BlockFile"
  bw_written :: usize
  bw_block :: "u8 list"
  bw_window :: FileWindow
  bw_state :: BlockState

record 'f BlockFileRead =
  br_file :: "'f BlockFile"
  br_block :: "u8 list"
  br_window :: FileWindow
  br_read :: usize
  br_state :: BlockState

datatype 'f BlockRead =
    ReadSingle BlockMetadata "'f BlockFileRead"
  | ReadOverlap TorrentId BlockMetadata "'f BlockFileRead list"

datatype 'f BlockWrite =
    WriteSingle BlockMetadata "'f BlockFileWrite"
  | WriteOverlap TorrentId BlockMetadata "'f BlockFileWrite list"

datatype 'f BlockJob = Read "'f BlockRead" | Write "'f BlockWrite"

datatype 'f BlockResult =
    ReadResult TorrentId "'f BlockFile list" "BlockMetadata + Block"
  | WriteResult TorrentId "'f BlockFile list" "BlockMetadata + Block"

section \<open>Writing\<close>

definition BlockFileWrite_new :: "'f BlockFile \<Rightarrow> u8 list \<Rightarrow> FileWindow \<Rightarrow> 'f BlockFileWrite" where
  "BlockFileWrite_new file block file_window =
     \<lparr>bw_file = file, bw_written = 0, bw_block = block, bw_window = file_window, bw_state = Seek\<rparr>"

text \<open>
  The write that both active states end with: a pending write leads to \<^verbatim>\<open>Process\<close>, a short one
  leaves the state alone.
\<close>

definition write_chunk ::
  "('f, 'e, 'w) FileSystem \<Rightarrow> 'f BlockFileWrite \<Rightarrow> 'w \<Rightarrow> (('e + unit) poll \<times> 'f BlockFileWrite \<times> 'w) panics" where
  "write_chunk fs b w = do {
     buf \<leftarrow> slice (bw_block b) (bw_written b) (fw_length (bw_window b));
     Some (case poll_write_block fs (bf_inner (bw_file b)) buf w of (res, inner, w') \<Rightarrow>
       let b1 = b\<lparr>bw_file := (bw_file b)\<lparr>bf_inner := inner\<rparr>\<rparr> in
       case res of
         poll.Ready (Inl e) \<Rightarrow> (poll.Ready (Inl e), b1, w')
       | poll.Ready (Inr written) \<Rightarrow>
           let b2 = b1\<lparr>bw_written := bw_written b1 + written\<rparr> in
           if bw_written b2 < fw_length (bw_window b2) then (Pending, b2, w')
           else (poll.Ready (Inr ()), b2\<lparr>bw_state := Ready\<rparr>, w')
       | Pending \<Rightarrow> (Pending, b1\<lparr>bw_state := Process\<rparr>, w'))
   }"

definition BlockFileWrite_poll ::
  "('f, 'e, 'w) FileSystem \<Rightarrow> 'f BlockFileWrite \<Rightarrow> 'w \<Rightarrow> (('e + unit) poll \<times> 'f BlockFileWrite \<times> 'w) panics" where
  "BlockFileWrite_poll fs b w =
     (case bw_state b of
        Ready \<Rightarrow> Some (poll.Ready (Inr ()), b, w)
      | Seek \<Rightarrow>
          (case poll_seek fs (bf_inner (bw_file b)) (fw_offset (bw_window b)) w of (res, inner, w') \<Rightarrow>
             let b1 = b\<lparr>bw_file := (bw_file b)\<lparr>bf_inner := inner\<rparr>\<rparr> in
             case res of
               poll.Ready (Inl e) \<Rightarrow> Some (poll.Ready (Inl e), b1, w')
             | poll.Ready (Inr _) \<Rightarrow> write_chunk fs b1 w'
             | Pending \<Rightarrow> Some (Pending, b1, w'))
      | Process \<Rightarrow> write_chunk fs b w)"

section \<open>Reading\<close>

definition BlockFileRead_new :: "'f BlockFile \<Rightarrow> FileWindow \<Rightarrow> 'f BlockFileRead" where
  "BlockFileRead_new file file_window =
     \<lparr>br_file = file, br_block = [], br_window = file_window, br_read = 0, br_state = Seek\<rparr>"

definition read_chunk ::
  "('f, 'e, 'w) FileSystem \<Rightarrow> 'f BlockFileRead \<Rightarrow> 'w \<Rightarrow> ('e + unit) poll \<times> 'f BlockFileRead \<times> 'w" where
  "read_chunk fs b w =
     (case poll_read_block fs (bf_inner (br_file b)) (br_block b) w of (res, inner, block, w') \<Rightarrow>
        let b1 = b\<lparr>br_file := (br_file b)\<lparr>bf_inner := inner\<rparr>, br_block := block\<rparr> in
        case res of
          poll.Ready (Inr n) \<Rightarrow>
            let b2 = b1\<lparr>br_read := br_read b1 + n\<rparr> in
            if br_read b2 < fw_length (br_window b2) then (Pending, b2, w')
            else (poll.Ready (Inr ()), b2\<lparr>br_state := Ready\<rparr>, w')
        | poll.Ready (Inl e) \<Rightarrow> (poll.Ready (Inl e), b1, w')
        | Pending \<Rightarrow> (Pending, b1\<lparr>br_state := Process\<rparr>, w'))"

text \<open>Unlike a write, a read goes on after a seek that failed: only \<^verbatim>\<open>Pending\<close> stops it.\<close>

definition BlockFileRead_poll ::
  "('f, 'e, 'w) FileSystem \<Rightarrow> 'f BlockFileRead \<Rightarrow> 'w \<Rightarrow> ('e + unit) poll \<times> 'f BlockFileRead \<times> 'w" where
  "BlockFileRead_poll fs b w =
     (case br_state b of
        Ready \<Rightarrow> (poll.Ready (Inr ()), b, w)
      | Seek \<Rightarrow>
          (case poll_seek fs (bf_inner (br_file b)) (fw_offset (br_window b)) w of (res, inner, w') \<Rightarrow>
             let b1 = b\<lparr>br_file := (br_file b)\<lparr>bf_inner := inner\<rparr>\<rparr> in
             case res of
               poll.Ready _ \<Rightarrow> read_chunk fs b1 w'
             | Pending \<Rightarrow> (Pending, b1, w'))
      | Process \<Rightarrow> read_chunk fs b w)"

section \<open>Jobs\<close>

fun is_pending :: "'a poll \<Rightarrow> bool" where
  "is_pending Pending = True"
| "is_pending _ = False"

fun overlap_read_poll ::
  "('f, 'e, 'w) FileSystem \<Rightarrow> 'f BlockFileRead list \<Rightarrow> bool \<Rightarrow> 'w \<Rightarrow> bool \<times> 'f BlockFileRead list \<times> 'w" where
  "overlap_read_poll fs [] ready w = (ready, [], w)"
| "overlap_read_poll fs (b # bs) ready w =
     (case BlockFileRead_poll fs b w of (res, b', w1) \<Rightarrow>
        case overlap_read_poll fs bs (if is_pending res then False else ready) w1 of (r, bs', w2) \<Rightarrow>
          (r, b' # bs', w2))"

fun overlap_write_poll ::
  "('f, 'e, 'w) FileSystem \<Rightarrow> 'f BlockFileWrite list \<Rightarrow> bool \<Rightarrow> 'w
    \<Rightarrow> (bool \<times> 'f BlockFileWrite list \<times> 'w) panics" where
  "overlap_write_poll fs [] ready w = Some (ready, [], w)"
| "overlap_write_poll fs (b # bs) ready w = do {
     (res, b', w1) \<leftarrow> BlockFileWrite_poll fs b w;
     (r, bs', w2) \<leftarrow> overlap_write_poll fs bs (if is_pending res then False else ready) w1;
     Some (r, b' # bs', w2)
   }"

fun BlockJob_poll ::
  "('f, 'e, 'w) FileSystem \<Rightarrow> 'f BlockJob \<Rightarrow> 'w \<Rightarrow> (('e + unit) poll \<times> 'f BlockJob \<times> 'w) panics" where
  "BlockJob_poll fs (Read (ReadSingle metadata block)) w =
     (case BlockFileRead_poll fs block w of (res, block', w') \<Rightarrow>
        Some (res, Read (ReadSingle metadata block'), w'))"
| "BlockJob_poll fs (Read (ReadOverlap tid metadata blocks)) w =
     (case overlap_read_poll fs blocks True w of (ready, blocks', w') \<Rightarrow>
        Some (if ready then poll.Ready (Inr ()) else Pending,
              Read (ReadOverlap tid metadata blocks'), w'))"
| "BlockJob_poll fs (Write (WriteSingle metadata block)) w = do {
     (res, block', w') \<leftarrow> BlockFileWrite_poll fs block w;
     Some (res, Write (WriteSingle metadata block'), w')
   }"
| "BlockJob_poll fs (Write (WriteOverlap tid metadata blocks)) w = do {
     (ready, blocks', w') \<leftarrow> overlap_write_poll fs blocks True w;
     Some (if ready then poll.Ready (Inr ()) else Pending,
           Write (WriteOverlap tid metadata blocks'), w')
   }"

text \<open>\<^verbatim>\<open>!n\<close> on an unsigned integer complements its bits.\<close>

definition usize_not :: "usize \<Rightarrow> usize" where
  "usize_not n = 2 ^ 64 - 1 - n"

fun read_parts :: "'f BlockFileRead list \<Rightarrow> bool \<Rightarrow> u8 list \<Rightarrow> bool \<times> u8 list" where
  "read_parts [] valid block = (valid, block)"
| "read_parts (file # files) valid block =
     (let valid' = (if usize_not (length (br_block file)) \<noteq> fw_length (br_window file) then False else valid)
      in read_parts files valid' (if valid' then block @ br_block file else block))"

fun BlockRead_finalize :: "'f BlockRead \<Rightarrow> 'f BlockResult" where
  "BlockRead_finalize (ReadSingle metadata block) =
     ReadResult (tf_torrent (bf_id (br_file block))) [br_file block]
       (if length (br_block block) = fw_length (br_window block)
        then Inr (Block_new metadata (br_block block)) else Inl metadata)"
| "BlockRead_finalize (ReadOverlap tid metadata blocks) =
     (case read_parts blocks True [] of (valid, block) \<Rightarrow>
        ReadResult tid (map br_file blocks)
          (if valid then Inr (Block_new metadata block) else Inl metadata))"

fun write_parts :: "'f BlockFileWrite list \<Rightarrow> bool \<Rightarrow> u8 list \<Rightarrow> bool \<times> u8 list" where
  "write_parts [] valid block = (valid, block)"
| "write_parts (file # files) valid block =
     (let valid' = (if usize_not (bw_written file) \<noteq> length (bw_block file) then False else valid)
      in write_parts files valid' (if valid' then block @ bw_block file else block))"

fun BlockWrite_finalize :: "'f BlockWrite \<Rightarrow> 'f BlockResult" where
  "BlockWrite_finalize (WriteSingle metadata block) =
     WriteResult (tf_torrent (bf_id (bw_file block))) [bw_file block]
       (if bw_written block = fw_length (bw_window block)
        then Inr (Block_new metadata (bw_block block)) else Inl metadata)"
| "BlockWrite_finalize (WriteOverlap tid metadata blocks) =
     (case write_parts blocks True [] of (valid, block) \<Rightarrow>
        WriteResult tid (map bw_file blocks)
          (if valid then Inr (Block_new metadata block) else Inl metadata))"

fun BlockJob_finalize :: "'f BlockJob \<Rightarrow> 'f BlockResult" where
  "BlockJob_finalize (Read r) = BlockRead_finalize r"
| "BlockJob_finalize (Write r) = BlockWrite_finalize r"

fun is_read :: "'f BlockJob \<Rightarrow> bool" where
  "is_read (Read _) = True"
| "is_read (Write _) = False"

fun is_write :: "'f BlockJob \<Rightarrow> bool" where
  "is_write (Read _) = False"
| "is_write (Write _) = True"

section \<open>What the jobs rely on\<close>

text \<open>A file after bytes were written at an offset; a hole is filled with zeros.\<close>

definition overwrite :: "nat \<Rightarrow> u8 list \<Rightarrow> u8 list \<Rightarrow> u8 list" where
  "overwrite off xs bytes =
     (if xs = [] then bytes
      else take off (bytes @ replicate (off - length bytes) 0) @ xs @ drop (off + length xs) bytes)"

text \<open>
  The behaviour of seeking, reading and writing that the traits of tokio document, for a file
  with the bytes \<open>bytes f\<close> and the position \<open>pos f\<close>: a successful seek sets the position; a write
  puts a prefix of the buffer there and a read appends bytes from there, each advancing the
  position by the number it reports; a pending operation changes neither.
\<close>

definition fs_laws ::
  "('f, 'e, 'w) FileSystem \<Rightarrow> ('f \<Rightarrow> u8 list) \<Rightarrow> ('f \<Rightarrow> nat) \<Rightarrow> bool" where
  "fs_laws fs bytes pos \<longleftrightarrow>
     (\<forall>f off w r f' w'. poll_seek fs f off w = (r, f', w') \<longrightarrow>
        bytes f' = bytes f \<and> (\<forall>p. r = poll.Ready (Inr p) \<longrightarrow> pos f' = off)) \<and>
     (\<forall>f buf w r f' w'. poll_write_block fs f buf w = (r, f', w') \<longrightarrow>
        (\<forall>n. r = poll.Ready (Inr n) \<longrightarrow> n \<le> length buf \<and>
           bytes f' = overwrite (pos f) (take n buf) (bytes f) \<and> pos f' = pos f + n) \<and>
        (r = Pending \<longrightarrow> bytes f' = bytes f \<and> pos f' = pos f)) \<and>
     (\<forall>f blk w r f' blk' w'. poll_read_block fs f blk w = (r, f', blk', w') \<longrightarrow>
        bytes f' = bytes f \<and>
        (\<forall>n. r = poll.Ready (Inr n) \<longrightarrow> n \<le> length (bytes f) - pos f \<and>
           blk' = blk @ take n (drop (pos f) (bytes f)) \<and> pos f' = pos f + n) \<and>
        (r = Pending \<longrightarrow> blk' = blk \<and> pos f' = pos f))"

text \<open>
  A write or read job polled while it is pending. An exact run is one in which the access that
  follows the seek in the same poll is never short: it is pending or takes all.
\<close>

inductive write_run ::
  "bool \<Rightarrow> ('f, 'e, 'w) FileSystem \<Rightarrow> 'f BlockFileWrite \<Rightarrow> 'w \<Rightarrow> 'f BlockFileWrite \<Rightarrow> 'w \<Rightarrow> bool"
  for exact fs b0 w0 where
  write_start: "write_run exact fs b0 w0 b0 w0"
| write_more: "write_run exact fs b0 w0 b w \<Longrightarrow> BlockFileWrite_poll fs b w = Some (Pending, b', w') \<Longrightarrow>
    exact \<longrightarrow> bw_state b' = Seek \<longrightarrow> bw_written b' = 0 \<Longrightarrow> write_run exact fs b0 w0 b' w'"

inductive read_run ::
  "bool \<Rightarrow> ('f, 'e, 'w) FileSystem \<Rightarrow> 'f BlockFileRead \<Rightarrow> 'w \<Rightarrow> 'f BlockFileRead \<Rightarrow> 'w \<Rightarrow> bool"
  for exact fs b0 w0 where
  read_start: "read_run exact fs b0 w0 b0 w0"
| read_more: "read_run exact fs b0 w0 b w \<Longrightarrow> BlockFileRead_poll fs b w = (Pending, b', w') \<Longrightarrow>
    exact \<longrightarrow> br_state b' = Seek \<longrightarrow> br_read b' = 0 \<Longrightarrow> read_run exact fs b0 w0 b' w'"

text \<open>An in-memory file system; its world lists how many bytes each access may move.\<close>

record MemFile =
  mf_bytes :: "u8 list"
  mf_pos :: nat

definition mem_fs :: "(MemFile, unit, nat list) FileSystem" where
  "mem_fs =
     \<lparr>poll_open_file = (\<lambda>p w. (poll.Ready (Inr \<lparr>mf_bytes = [], mf_pos = 0\<rparr>), w)),
      sync_file = (\<lambda>f w. (poll.Ready (Inr ()), f, w)),
      poll_file_size = (\<lambda>f w. (poll.Ready (Inr (length (mf_bytes f))), f, w)),
      poll_seek = (\<lambda>f off w. (poll.Ready (Inr off), f\<lparr>mf_pos := off\<rparr>, w)),
      poll_read_block = (\<lambda>f blk w. case w of
          [] \<Rightarrow> (Pending, f, blk, [])
        | n # w' \<Rightarrow>
            let k = min n (length (mf_bytes f) - mf_pos f) in
            (poll.Ready (Inr k), f\<lparr>mf_pos := mf_pos f + k\<rparr>,
             blk @ take k (drop (mf_pos f) (mf_bytes f)), w')),
      poll_write_block = (\<lambda>f buf w. case w of
          [] \<Rightarrow> (Pending, f, [])
        | n # w' \<Rightarrow>
            let k = min n (length buf) in
            (poll.Ready (Inr k),
             f\<lparr>mf_bytes := overwrite (mf_pos f) (take k buf) (mf_bytes f), mf_pos := mf_pos f + k\<rparr>, w'))\<rparr>"

definition write_inv :: "('f \<Rightarrow> u8 list) \<Rightarrow> ('f \<Rightarrow> nat) \<Rightarrow> u8 list \<Rightarrow> 'f BlockFileWrite \<Rightarrow> bool" where
  "write_inv bytes pos old b \<longleftrightarrow>
     (let f = bf_inner (bw_file b); off = fw_offset (bw_window b) in
      length (bw_block b) = fw_length (bw_window b) \<and> bw_written b \<le> length (bw_block b) \<and>
      bytes f = overwrite off (take (bw_written b) (bw_block b)) old \<and>
      (bw_state b = Seek \<longrightarrow> bw_written b = 0) \<and>
      (bw_state b = Process \<longrightarrow> pos f = off + bw_written b) \<and>
      (bw_state b = Ready \<longrightarrow> bw_written b = length (bw_block b)))"

text \<open>What holds of a write in every run: bytes outside the window are those of the file before.\<close>

definition outside_kept :: "nat \<Rightarrow> nat \<Rightarrow> u8 list \<Rightarrow> u8 list \<Rightarrow> bool" where
  "outside_kept off len old new \<longleftrightarrow>
     (\<forall>i < length old. i < off \<or> off + len \<le> i \<longrightarrow> i < length new \<and> new ! i = old ! i)"

definition write_safe :: "('f \<Rightarrow> u8 list) \<Rightarrow> ('f \<Rightarrow> nat) \<Rightarrow> u8 list \<Rightarrow> 'f BlockFileWrite \<Rightarrow> bool" where
  "write_safe bytes pos old b \<longleftrightarrow>
     (let f = bf_inner (bw_file b); off = fw_offset (bw_window b) in
      length (bw_block b) = fw_length (bw_window b) \<and> bw_written b \<le> length (bw_block b) \<and>
      outside_kept off (fw_length (bw_window b)) old (bytes f) \<and>
      (bw_state b = Process \<longrightarrow> off \<le> pos f \<and> pos f \<le> off + bw_written b))"

definition read_inv :: "('f \<Rightarrow> u8 list) \<Rightarrow> ('f \<Rightarrow> nat) \<Rightarrow> u8 list \<Rightarrow> 'f BlockFileRead \<Rightarrow> bool" where
  "read_inv bytes pos old b \<longleftrightarrow>
     (let f = bf_inner (br_file b); off = fw_offset (br_window b) in
      bytes f = old \<and> br_block b = take (br_read b) (drop off old) \<and>
      br_read b \<le> length old - off \<and>
      (br_state b = Seek \<longrightarrow> br_read b = 0) \<and>
      (br_state b = Process \<longrightarrow> pos f = off + br_read b) \<and>
      (br_state b = Ready \<longrightarrow> fw_length (br_window b) \<le> br_read b))"

section \<open>Lemmas\<close>

lemma overwrite_Nil [simp]: "overwrite off [] bytes = bytes"
  by (simp add: overwrite_def)

lemma overwrite_append:
  "overwrite (off + length xs) ys (overwrite off xs bytes) = overwrite off (xs @ ys) bytes"
proof (cases "xs = [] \<or> ys = []")
  case False
  then have ne: "ys \<noteq> []" by simp
  define pad where "pad = take off (bytes @ replicate (off - length bytes) 0)"
  have len: "length pad = off" by (simp add: pad_def)
  have "take (off + length xs) ((pad @ xs @ drop (off + length xs) bytes)
      @ replicate (off + length xs - length (pad @ xs @ drop (off + length xs) bytes)) 0) = pad @ xs"
    by (simp add: len)
  moreover have "drop (off + length xs + length ys) (pad @ xs @ drop (off + length xs) bytes)
      = drop (off + length (xs @ ys)) bytes"
    by (simp add: len ac_simps)
  moreover have "overwrite off xs bytes = pad @ xs @ drop (off + length xs) bytes"
    using False by (simp add: overwrite_def pad_def)
  ultimately have "overwrite (off + length xs) ys (overwrite off xs bytes)
      = (pad @ xs) @ ys @ drop (off + length (xs @ ys)) bytes"
    using ne by (simp only: overwrite_def [of "off + length xs"] if_False)
  also have "\<dots> = overwrite off (xs @ ys) bytes"
    using False by (simp add: overwrite_def pad_def)
  finally show ?thesis .
qed (auto simp: overwrite_def)

lemma seek_law:
  assumes "fs_laws fs bytes pos" and "poll_seek fs f off w = (r, f', w')"
  shows "bytes f' = bytes f" and "r = poll.Ready (Inr p) \<Longrightarrow> pos f' = off"
proof -
  note law = assms(1) [unfolded fs_laws_def, THEN conjunct1, rule_format, OF assms(2)]
  show "bytes f' = bytes f" and "r = poll.Ready (Inr p) \<Longrightarrow> pos f' = off"
    using law by simp_all
qed

lemma write_law:
  assumes "fs_laws fs bytes pos" and "poll_write_block fs f buf w = (r, f', w')"
  shows "r = poll.Ready (Inr n) \<Longrightarrow> n \<le> length buf \<and>
      bytes f' = overwrite (pos f) (take n buf) (bytes f) \<and> pos f' = pos f + n"
    and "r = Pending \<Longrightarrow> bytes f' = bytes f \<and> pos f' = pos f"
proof -
  note law = assms(1) [unfolded fs_laws_def, THEN conjunct2, THEN conjunct1, rule_format, OF assms(2)]
  show "n \<le> length buf \<and> bytes f' = overwrite (pos f) (take n buf) (bytes f) \<and> pos f' = pos f + n"
    if "r = poll.Ready (Inr n)" using law that by simp
  show "bytes f' = bytes f \<and> pos f' = pos f" if "r = Pending" using law that by simp
qed

lemma read_law:
  assumes "fs_laws fs bytes pos" and "poll_read_block fs f blk w = (r, f', blk', w')"
  shows "bytes f' = bytes f"
    and "r = poll.Ready (Inr n) \<Longrightarrow> n \<le> length (bytes f) - pos f \<and>
      blk' = blk @ take n (drop (pos f) (bytes f)) \<and> pos f' = pos f + n"
    and "r = Pending \<Longrightarrow> blk' = blk \<and> pos f' = pos f"
proof -
  note law = assms(1) [unfolded fs_laws_def, THEN conjunct2, THEN conjunct2, rule_format, OF assms(2)]
  show "bytes f' = bytes f" using law by simp
  show "n \<le> length (bytes f) - pos f \<and> blk' = blk @ take n (drop (pos f) (bytes f)) \<and> pos f' = pos f + n"
    if "r = poll.Ready (Inr n)" using law that by simp
  show "blk' = blk \<and> pos f' = pos f" if "r = Pending" using law that by simp
qed

lemma poll_result_cases:
  obtains (pend) "r = Pending" | (err) e where "r = poll.Ready (Inl e)"
  | (got) n where "r = poll.Ready (Inr n)"
proof (cases r)
  case (Ready x)
  with that show ?thesis by (cases x) auto
qed (use that in auto)

lemma mem_fs_laws: "fs_laws mem_fs mf_bytes mf_pos"
  by (auto simp: fs_laws_def mem_fs_def Let_def split: list.splits)

lemma take_append_slice:
  "a + n \<le> length xs \<Longrightarrow> take a xs @ take n (drop a xs) = take (a + n) xs"
  by (simp add: take_add)

lemma write_chunk_inv:
  assumes laws: "fs_laws fs bytes pos" and inv: "write_inv bytes pos old b"
    and at: "pos (bf_inner (bw_file b)) = fw_offset (bw_window b) + bw_written b"
    and nr: "bw_state b \<noteq> Ready"
  shows "\<exists>r b' w'. write_chunk fs b w = Some (r, b', w') \<and>
    ((bw_state b' = Seek \<longrightarrow> bw_written b' = 0) \<longrightarrow> (\<forall>e. r \<noteq> poll.Ready (Inl e)) \<longrightarrow>
       write_inv bytes pos old b' \<and> bw_window b' = bw_window b \<and> bw_block b' = bw_block b \<and>
       (r = poll.Ready (Inr ()) \<longrightarrow> bw_state b' = Ready))"
proof -
  let ?f = "bf_inner (bw_file b)" and ?l = "fw_length (bw_window b)"
  let ?buf = "drop (bw_written b) (bw_block b)"
  from inv have len: "length (bw_block b) = ?l" and wr: "bw_written b \<le> ?l"
    and cont: "bytes ?f = overwrite (fw_offset (bw_window b)) (take (bw_written b) (bw_block b)) old"
    by (auto simp: write_inv_def Let_def)
  have sl: "slice (bw_block b) (bw_written b) ?l = Some ?buf"
    using len wr by (simp add: slice_def)
  obtain r f' w' where p: "poll_write_block fs ?f ?buf w = (r, f', w')" using prod_cases3 by blast
  note law = write_law [OF laws p]
  show ?thesis
  proof (cases r)
    case Pending
    with law(2) sl p len wr cont at show ?thesis by (simp add: write_chunk_def write_inv_def Let_def)
  next
    case (Ready res)
    show ?thesis
    proof (cases res)
      case (Inl e)
      with Ready sl p show ?thesis by (simp add: write_chunk_def Let_def)
    next
      case (Inr n)
      with Ready law(1) [of n] have n: "n \<le> length ?buf"
        and f': "bytes f' = overwrite (pos ?f) (take n ?buf) (bytes ?f)" "pos f' = pos ?f + n" by auto
      have "bytes f' = overwrite (fw_offset (bw_window b)) (take (bw_written b + n) (bw_block b)) old"
        using overwrite_append [of "fw_offset (bw_window b)" "take (bw_written b) (bw_block b)" "take n ?buf" old]
          f'(1) cont at len wr by (simp add: take_add)
      with Ready Inr sl p n f' len wr at nr show ?thesis
        by (cases "bw_state b") (auto simp: write_chunk_def write_inv_def Let_def)
    qed
  qed
qed

lemma write_poll_inv:
  assumes laws: "fs_laws fs bytes pos" and inv: "write_inv bytes pos old b"
  shows "\<exists>r b' w'. BlockFileWrite_poll fs b w = Some (r, b', w') \<and>
    ((bw_state b' = Seek \<longrightarrow> bw_written b' = 0) \<longrightarrow> (\<forall>e. r \<noteq> poll.Ready (Inl e)) \<longrightarrow>
       write_inv bytes pos old b' \<and> bw_window b' = bw_window b \<and> bw_block b' = bw_block b \<and>
       (r = poll.Ready (Inr ()) \<longrightarrow> bw_state b' = Ready))"
proof (cases "bw_state b")
  case Process
  with inv write_chunk_inv [OF laws inv] show ?thesis
    by (auto simp: BlockFileWrite_poll_def write_inv_def Let_def)
next
  case Seek
  let ?f = "bf_inner (bw_file b)"
  obtain r f' w' where p: "poll_seek fs ?f (fw_offset (bw_window b)) w = (r, f', w')"
    using prod_cases3 by blast
  note law = seek_law [OF laws p]
  define b1 where "b1 = b\<lparr>bw_file := (bw_file b)\<lparr>bf_inner := f'\<rparr>\<rparr>"
  have inv1: "write_inv bytes pos old b1"
    using inv law(1) Seek by (simp add: write_inv_def b1_def Let_def)
  show ?thesis
  proof (cases r rule: poll_result_cases)
    case pend
    with Seek p inv1 show ?thesis by (simp add: BlockFileWrite_poll_def b1_def)
  next
    case err
    with Seek p show ?thesis by (simp add: BlockFileWrite_poll_def b1_def)
  next
    case (got q)
    with law(2) [OF got] inv Seek have "pos (bf_inner (bw_file b1)) = fw_offset (bw_window b1) + bw_written b1"
      by (simp add: b1_def write_inv_def Let_def)
    from write_chunk_inv [OF laws inv1 this, of w'] Seek
    obtain r2 b2 w2 where "write_chunk fs b1 w' = Some (r2, b2, w2)"
      "(bw_state b2 = Seek \<longrightarrow> bw_written b2 = 0) \<longrightarrow> (\<forall>e. r2 \<noteq> poll.Ready (Inl e)) \<longrightarrow>
       write_inv bytes pos old b2 \<and> bw_window b2 = bw_window b \<and> bw_block b2 = bw_block b \<and>
       (r2 = poll.Ready (Inr ()) \<longrightarrow> bw_state b2 = Ready)"
      by (auto simp: b1_def)
    with Seek p got show ?thesis by (simp add: BlockFileWrite_poll_def Let_def b1_def)
  qed
qed (use inv in \<open>simp add: BlockFileWrite_poll_def\<close>)

lemma overwrite_outside:
  assumes "outside_kept off len old bs" and "off \<le> p" and "p + length xs \<le> off + len"
  shows "outside_kept off len old (overwrite p xs bs)"
  unfolding outside_kept_def
proof (intro allI impI)
  fix i assume i: "i < length old" "i < off \<or> off + len \<le> i"
  with assms(1) have bs: "i < length bs" "bs ! i = old ! i" by (auto simp: outside_kept_def)
  let ?pre = "take p (bs @ replicate (p - length bs) 0)"
  have pre: "length ?pre = p" by simp
  from i(2) assms(2,3) consider "i < p" | "p + length xs \<le> i" by linarith
  then have "i < length (?pre @ xs @ drop (p + length xs) bs) \<and> (?pre @ xs @ drop (p + length xs) bs) ! i = bs ! i"
  proof cases
    case 1
    then show ?thesis using bs(1) by (simp add: nth_append)
  next
    case 2
    then have "\<not> i < p" "\<not> i - p < length xs" by simp_all
    then show ?thesis using 2 bs(1) by (simp add: nth_append)
  qed
  with bs show "i < length (overwrite p xs bs) \<and> overwrite p xs bs ! i = old ! i"
    by (simp only: overwrite_def) simp
qed

lemma write_chunk_safe:
  assumes laws: "fs_laws fs bytes pos" and safe: "write_safe bytes pos old b"
    and at: "fw_offset (bw_window b) \<le> pos (bf_inner (bw_file b))"
      "pos (bf_inner (bw_file b)) \<le> fw_offset (bw_window b) + bw_written b"
  shows "\<exists>r b' w'. write_chunk fs b w = Some (r, b', w') \<and>
    ((\<forall>e. r \<noteq> poll.Ready (Inl e)) \<longrightarrow> write_safe bytes pos old b' \<and> bw_window b' = bw_window b \<and> bw_block b' = bw_block b)"
proof -
  let ?f = "bf_inner (bw_file b)" and ?l = "fw_length (bw_window b)" and ?off = "fw_offset (bw_window b)"
  let ?buf = "drop (bw_written b) (bw_block b)"
  from safe have len: "length (bw_block b) = ?l" and wr: "bw_written b \<le> ?l"
    and kept: "outside_kept ?off ?l old (bytes ?f)" by (auto simp: write_safe_def Let_def)
  have sl: "slice (bw_block b) (bw_written b) ?l = Some ?buf" using len wr by (simp add: slice_def)
  obtain r f' w' where p: "poll_write_block fs ?f ?buf w = (r, f', w')" using prod_cases3 by blast
  note law = write_law [OF laws p]
  show ?thesis
  proof (cases r rule: poll_result_cases)
    case pend
    with law(2) [OF pend] sl p len wr kept at show ?thesis by (simp add: write_chunk_def write_safe_def Let_def)
  next
    case err
    with sl p show ?thesis by (simp add: write_chunk_def Let_def)
  next
    case (got n)
    note f' = law(1) [OF got]
    have "outside_kept ?off ?l old (bytes f')"
      using f' at len wr by (simp only: f') (intro overwrite_outside [OF kept]; simp)
    with got sl p f' len wr at show ?thesis
      by (auto simp: write_chunk_def write_safe_def Let_def)
  qed
qed

lemma write_poll_safe:
  assumes laws: "fs_laws fs bytes pos" and safe: "write_safe bytes pos old b"
  shows "\<exists>r b' w'. BlockFileWrite_poll fs b w = Some (r, b', w') \<and>
    ((\<forall>e. r \<noteq> poll.Ready (Inl e)) \<longrightarrow> write_safe bytes pos old b' \<and> bw_window b' = bw_window b \<and> bw_block b' = bw_block b)"
proof (cases "bw_state b")
  case Process
  with safe write_chunk_safe [OF laws safe] show ?thesis
    by (auto simp: BlockFileWrite_poll_def write_safe_def Let_def)
next
  case Seek
  obtain r f' w' where p: "poll_seek fs (bf_inner (bw_file b)) (fw_offset (bw_window b)) w = (r, f', w')"
    using prod_cases3 by blast
  note law = seek_law [OF laws p]
  define b1 where "b1 = b\<lparr>bw_file := (bw_file b)\<lparr>bf_inner := f'\<rparr>\<rparr>"
  have safe1: "write_safe bytes pos old b1" using safe law(1) Seek by (simp add: write_safe_def b1_def Let_def)
  show ?thesis
  proof (cases r rule: poll_result_cases)
    case (got q)
    have "pos (bf_inner (bw_file b1)) = fw_offset (bw_window b1)" using law(2) [OF got] by (simp add: b1_def)
    then have "fw_offset (bw_window b1) \<le> pos (bf_inner (bw_file b1))"
      "pos (bf_inner (bw_file b1)) \<le> fw_offset (bw_window b1) + bw_written b1" by simp_all
    from write_chunk_safe [OF laws safe1 this, of w'] Seek p got show ?thesis
      by (simp add: BlockFileWrite_poll_def Let_def b1_def)
  qed (use Seek p safe1 in \<open>simp_all add: BlockFileWrite_poll_def Let_def b1_def\<close>)
qed (use safe in \<open>simp add: BlockFileWrite_poll_def\<close>)

lemma read_chunk_inv:
  assumes laws: "fs_laws fs bytes pos" and inv: "read_inv bytes pos old b"
    and at: "pos (bf_inner (br_file b)) = fw_offset (br_window b) + br_read b"
    and nr: "br_state b \<noteq> Ready" and p: "read_chunk fs b w = (r, b', w')"
    and long: "br_state b' = Seek \<longrightarrow> br_read b' = 0" and ok: "\<forall>e. r \<noteq> poll.Ready (Inl e)"
  shows "read_inv bytes pos old b' \<and> br_window b' = br_window b \<and>
    (r = poll.Ready (Inr ()) \<longrightarrow> br_state b' = Ready)"
proof -
  let ?f = "bf_inner (br_file b)" and ?off = "fw_offset (br_window b)"
  from inv have i: "bytes ?f = old" "br_block b = take (br_read b) (drop ?off old)"
    "br_read b \<le> length old - ?off" by (auto simp: read_inv_def Let_def)
  obtain q f' blk w1 where q: "poll_read_block fs ?f (br_block b) w = (q, f', blk, w1)"
    using prod_cases4 by blast
  note law = read_law [OF laws q]
  show ?thesis
  proof (cases q rule: poll_result_cases)
    case pend
    with p q law(1) law(3) [OF pend] i at show ?thesis
      by (auto simp: read_chunk_def read_inv_def Let_def)
  next
    case err
    with p q ok show ?thesis by (auto simp: read_chunk_def Let_def)
  next
    case (got n)
    note l = law(2) [OF got]
    have "blk = take (br_read b) (drop ?off old) @ take n (drop (br_read b) (drop ?off old))"
      using l i at by (simp add: add.commute)
    then have blk: "blk = take (br_read b + n) (drop ?off old)" by (simp only: take_add)
    have "n \<le> length old - (?off + br_read b)" using l i at by simp
    then have "br_read b + n \<le> length old - ?off" using i(3) by arith
    with blk p q got l law(1) i at nr long show ?thesis
      by (cases "br_state b") (auto simp: read_chunk_def read_inv_def Let_def split: if_splits)
  qed
qed

lemma read_poll_inv:
  assumes laws: "fs_laws fs bytes pos" and inv: "read_inv bytes pos old b"
    and seeks: "\<forall>f off w e f' w'. poll_seek fs f off w \<noteq> (poll.Ready (Inl e), f', w')"
    and p: "BlockFileRead_poll fs b w = (r, b', w')"
    and long: "br_state b' = Seek \<longrightarrow> br_read b' = 0" and ok: "\<forall>e. r \<noteq> poll.Ready (Inl e)"
  shows "read_inv bytes pos old b' \<and> br_window b' = br_window b \<and>
    (r = poll.Ready (Inr ()) \<longrightarrow> br_state b' = Ready)"
proof (cases "br_state b")
  case Process
  with inv p read_chunk_inv [OF laws inv _ _ _ long ok, of w w'] show ?thesis
    by (auto simp: BlockFileRead_poll_def read_inv_def Let_def)
next
  case Seek
  let ?f = "bf_inner (br_file b)"
  obtain q f' w1 where q: "poll_seek fs ?f (fw_offset (br_window b)) w = (q, f', w1)"
    using prod_cases3 by blast
  note law = seek_law [OF laws q]
  define b1 where "b1 = b\<lparr>br_file := (br_file b)\<lparr>bf_inner := f'\<rparr>\<rparr>"
  have inv1: "read_inv bytes pos old b1"
    using inv law(1) Seek by (simp add: read_inv_def b1_def Let_def)
  show ?thesis
  proof (cases q rule: poll_result_cases)
    case pend
    with Seek p q inv1 show ?thesis by (auto simp: BlockFileRead_poll_def b1_def Let_def)
  next
    case (err e)
    with q seeks show ?thesis by blast
  next
    case (got x)
    with law(2) [OF got] inv Seek have "pos (bf_inner (br_file b1)) = fw_offset (br_window b1) + br_read b1"
      by (simp add: b1_def read_inv_def Let_def)
    moreover from got Seek p q have "read_chunk fs b1 w1 = (r, b', w')"
      by (simp add: BlockFileRead_poll_def b1_def Let_def)
    ultimately show ?thesis
      using read_chunk_inv [OF laws inv1 _ _ _ long ok, of w1 w'] Seek by (auto simp: b1_def)
  qed
qed (use inv p in \<open>auto simp: BlockFileRead_poll_def\<close>)

lemma write_run_inv:
  assumes "write_run True fs (BlockFileWrite_new file block win) w0 b w" and "fs_laws fs bytes pos"
    and "length block = fw_length win"
  shows "write_inv bytes pos (bytes (bf_inner file)) b \<and> bw_window b = win \<and> bw_block b = block"
  using assms(1)
proof induction
  case write_start
  from assms(3) show ?case by (simp add: write_inv_def BlockFileWrite_new_def Let_def)
next
  case (write_more b w b' w')
  with write_poll_inv [OF assms(2), of "bytes (bf_inner file)" b w] show ?case by auto
qed

lemma write_run_safe:
  assumes "write_run exact fs (BlockFileWrite_new file block win) w0 b w" and "fs_laws fs bytes pos"
    and "length block = fw_length win"
  shows "write_safe bytes pos (bytes (bf_inner file)) b \<and> bw_window b = win \<and> bw_block b = block"
  using assms(1)
proof induction
  case write_start
  from assms(3) show ?case by (simp add: write_safe_def outside_kept_def BlockFileWrite_new_def Let_def)
next
  case (write_more b w b' w')
  with write_poll_safe [OF assms(2), of "bytes (bf_inner file)" b w] show ?case by auto
qed

lemma read_run_inv:
  assumes "read_run True fs (BlockFileRead_new file win) w0 b w" and "fs_laws fs bytes pos"
    and "\<forall>f off w e f' w'. poll_seek fs f off w \<noteq> (poll.Ready (Inl e), f', w')"
  shows "read_inv bytes pos (bytes (bf_inner file)) b \<and> br_window b = win"
  using assms(1)
proof induction
  case read_start
  show ?case by (simp add: read_inv_def BlockFileRead_new_def Let_def)
next
  case (read_more b w b' w')
  with read_poll_inv [OF assms(2) _ assms(3) read_more(2)] show ?case by auto
qed

lemma read_chunk_bytes:
  assumes "fs_laws fs bytes pos" and "read_chunk fs b w = (r, b', w')"
  shows "bytes (bf_inner (br_file b')) = bytes (bf_inner (br_file b))"
  using assms(2) read_law(1) [OF assms(1), of "bf_inner (br_file b)" "br_block b" w]
  by (auto simp: read_chunk_def Let_def split: prod.splits poll.splits sum.splits if_splits)

lemma read_poll_bytes:
  assumes "fs_laws fs bytes pos" and "BlockFileRead_poll fs b w = (r, b', w')"
  shows "bytes (bf_inner (br_file b')) = bytes (bf_inner (br_file b))"
  using assms(2) read_chunk_bytes [OF assms(1)] seek_law(1) [OF assms(1)]
  by (fastforce simp: BlockFileRead_poll_def Let_def split: BlockState.splits prod.splits poll.splits)

lemma read_run_bytes:
  "read_run exact fs b0 w0 b w \<Longrightarrow> fs_laws fs bytes pos \<Longrightarrow>
   bytes (bf_inner (br_file b)) = bytes (bf_inner (br_file b0))"
  by (induction rule: read_run.induct) (auto dest: read_poll_bytes)

lemma write_chunk_ready:
  assumes "write_chunk fs b w = Some (poll.Ready (Inr ()), b', w')"
  shows "bw_state b' = Ready"
proof -
  from assms obtain buf where buf: "slice (bw_block b) (bw_written b) (fw_length (bw_window b)) = Some buf"
    by (auto simp: write_chunk_def bind_eq_Some_conv)
  obtain q f' w1 where q: "poll_write_block fs (bf_inner (bw_file b)) buf w = (q, f', w1)"
    using prod_cases3 by blast
  show ?thesis
    by (cases q rule: poll_result_cases)
      (use assms buf q in \<open>auto simp: write_chunk_def Let_def split: if_splits\<close>)
qed

lemma write_poll_ready:
  "BlockFileWrite_poll fs b w = Some (poll.Ready (Inr ()), b', w') \<Longrightarrow> bw_state b' = Ready"
  by (auto simp: BlockFileWrite_poll_def Let_def dest: write_chunk_ready
      split: BlockState.splits prod.splits poll.splits sum.splits)

lemma read_parts_invalid: "read_parts bs False block = (False, block)"
  by (induction bs) (auto simp: Let_def)

lemma write_parts_invalid: "write_parts bs False block = (False, block)"
  by (induction bs) (auto simp: Let_def)

section \<open>Properties\<close>

text \<open>
  C27. Writing one file's part of a block. However the file system delays and splits the
  accesses, polling never panics and, as long as no access fails, bytes outside the window stay as
  they were. In an exact run, in which a write made in the same poll as the seek is never short,
  a job that reports success has put the block at the window's offset with everything else
  unchanged, and finalising the job answers \<^verbatim>\<open>Ok\<close> with that block.
\<close>

theorem write_job_correct:
  assumes "fs_laws fs bytes pos" and "length block = fw_length win"
    and "write_run exact fs (BlockFileWrite_new file block win) w0 b w"
  shows "\<exists>r b' w'. BlockFileWrite_poll fs b w = Some (r, b', w') \<and>
    ((\<forall>e. r \<noteq> poll.Ready (Inl e)) \<longrightarrow>
       (\<forall>i < length (bytes (bf_inner file)). i < fw_offset win \<or> fw_offset win + length block \<le> i \<longrightarrow>
          i < length (bytes (bf_inner (bw_file b'))) \<and> bytes (bf_inner (bw_file b')) ! i = bytes (bf_inner file) ! i)) \<and>
    (exact \<longrightarrow> r = poll.Ready (Inr ()) \<longrightarrow>
       bytes (bf_inner (bw_file b')) = overwrite (fw_offset win) block (bytes (bf_inner file)) \<and>
       BlockWrite_finalize (WriteSingle m b') =
         WriteResult (tf_torrent (bf_id (bw_file b'))) [bw_file b'] (Inr (Block_new m block)))"
proof -
  let ?old = "bytes (bf_inner file)"
  from write_run_safe [OF assms(3,1,2)] write_poll_safe [OF assms(1), of ?old b w] obtain r b' w' where
    p: "BlockFileWrite_poll fs b w = Some (r, b', w')" and
    safe: "(\<forall>e. r \<noteq> poll.Ready (Inl e)) \<longrightarrow> write_safe bytes pos ?old b' \<and> bw_window b' = win" by auto
  have "write_inv bytes pos ?old b' \<and> bw_window b' = win \<and> bw_block b' = block \<and> bw_state b' = Ready"
    if exact and r: "r = poll.Ready (Inr ())"
  proof -
    from that assms(3) have run: "write_run True fs (BlockFileWrite_new file block win) w0 b w" by simp
    have "bw_state b' = Ready" using p r by (auto intro: write_poll_ready)
    with write_run_inv [OF run assms(1,2)] write_poll_inv [OF assms(1), of ?old b w] p r show ?thesis by auto
  qed
  with p safe assms(2) show ?thesis
    by (auto simp: write_inv_def write_safe_def outside_kept_def Let_def)
qed

theorem write_job_correct_witness:
  "\<exists>b'. BlockFileWrite_poll mem_fs
      (BlockFileWrite_new (BlockFile_new (TorrentFileId_new (TorrentId 0) (FileId 0))
         \<lparr>mf_bytes = [9, 9, 9], mf_pos = 0\<rparr>) [1, 2] (FileWindow_new 1 2)) [5]
      = Some (poll.Ready (Inr ()), b', []) \<and> mf_bytes (bf_inner (bw_file b')) = [9, 1, 2]"
proof -
  let ?file = "BlockFile_new (TorrentFileId_new (TorrentId 0) (FileId 0)) \<lparr>mf_bytes = [9, 9, 9], mf_pos = 0\<rparr>"
  let ?b = "BlockFileWrite_new ?file [1, 2] (FileWindow_new 1 2)"
  have "length [1, 2 :: u8] = fw_length (FileWindow_new 1 2)" by (simp add: FileWindow_new_def)
  from write_job_correct [of mem_fs mf_bytes mf_pos "[1, 2]" "FileWindow_new 1 2" True ?file "[5]" ?b
      "[5]" "BlockMetadata_new 0 0 2", OF mem_fs_laws this write_start] obtain r b' w' where
    p: "BlockFileWrite_poll mem_fs ?b [5] = Some (r, b', w')" and
    q: "r = poll.Ready (Inr ()) \<longrightarrow> mf_bytes (bf_inner (bw_file b')) = overwrite 1 [1, 2] [9, 9, 9]"
    by (auto simp: FileWindow_new_def BlockFile_new_def)
  have "fst (the (BlockFileWrite_poll mem_fs ?b [5])) = poll.Ready (Inr ())"
    "snd (snd (the (BlockFileWrite_poll mem_fs ?b [5]))) = []"
    by (simp_all add: BlockFileWrite_poll_def BlockFileWrite_new_def BlockFile_new_def mem_fs_def
        FileWindow_new_def write_chunk_def slice_def Let_def)
  with p q show ?thesis by (auto simp: overwrite_def numeral_2_eq_2)
qed

text \<open>
  C28. Reading one file's part of a block. However the file system behaves, the file is
  unchanged. When seeks succeed and a read made in the same poll as the seek is never short,
  a job that reports success and whose finalisation answers \<^verbatim>\<open>Ok\<close> delivers exactly the bytes of the
  window, all of which lie in the file.
\<close>

theorem read_job_correct:
  assumes "fs_laws fs bytes pos"
    and "read_run exact fs (BlockFileRead_new file win) w0 b w"
    and "BlockFileRead_poll fs b w = (r, b', w')"
  shows "bytes (bf_inner (br_file b')) = bytes (bf_inner file) \<and>
    (exact \<longrightarrow> (\<forall>f off w e f' w'. poll_seek fs f off w \<noteq> (poll.Ready (Inl e), f', w')) \<longrightarrow>
     r = poll.Ready (Inr ()) \<longrightarrow>
     (\<forall>tid files block. BlockRead_finalize (ReadSingle m b') = ReadResult tid files (Inr block) \<longrightarrow>
        files = [br_file b'] \<and>
        block = Block_new m (take (fw_length win) (drop (fw_offset win) (bytes (bf_inner file)))) \<and>
        fw_offset win + fw_length win \<le> max (fw_offset win) (length (bytes (bf_inner file)))))"
proof (intro conjI impI allI)
  show "bytes (bf_inner (br_file b')) = bytes (bf_inner file)"
    using read_poll_bytes [OF assms(1,3)] read_run_bytes [OF assms(2,1)] by (simp add: BlockFileRead_new_def)
next
  fix tid files block
  assume exact and seeks: "\<forall>f off w e f' w'. poll_seek fs f off w \<noteq> (poll.Ready (Inl e), f', w')"
    and r: "r = poll.Ready (Inr ())" and fin: "BlockRead_finalize (ReadSingle m b') = ReadResult tid files (Inr block)"
  from \<open>exact\<close> assms(2) have run: "read_run True fs (BlockFileRead_new file win) w0 b w" by simp
  note p = assms(3) [unfolded r]
  have "br_state b' = Ready"
    using p by (auto simp: BlockFileRead_poll_def read_chunk_def Let_def split_beta
        split: BlockState.splits poll.splits sum.splits if_splits)
  with read_poll_inv [OF assms(1) _ seeks p] read_run_inv [OF run assms(1) seeks]
  have i: "read_inv bytes pos (bytes (bf_inner file)) b'" "br_window b' = win" by auto
  from fin have len: "length (br_block b') = fw_length win"
    and res: "files = [br_file b']" "block = Block_new m (br_block b')"
    using i(2) by (auto split: if_splits)
  from i have "br_block b' = take (br_read b') (drop (fw_offset win) (bytes (bf_inner file)))"
    by (auto simp: read_inv_def Let_def)
  with len res show "files = [br_file b']"
    "block = Block_new m (take (fw_length win) (drop (fw_offset win) (bytes (bf_inner file))))"
    "fw_offset win + fw_length win \<le> max (fw_offset win) (length (bytes (bf_inner file)))"
    by (auto simp: min_def split: if_splits)
qed

theorem read_job_correct_witness:
  "take 2 (drop 1 [7, 8, 9 :: u8]) = [8, 9] \<and>
   (\<exists>b'. BlockFileRead_poll mem_fs
      (BlockFileRead_new (BlockFile_new (TorrentFileId_new (TorrentId 0) (FileId 0))
         \<lparr>mf_bytes = [7, 8, 9], mf_pos = 0\<rparr>) (FileWindow_new 1 2)) [2]
      = (poll.Ready (Inr ()), b', []) \<and> mf_bytes (bf_inner (br_file b')) = [7, 8, 9])"
proof -
  let ?file = "BlockFile_new (TorrentFileId_new (TorrentId 0) (FileId 0)) \<lparr>mf_bytes = [7, 8, 9], mf_pos = 0\<rparr>"
  let ?win = "FileWindow_new 1 2"
  let ?b = "BlockFileRead_new ?file ?win"
  let ?b' = "fst (snd (BlockFileRead_poll mem_fs ?b [2]))"
  have p: "BlockFileRead_poll mem_fs ?b [2] = (poll.Ready (Inr ()), ?b', [])"
    by (simp add: BlockFileRead_poll_def BlockFileRead_new_def BlockFile_new_def mem_fs_def
        FileWindow_new_def read_chunk_def Let_def)
  have f: "BlockRead_finalize (ReadSingle (BlockMetadata_new 0 0 2) ?b')
      = ReadResult (TorrentId 0) [br_file ?b'] (Inr (Block_new (BlockMetadata_new 0 0 2) [8, 9]))"
    by (simp add: BlockFileRead_poll_def BlockFileRead_new_def BlockFile_new_def mem_fs_def
        FileWindow_new_def TorrentFileId_new_def read_chunk_def Let_def)
  have "\<forall>f off w e f' w'. poll_seek mem_fs f off w \<noteq> (poll.Ready (Inl e), f', w')"
    by (simp add: mem_fs_def)
  with read_job_correct [OF mem_fs_laws read_start [of True] p, of "BlockMetadata_new 0 0 2"] f p show ?thesis
    by (auto simp: BlockFile_new_def)
qed

text \<open>
  A short access right after the seek corrupts data silently: the job stays in the state
  \<^verbatim>\<open>Seek\<close>, so the next poll seeks back to the start of the window before it goes on. A write of
  four bytes that the file system takes in two halves leaves the second half at the start and
  is reported as written; a read in two halves delivers the first half twice and is reported as
  a good block.
\<close>

theorem short_access_corrupts:
  "let fid = TorrentFileId_new (TorrentId 0) (FileId 0);
       m = BlockMetadata_new 0 0 4;
       w1 = the (BlockFileWrite_poll mem_fs (BlockFileWrite_new
              (BlockFile_new fid \<lparr>mf_bytes = [0, 0, 0, 0], mf_pos = 0\<rparr>) [1, 2, 3, 4] (FileWindow_new 0 4)) [2, 2]);
       w2 = the (BlockFileWrite_poll mem_fs (fst (snd w1)) (snd (snd w1)));
       r1 = BlockFileRead_poll mem_fs (BlockFileRead_new
              (BlockFile_new fid \<lparr>mf_bytes = [1, 2, 3, 4], mf_pos = 0\<rparr>) (FileWindow_new 0 4)) [2, 2];
       r2 = BlockFileRead_poll mem_fs (fst (snd r1)) (snd (snd r1))
   in fst w1 = Pending \<and> fst w2 = poll.Ready (Inr ()) \<and>
      mf_bytes (bf_inner (bw_file (fst (snd w2)))) = [3, 4, 0, 0] \<and>
      BlockWrite_finalize (WriteSingle m (fst (snd w2)))
        = WriteResult (TorrentId 0) [bw_file (fst (snd w2))] (Inr (Block_new m [1, 2, 3, 4])) \<and>
      fst r1 = Pending \<and> fst r2 = poll.Ready (Inr ()) \<and>
      BlockRead_finalize (ReadSingle m (fst (snd r2)))
        = ReadResult (TorrentId 0) [br_file (fst (snd r2))] (Inr (Block_new m [1, 2, 1, 2]))"
  by (simp add: BlockFileWrite_poll_def BlockFileWrite_new_def BlockFile_new_def mem_fs_def
      FileWindow_new_def write_chunk_def slice_def overwrite_def TorrentFileId_new_def
      BlockFileRead_poll_def BlockFileRead_new_def read_chunk_def Let_def)

text \<open>
  A block that spans several files can never be read or written successfully: the length
  test of the finalisation complements the bits of the length, so it fails for every file part
  of less than \<open>2^63\<close> bytes, whatever was read or written. Every such job ends in the error.
\<close>

theorem overlap_never_valid:
  assumes "r \<noteq> []" and "\<forall>b \<in> set r. length (br_block b) < 2 ^ 63 \<and> fw_length (br_window b) < 2 ^ 63"
    and "ws \<noteq> []" and "\<forall>b \<in> set ws. bw_written b < 2 ^ 63 \<and> length (bw_block b) < 2 ^ 63"
  shows "BlockRead_finalize (ReadOverlap tid m r) = ReadResult tid (map br_file r) (Inl m) \<and>
    BlockWrite_finalize (WriteOverlap tid m ws) = WriteResult tid (map bw_file ws) (Inl m)"
proof -
  from assms(1,3) obtain b bs v vs where l: "r = b # bs" "ws = v # vs" by (meson neq_Nil_conv)
  with assms(2,4) have "usize_not (length (br_block b)) \<noteq> fw_length (br_window b)"
    "usize_not (bw_written v) \<noteq> length (bw_block v)" by (auto simp: usize_not_def)
  with l show ?thesis by (simp add: read_parts_invalid write_parts_invalid Let_def)
qed

theorem overlap_never_valid_witness:
  "BlockRead_finalize (ReadOverlap (TorrentId 0) (BlockMetadata_new 0 0 0)
     [BlockFileRead_new (BlockFile_new (TorrentFileId_new (TorrentId 0) (FileId 0)) ()) (FileWindow_new 0 0)])
   = ReadResult (TorrentId 0) [BlockFile_new (TorrentFileId_new (TorrentId 0) (FileId 0)) ()]
       (Inl (BlockMetadata_new 0 0 0))"
proof -
  let ?f = "BlockFile_new (TorrentFileId_new (TorrentId 0) (FileId 0)) ()"
  let ?r = "BlockFileRead_new ?f (FileWindow_new 0 0)"
  let ?w = "BlockFileWrite_new ?f [] (FileWindow_new 0 0)"
  have "BlockRead_finalize (ReadOverlap (TorrentId 0) (BlockMetadata_new 0 0 0) [?r])
      = ReadResult (TorrentId 0) (map br_file [?r]) (Inl (BlockMetadata_new 0 0 0))"
    by (rule overlap_never_valid [where ws = "[?w]", THEN conjunct1])
      (simp_all add: BlockFileRead_new_def BlockFileWrite_new_def FileWindow_new_def)
  then show ?thesis by (simp add: BlockFileRead_new_def)
qed

end
