(* ===== verification/DiskManagers.thy ===== *)
theory DiskManagers
  imports BlockJobs
begin

text \<open>
  The disk manager (\<^verbatim>\<open>src/disk/manager.rs\<close>) and its messages (\<^verbatim>\<open>src/disk/message.rs\<close>).

  The file system and its world are parameters, as in theory \<^verbatim>\<open>BlockJobs\<close>; so is the cache of
  open files, an \<^verbatim>\<open>LruCache\<close> of the lru-cache crate, of which only insertion and removal are used
  (\<open>lru_laws\<close>: a cache of bounded capacity, which evicts when it is full).
  The hash set of torrents is a list with one entry per identifier. The outer loop of \<^verbatim>\<open>poll\<close>
  need not end; it takes fuel, and running out of fuel is the outer \<^const>\<open>None\<close>.
\<close>

section \<open>Data\<close>

datatype 'f FileState = Queued 'f FileWindow | FileReady 'f | Busy FileWindow

record ('k, 'v, 'c) LruCache =
  lru_insert :: "'k \<Rightarrow> 'v \<Rightarrow> 'c \<Rightarrow> 'c"
  lru_remove :: "'k \<Rightarrow> 'c \<Rightarrow> 'v option \<times> 'c"

datatype DiskMessageIn =
    AddTorrent TorrentId MetaInfo
  | RemoveTorrent TorrentId
  | MoveTorrent TorrentId path
  | SyncTorrent TorrentId
  | ReadBlock TorrentId BlockMetadata
  | WriteBlock TorrentId Block

datatype DiskMessageOut =
    TorrentAdded TorrentId
  | TorrentRemoved TorrentId MetaInfo
  | MovedTorrent TorrentId path
  | TorrentSynced TorrentId
  | BlockRead TorrentId Block
  | PieceWritten TorrentId Block
  | TorrentError TorrentId TorrentError
  | ReadBlockError TorrentId TorrentError
  | WriteBlockError TorrentId TorrentError

record ('f, 'c) DiskManager =
  dm_active_blocks :: "'f BlockJob list"
  dm_file_cache :: 'c
  dm_torrents :: "TorrentFile list"
  dm_queued_events :: "DiskMessageIn list"

record ('f, 'e, 'w, 'c) disk_env =
  de_checks :: bool
  de_sha1 :: "u8 list \<Rightarrow> ShaHash"
  de_fs :: "('f, 'e, 'w) FileSystem"
  de_lru :: "(TorrentFileId, 'f FileState, 'c) LruCache"

section \<open>Operations\<close>

definition with_capacity :: "'c \<Rightarrow> ('f, 'c) DiskManager" where
  "with_capacity empty_cache =
     \<lparr>dm_active_blocks = [], dm_file_cache = empty_cache, dm_torrents = [], dm_queued_events = []\<rparr>"

definition push_event :: "DiskMessageIn \<Rightarrow> ('f, 'c) DiskManager \<Rightarrow> ('f, 'c) DiskManager" where
  "push_event msg dm = dm\<lparr>dm_queued_events := dm_queued_events dm @ [msg]\<rparr>"

definition write_block :: "TorrentId \<Rightarrow> Block \<Rightarrow> ('f, 'c) DiskManager \<Rightarrow> ('f, 'c) DiskManager" where
  "write_block torrent_id block = push_event (WriteBlock torrent_id block)"

definition read_block :: "TorrentId \<Rightarrow> BlockMetadata \<Rightarrow> ('f, 'c) DiskManager \<Rightarrow> ('f, 'c) DiskManager" where
  "read_block torrent_id metadata = push_event (ReadBlock torrent_id metadata)"

definition dm_add_torrent :: "TorrentId \<Rightarrow> MetaInfo \<Rightarrow> ('f, 'c) DiskManager \<Rightarrow> ('f, 'c) DiskManager" where
  "dm_add_torrent tid meta = push_event (AddTorrent tid meta)"

definition sync_torrent :: "TorrentId \<Rightarrow> ('f, 'c) DiskManager \<Rightarrow> ('f, 'c) DiskManager" where
  "sync_torrent tid = push_event (SyncTorrent tid)"

definition dm_torrent :: "('f, 'c) DiskManager \<Rightarrow> TorrentId \<Rightarrow> TorrentFile option" where
  "dm_torrent dm tid = find (\<lambda>t. tfl_id t = tid) (dm_torrents dm)"

definition dm_remove_torrent ::
  "TorrentId \<Rightarrow> ('f, 'c) DiskManager \<Rightarrow> DiskMessageOut \<times> ('f, 'c) DiskManager" where
  "dm_remove_torrent tid dm =
     (case dm_torrent dm tid of
        Some file \<Rightarrow>
          (TorrentRemoved tid (tfl_meta_info file),
           dm\<lparr>dm_torrents := filter (\<lambda>t. tfl_id t \<noteq> tid) (dm_torrents dm)\<rparr>)
      | None \<Rightarrow> (TorrentError tid (TorrentNotFound tid), dm))"

definition move_torrent :: "TorrentId \<Rightarrow> path \<Rightarrow> ('f, 'c) DiskManager \<Rightarrow> ('f, 'c) DiskManager" where
  "move_torrent tid dir dm = dm"

definition get_torrent_files :: "('f, 'c) DiskManager \<Rightarrow> TorrentId \<Rightarrow> FileEntry list option" where
  "get_torrent_files dm tid = map_option tfl_files (dm_torrent dm tid)"

definition dm_is_good_piece ::
  "(u8 list \<Rightarrow> ShaHash) \<Rightarrow> ('f, 'c) DiskManager \<Rightarrow> TorrentId \<Rightarrow> Block \<Rightarrow> bool" where
  "dm_is_good_piece sha1 dm tid block =
     (case dm_torrent dm tid of Some t \<Rightarrow> is_good_piece sha1 t block | None \<Rightarrow> False)"

text \<open>
  The loop of \<^verbatim>\<open>poll_files\<close> that takes the files of a block out of the cache or opens them. The
  left result is the error of a failed open; the right one says which files were taken and
  whether all are available.
\<close>

fun acquire_loop ::
  "('f, 'e, 'w, 'c) disk_env \<Rightarrow> (FileEntry \<times> FileWindow) list \<Rightarrow> 'c
    \<Rightarrow> (TorrentFileId \<times> 'f \<times> FileWindow) list \<Rightarrow> bool \<Rightarrow> 'w
    \<Rightarrow> ('c \<times> 'w) + ((TorrentFileId \<times> 'f \<times> FileWindow) list \<times> bool \<times> 'c \<times> 'w)" where
  "acquire_loop env [] cache queued_files all_ready w = Inr (queued_files, all_ready, cache, w)"
| "acquire_loop env ((file, window) # files) cache queued_files all_ready w =
     (case lru_remove (de_lru env) (fe_id file) cache of
        (Some state, cache1) \<Rightarrow>
          (case state of
             FileReady fs_file \<Rightarrow>
               acquire_loop env files cache1 (queued_files @ [(fe_id file, fs_file, window)]) all_ready w
           | Queued fs_file queued_window \<Rightarrow>
               acquire_loop env files cache1 (queued_files @ [(fe_id file, fs_file, window)])
                 (if window \<noteq> queued_window then False else all_ready) w
           | Busy piece \<Rightarrow>
               acquire_loop env files (lru_insert (de_lru env) (fe_id file) (Busy piece) cache1)
                 queued_files False w)
      | (None, cache1) \<Rightarrow>
          (case poll_open_file (de_fs env) (fe_path file) w of
             (poll.Ready (Inr fs_file), w1) \<Rightarrow>
               acquire_loop env files cache1 (queued_files @ [(fe_id file, fs_file, window)]) all_ready w1
           | (poll.Ready (Inl err), w1) \<Rightarrow> Inl (cache1, w1)
           | (Pending, w1) \<Rightarrow> Inr (queued_files, False, cache1, w1)))"

definition poll_files ::
  "('f, 'e, 'w, 'c) disk_env \<Rightarrow> TorrentId \<Rightarrow> BlockMetadata \<Rightarrow> ('f, 'c) DiskManager \<Rightarrow> 'w
    \<Rightarrow> ((TorrentError + (FileWindow \<times> 'f BlockFile) list) poll \<times> ('f, 'c) DiskManager \<times> 'w) panics" where
  "poll_files env tid meta dm w =
     (case dm_torrent dm tid of
        Some torrent \<Rightarrow> do {
          res \<leftarrow> files_for_block (de_checks env) torrent meta;
          (case res of
             Inr files \<Rightarrow>
               if files = [] then None
               else
                 (case acquire_loop env files (dm_file_cache dm) [] True w of
                    Inl (cache, w1) \<Rightarrow> Some (poll.Ready (Inl Io), dm\<lparr>dm_file_cache := cache\<rparr>, w1)
                  | Inr (queued_files, all_ready, cache, w1) \<Rightarrow>
                      if all_ready then
                        Some (poll.Ready (Inr (map (\<lambda>(fid, file, window). (window, BlockFile_new fid file)) queued_files)),
                              dm\<lparr>dm_file_cache := fold (\<lambda>(fid, file, window). lru_insert (de_lru env) fid (Busy window))
                                                   queued_files cache\<rparr>, w1)
                      else
                        Some (Pending,
                              dm\<lparr>dm_file_cache := fold (\<lambda>(fid, file, window). lru_insert (de_lru env) fid (Queued file window))
                                                   queued_files cache\<rparr>, w1))
           | Inl e \<Rightarrow> Some (poll.Ready (Inl e), dm, w))
        }
      | None \<Rightarrow> Some (poll.Ready (Inl (TorrentNotFound tid)), dm, w))"

text \<open>The fragments of a block over several files, sliced as the code slices them.\<close>

fun write_fragments ::
  "u8 list \<Rightarrow> usize \<Rightarrow> (FileWindow \<times> 'f BlockFile) list \<Rightarrow> 'f BlockFileWrite list panics" where
  "write_fragments block fragment_offset [] = Some []"
| "write_fragments block fragment_offset ((window, file) # files) = do {
     fragment \<leftarrow> slice block fragment_offset (fw_length window);
     rest \<leftarrow> write_fragments block (fragment_offset + fw_length window) files;
     Some (BlockFileWrite_new file fragment window # rest)
   }"

definition poll_create_block_write ::
  "('f, 'e, 'w, 'c) disk_env \<Rightarrow> TorrentId \<Rightarrow> Block \<Rightarrow> ('f, 'c) DiskManager \<Rightarrow> 'w
    \<Rightarrow> ((TorrentError + 'f BlockJob) poll \<times> ('f, 'c) DiskManager \<times> 'w) panics" where
  "poll_create_block_write env tid block dm w =
     (if \<not> dm_is_good_piece (de_sha1 env) dm tid block
      then Some (poll.Ready (Inl (BadPiece (bm_piece_index (bl_metadata block)))), dm, w)
      else do {
        (res, dm1, w1) \<leftarrow> poll_files env tid (bl_metadata block) dm w;
        (case res of
           poll.Ready (Inr [(window, file)]) \<Rightarrow>
             Some (poll.Ready (Inr (Write (WriteSingle (bl_metadata block)
                     (BlockFileWrite_new file (bl_data block) window)))), dm1, w1)
         | poll.Ready (Inr files) \<Rightarrow> do {
             blocks \<leftarrow> write_fragments (bl_data block) 0 files;
             Some (poll.Ready (Inr (Write (WriteOverlap tid (bl_metadata block) blocks))), dm1, w1)
           }
         | poll.Ready (Inl err) \<Rightarrow> Some (poll.Ready (Inl err), dm1, w1)
         | Pending \<Rightarrow> Some (Pending, push_event (WriteBlock tid block) dm1, w1))
      })"

definition poll_create_block_read ::
  "('f, 'e, 'w, 'c) disk_env \<Rightarrow> TorrentId \<Rightarrow> BlockMetadata \<Rightarrow> ('f, 'c) DiskManager \<Rightarrow> 'w
    \<Rightarrow> ((TorrentError + 'f BlockJob) poll \<times> ('f, 'c) DiskManager \<times> 'w) panics" where
  "poll_create_block_read env tid meta dm w = do {
     (res, dm1, w1) \<leftarrow> poll_files env tid meta dm w;
     Some (case res of
        poll.Ready (Inr [(window, file)]) \<Rightarrow>
          (poll.Ready (Inr (Read (ReadSingle meta (BlockFileRead_new file window)))), dm1, w1)
      | poll.Ready (Inr files) \<Rightarrow>
          (poll.Ready (Inr (Read (ReadOverlap tid meta
             (map (\<lambda>(window, file). BlockFileRead_new file window) files)))), dm1, w1)
      | poll.Ready (Inl err) \<Rightarrow> (poll.Ready (Inl err), dm1, w1)
      | Pending \<Rightarrow> (Pending, push_event (ReadBlock tid meta) dm1, w1))
   }"

definition release_files ::
  "('f, 'e, 'w, 'c) disk_env \<Rightarrow> 'f BlockFile list \<Rightarrow> ('f, 'c) DiskManager \<Rightarrow> ('f, 'c) DiskManager" where
  "release_files env files dm =
     dm\<lparr>dm_file_cache :=
        fold (\<lambda>file. lru_insert (de_lru env) (bf_id file) (FileReady (bf_inner file))) files (dm_file_cache dm)\<rparr>"

definition finalize_block ::
  "('f, 'e, 'w, 'c) disk_env \<Rightarrow> 'f BlockJob \<Rightarrow> ('f, 'c) DiskManager \<Rightarrow> DiskMessageOut \<times> ('f, 'c) DiskManager" where
  "finalize_block env job dm =
     (case BlockJob_finalize job of
        ReadResult torrent files result \<Rightarrow>
          (case result of
             Inr block \<Rightarrow> BlockRead torrent block
           | Inl meta \<Rightarrow> ReadBlockError torrent (BadBlock meta),
           release_files env files dm)
      | WriteResult torrent files result \<Rightarrow>
          (case result of
             Inr block \<Rightarrow> PieceWritten torrent block
           | Inl metadata \<Rightarrow> WriteBlockError torrent (BadPiece (bm_piece_index metadata)),
           release_files env files dm))"

text \<open>
  \<^verbatim>\<open>for block in (0..len).rev()\<close> over the active jobs: the job at the index is swapped out, polled,
  and finalised or pushed back.
\<close>

fun active_loop ::
  "('f, 'e, 'w, 'c) disk_env \<Rightarrow> nat \<Rightarrow> ('f, 'c) DiskManager \<Rightarrow> 'w
    \<Rightarrow> (DiskMessageOut option \<times> ('f, 'c) DiskManager \<times> 'w) panics" where
  "active_loop env 0 dm w = Some (None, dm, w)"
| "active_loop env (Suc i) dm w = do {
     let job = dm_active_blocks dm ! i;
     let dm1 = dm\<lparr>dm_active_blocks := swap_remove i (dm_active_blocks dm)\<rparr>;
     (res, job', w1) \<leftarrow> BlockJob_poll (de_fs env) job w;
     if \<not> is_pending res then
       (case finalize_block env job' dm1 of (out, dm2) \<Rightarrow> Some (Some out, dm2, w1))
     else active_loop env i (dm1\<lparr>dm_active_blocks := dm_active_blocks dm1 @ [job']\<rparr>) w1
   }"

text \<open>
  The inner loop over the queued messages. The left result ends the whole poll. A message is
  only queued again in the branches that end the poll, so the loop runs over the messages that
  are there.
\<close>

fun queue_loop ::
  "('f, 'e, 'w, 'c) disk_env \<Rightarrow> DiskMessageIn list \<Rightarrow> ('f, 'c) DiskManager \<Rightarrow> 'w
    \<Rightarrow> (DiskMessageOut poll option \<times> ('f, 'c) DiskManager \<times> 'w) panics" where
  "queue_loop env [] dm w = Some (None, dm\<lparr>dm_queued_events := []\<rparr>, w)"
| "queue_loop env (msg # rest) dm w =
     (let dm1 = dm\<lparr>dm_queued_events := rest\<rparr> in
      case msg of
        AddTorrent tid meta \<Rightarrow>
          if dm_torrent dm1 tid \<noteq> None then
            Some (Some (poll.Ready (TorrentError tid (ExistingTorrent meta))), dm1, w)
          else do {
            t \<leftarrow> TorrentFile_new (de_checks env) tid meta;
            Some (Some (poll.Ready (TorrentAdded tid)), dm1\<lparr>dm_torrents := t # dm_torrents dm1\<rparr>, w)
          }
      | RemoveTorrent tid \<Rightarrow>
          (case dm_remove_torrent tid dm1 of (out, dm2) \<Rightarrow> Some (Some (poll.Ready out), dm2, w))
      | SyncTorrent tid \<Rightarrow> queue_loop env rest dm1 w
      | ReadBlock tid metadata \<Rightarrow> do {
          (res, dm2, w1) \<leftarrow> poll_create_block_read env tid metadata dm1 w;
          (case res of
             poll.Ready (Inr block) \<Rightarrow>
               queue_loop env rest (dm2\<lparr>dm_active_blocks := dm_active_blocks dm2 @ [block]\<rparr>) w1
           | poll.Ready (Inl err) \<Rightarrow> Some (Some (poll.Ready (ReadBlockError tid err)), dm2, w1)
           | Pending \<Rightarrow> Some (Some Pending, dm2, w1))
        }
      | WriteBlock tid block \<Rightarrow> do {
          (res, dm2, w1) \<leftarrow> poll_create_block_write env tid block dm1 w;
          (case res of
             poll.Ready (Inr job) \<Rightarrow>
               queue_loop env rest (dm2\<lparr>dm_active_blocks := dm_active_blocks dm2 @ [job]\<rparr>) w1
           | poll.Ready (Inl err) \<Rightarrow> Some (Some (poll.Ready (WriteBlockError tid err)), dm2, w1)
           | Pending \<Rightarrow> Some (Some Pending, dm2, w1))
        }
      | MoveTorrent tid dir \<Rightarrow> queue_loop env rest (move_torrent tid dir dm1) w)"

text \<open>\<^verbatim>\<open>poll\<close>; its result is always \<^verbatim>\<open>Ok\<close>. The outer \<^const>\<open>None\<close> is the lack of fuel, the inner one a panic.\<close>

fun dm_poll ::
  "('f, 'e, 'w, 'c) disk_env \<Rightarrow> nat \<Rightarrow> ('f, 'c) DiskManager \<Rightarrow> 'w
    \<Rightarrow> (DiskMessageOut poll \<times> ('f, 'c) DiskManager \<times> 'w) panics option" where
  "dm_poll env 0 dm w = None"
| "dm_poll env (Suc fuel) dm w =
     (case active_loop env (length (dm_active_blocks dm)) dm w of
        None \<Rightarrow> Some None
      | Some (Some out, dm1, w1) \<Rightarrow> Some (Some (poll.Ready out, dm1, w1))
      | Some (None, dm1, w1) \<Rightarrow>
          (case queue_loop env (dm_queued_events dm1) dm1 w1 of
             None \<Rightarrow> Some None
           | Some (Some out, dm2, w2) \<Rightarrow> Some (Some (out, dm2, w2))
           | Some (None, dm2, w2) \<Rightarrow>
               if dm_active_blocks dm2 = [] then Some (Some (Pending, dm2, w2))
               else dm_poll env fuel dm2 w2))"

section \<open>Specification\<close>

text \<open>
  The managers that can arise from a new one with the cache \<open>c0\<close> when only messages of \<open>M\<close> are
  queued: a new manager, a queued message, a poll that returns.
\<close>

inductive dm_run ::
  "('f, 'e, 'w, 'c) disk_env \<Rightarrow> DiskMessageIn set \<Rightarrow> 'c \<Rightarrow> ('f, 'c) DiskManager \<Rightarrow> bool" for env M c0 where
  dm_start: "dm_run env M c0 (with_capacity c0)"
| dm_push: "dm_run env M c0 dm \<Longrightarrow> msg \<in> M \<Longrightarrow> dm_run env M c0 (push_event msg dm)"
| dm_polled: "dm_run env M c0 dm \<Longrightarrow> dm_poll env fuel dm w = Some (Some (out, dm', w')) \<Longrightarrow>
    dm_run env M c0 dm'"

definition dm_reachable ::
  "('f, 'e, 'w, 'c) disk_env \<Rightarrow> DiskMessageIn set \<Rightarrow> ('f, 'c) DiskManager \<Rightarrow> bool" where
  "dm_reachable env M dm \<longleftrightarrow> (\<exists>c0. dm_run env M c0 dm)"

text \<open>The torrents that the messages of \<open>M\<close> can add.\<close>

definition known_torrent :: "('f, 'e, 'w, 'c) disk_env \<Rightarrow> DiskMessageIn set \<Rightarrow> TorrentFile \<Rightarrow> bool" where
  "known_torrent env M t \<longleftrightarrow>
     (\<exists>tid meta. AddTorrent tid meta \<in> M \<and> TorrentFile_new (de_checks env) tid meta = Some t)"

text \<open>Their files.\<close>

definition known_files :: "('f, 'e, 'w, 'c) disk_env \<Rightarrow> DiskMessageIn set \<Rightarrow> TorrentFileId set" where
  "known_files env M = (\<Union>t \<in> {t. known_torrent env M t}. fe_id ` set (tfl_files t))"

text \<open>A block that was queued for writing and whose bytes have the hash of their piece.\<close>

definition verified_block ::
  "('f, 'e, 'w, 'c) disk_env \<Rightarrow> DiskMessageIn set \<Rightarrow> TorrentId \<Rightarrow> Block \<Rightarrow> bool" where
  "verified_block env M tid block \<longleftrightarrow>
     WriteBlock tid block \<in> M \<and>
     (\<exists>t. known_torrent env M t \<and> tfl_id t = tid \<and> is_good_piece (de_sha1 env) t block)"

text \<open>Everything a job will ever write is part of such a block, and goes to a file of its torrent.\<close>

fun verified_job :: "('f, 'e, 'w, 'c) disk_env \<Rightarrow> DiskMessageIn set \<Rightarrow> 'f BlockJob \<Rightarrow> bool" where
  "verified_job env M (Read _) \<longleftrightarrow> True"
| "verified_job env M (Write (WriteSingle m b)) \<longleftrightarrow>
     verified_block env M (tf_torrent (bf_id (bw_file b))) (Block_new m (bw_block b))"
| "verified_job env M (Write (WriteOverlap tid m bs)) \<longleftrightarrow>
     (\<exists>block. verified_block env M tid block \<and> bl_metadata block = m \<and>
        (\<forall>b \<in> set bs. tf_torrent (bf_id (bw_file b)) = tid \<and>
           (\<exists>i j. slice (bl_data block) i j = Some (bw_block b))))"

definition verified_inv ::
  "('f, 'e, 'w, 'c) disk_env \<Rightarrow> DiskMessageIn set \<Rightarrow> ('f, 'c) DiskManager \<Rightarrow> bool" where
  "verified_inv env M dm \<longleftrightarrow>
     set (dm_queued_events dm) \<subseteq> M \<and> (\<forall>t \<in> set (dm_torrents dm). known_torrent env M t) \<and>
     (\<forall>job \<in> set (dm_active_blocks dm). verified_job env M job)"

text \<open>The files a job holds.\<close>

fun job_files :: "'f BlockJob \<Rightarrow> TorrentFileId list" where
  "job_files (Read (ReadSingle m b)) = [bf_id (br_file b)]"
| "job_files (Read (ReadOverlap tid m bs)) = map (bf_id \<circ> br_file) bs"
| "job_files (Write (WriteSingle m b)) = [bf_id (bw_file b)]"
| "job_files (Write (WriteOverlap tid m bs)) = map (bf_id \<circ> bw_file) bs"

definition held_files :: "('f, 'c) DiskManager \<Rightarrow> TorrentFileId multiset" where
  "held_files dm = (\<Sum>job\<in>#mset (dm_active_blocks dm). mset (job_files job))"

text \<open>
  The cache as a map, as the lru-cache crate documents it; \<open>look\<close> reads an entry. A cache holds
  finitely many entries. An insertion binds its key: the entry that was used last is never
  evicted. It keeps all other entries as long as the keys do not exceed the capacity; when they
  do, nothing is said of the others. A removal removes its key and nothing else.
\<close>

definition lru_laws :: "('k, 'v, 'c) LruCache \<Rightarrow> ('c \<Rightarrow> 'k \<Rightarrow> 'v option) \<Rightarrow> nat \<Rightarrow> bool" where
  "lru_laws lru look cap \<longleftrightarrow>
     0 < cap \<and> (\<forall>c. finite (dom (look c))) \<and>
     (\<forall>k v c. look (lru_insert lru k v c) k = Some v) \<and>
     (\<forall>k v c. card (insert k (dom (look c))) \<le> cap \<longrightarrow> look (lru_insert lru k v c) = (look c)(k := Some v)) \<and>
     (\<forall>k c. fst (lru_remove lru k c) = look c k \<and> look (snd (lru_remove lru k c)) = (look c)(k := None))"

text \<open>The cache has room for a set of files.\<close>

definition lru_room :: "('k, 'v, 'c) LruCache \<Rightarrow> ('c \<Rightarrow> 'k \<Rightarrow> 'v option) \<Rightarrow> nat \<Rightarrow> 'k set \<Rightarrow> bool" where
  "lru_room lru look cap F \<longleftrightarrow> lru_laws lru look cap \<and> finite F \<and> card F \<le> cap"

definition is_busy :: "'f FileState option \<Rightarrow> bool" where
  "is_busy s \<longleftrightarrow> (\<exists>window. s = Some (Busy window))"

text \<open>No file is held twice, and the cache shows every held file as busy.\<close>

definition exclusive ::
  "('c \<Rightarrow> TorrentFileId \<Rightarrow> 'f FileState option) \<Rightarrow> ('f, 'c) DiskManager \<Rightarrow> bool" where
  "exclusive look dm \<longleftrightarrow>
     (\<forall>fid. count (held_files dm) fid \<le> 1 \<and>
        (fid \<in># held_files dm \<longrightarrow> is_busy (look (dm_file_cache dm) fid)))"

definition exclusive_inv ::
  "('f, 'e, 'w, 'c) disk_env \<Rightarrow> DiskMessageIn set \<Rightarrow> 'c \<Rightarrow> ('c \<Rightarrow> TorrentFileId \<Rightarrow> 'f FileState option) \<Rightarrow> nat
    \<Rightarrow> ('f, 'c) DiskManager \<Rightarrow> bool" where
  "exclusive_inv env M c0 look cap dm \<longleftrightarrow>
     set (dm_queued_events dm) \<subseteq> M \<and> (\<forall>t \<in> set (dm_torrents dm). known_torrent env M t) \<and>
     set_mset (held_files dm) \<subseteq> known_files env M \<and>
     (lru_room (de_lru env) look cap (known_files env M) \<longrightarrow> look c0 = Map.empty \<longrightarrow>
        dom (look (dm_file_cache dm)) \<subseteq> known_files env M \<and> exclusive look dm)"

text \<open>The torrents the manager knows or is about to know.\<close>

fun added :: "DiskMessageIn list \<Rightarrow> TorrentId list" where
  "added [] = []"
| "added (AddTorrent tid _ # msgs) = tid # added msgs"
| "added (_ # msgs) = added msgs"

definition disk_ids :: "('f, 'c) DiskManager \<Rightarrow> TorrentId list" where
  "disk_ids dm = map tfl_id (dm_torrents dm) @ added (dm_queued_events dm)"

definition disk_ids_inv :: "TorrentId set \<Rightarrow> ('f, 'c) DiskManager \<Rightarrow> bool" where
  "disk_ids_inv S dm \<longleftrightarrow>
     distinct (disk_ids dm) \<and> set (disk_ids dm) = S \<and> set (dm_queued_events dm) \<inter> range RemoveTorrent = {}"

text \<open>A report that a torrent exists is only made for a queued torrent that the manager has.\<close>

definition existing_justified ::
  "(('f, 'c) DiskManager \<Rightarrow> bool) \<Rightarrow> DiskMessageOut poll option \<Rightarrow> bool" where
  "existing_justified I out \<longleftrightarrow>
     (\<forall>tid meta. out = Some (poll.Ready (TorrentError tid (ExistingTorrent meta))) \<longrightarrow>
        (\<exists>dm rest. I dm \<and> dm_queued_events dm = AddTorrent tid meta # rest \<and> dm_torrent dm tid \<noteq> None))"

text \<open>A file system that answers the seek and the access after it at once and in full.\<close>

definition prompt_write :: "('f, 'e, 'w) FileSystem \<Rightarrow> 'f \<Rightarrow> u64 \<Rightarrow> u8 list \<Rightarrow> 'w \<Rightarrow> 'f \<Rightarrow> 'w \<Rightarrow> bool" where
  "prompt_write fs f off buf w f' w' \<longleftrightarrow>
     (\<exists>p f1 w1. poll_seek fs f off w = (poll.Ready (Inr p), f1, w1) \<and>
        poll_write_block fs f1 buf w1 = (poll.Ready (Inr (length buf)), f', w'))"

definition prompt_read :: "('f, 'e, 'w) FileSystem \<Rightarrow> 'f \<Rightarrow> u64 \<Rightarrow> usize \<Rightarrow> 'w \<Rightarrow> 'f \<Rightarrow> 'w \<Rightarrow> bool" where
  "prompt_read fs f off n w f' w' \<longleftrightarrow>
     (\<exists>p f1 w1 blk. poll_seek fs f off w = (poll.Ready (Inr p), f1, w1) \<and>
        poll_read_block fs f1 [] w1 = (poll.Ready (Inr n), f', blk, w'))"

text \<open>A file that is in the cache or that the file system opens at once.\<close>

definition available ::
  "('f, 'e, 'w, 'c) disk_env \<Rightarrow> ('c \<Rightarrow> TorrentFileId \<Rightarrow> 'f FileState option) \<Rightarrow> 'c \<Rightarrow> FileEntry \<Rightarrow> 'w \<Rightarrow> 'f \<Rightarrow> 'w \<Rightarrow> bool" where
  "available env look c entry w f w' \<longleftrightarrow>
     (case look c (fe_id entry) of
        Some (FileReady g) \<Rightarrow> g = f \<and> w' = w
      | None \<Rightarrow> poll_open_file (de_fs env) (fe_path entry) w = (poll.Ready (Inr f), w')
      | _ \<Rightarrow> False)"

text \<open>An instance: a cache that keeps the last \<open>n\<close> files used, over the file system in memory.\<close>

definition lru_of :: "nat \<Rightarrow> ('k, 'v, ('k \<times> 'v) list) LruCache" where
  "lru_of n = \<lparr>lru_insert = (\<lambda>k v c. (k, v) # take (n - 1) (filter (\<lambda>e. fst e \<noteq> k) (AList.clearjunk c))),
               lru_remove = (\<lambda>k c. (map_of c k, filter (\<lambda>e. fst e \<noteq> k) c))\<rparr>"

definition disk_demo :: "(TorrentFileId, MemFile FileState, 'c) LruCache \<Rightarrow> (MemFile, unit, nat list, 'c) disk_env" where
  "disk_demo lru = \<lparr>de_checks = False, de_sha1 = (\<lambda>bytes. bytes), de_fs = mem_fs, de_lru = lru\<rparr>"

definition one_file :: MetaInfo where
  "one_file =
     \<lparr>mi_announce = None, mi_announce_list = [], mi_encoding = None, mi_comment = None,
      mi_created_by = None, mi_creation_date = None, mi_httpseeds = [], mi_webseeds = [],
      mi_info = \<lparr>ti_pieces = [[1, 2], [3, 4]], ti_piece_length = 2, ti_content = Single 4, ti_name = [99]\<rparr>,
      mi_nodes = [], mi_info_hash = []\<rparr>"

section \<open>What the operations leave alone\<close>

text \<open>The ways in which the files of a block are acquired.\<close>

lemma poll_files_cases:
  assumes "poll_files env tid meta dm w = Some (res, dm', w')"
  obtains
    (unknown) e where "res = poll.Ready (Inl e)" "dm' = dm"
  | (failed) t files c where "dm_torrent dm tid = Some t"
      "files_for_block (de_checks env) t meta = Some (Inr files)"
      "acquire_loop env files (dm_file_cache dm) [] True w = Inl (c, w')"
      "res = poll.Ready (Inl Io)" "dm' = dm\<lparr>dm_file_cache := c\<rparr>"
  | (acquired) t files qs c where "dm_torrent dm tid = Some t"
      "files_for_block (de_checks env) t meta = Some (Inr files)" "files \<noteq> []"
      "acquire_loop env files (dm_file_cache dm) [] True w = Inr (qs, True, c, w')"
      "res = poll.Ready (Inr (map (\<lambda>(fid, file, window). (window, BlockFile_new fid file)) qs))"
      "dm' = dm\<lparr>dm_file_cache := fold (\<lambda>(fid, file, window). lru_insert (de_lru env) fid (Busy window)) qs c\<rparr>"
  | (waiting) t files qs c where "dm_torrent dm tid = Some t"
      "files_for_block (de_checks env) t meta = Some (Inr files)"
      "acquire_loop env files (dm_file_cache dm) [] True w = Inr (qs, False, c, w')"
      "res = Pending"
      "dm' = dm\<lparr>dm_file_cache := fold (\<lambda>(fid, file, window). lru_insert (de_lru env) fid (Queued file window)) qs c\<rparr>"
proof (cases "dm_torrent dm tid")
  case None
  with assms have "res = poll.Ready (Inl (TorrentNotFound tid))" "dm' = dm" by (auto simp: poll_files_def)
  then show ?thesis by (rule unknown)
next
  case (Some t)
  with assms obtain r where f: "files_for_block (de_checks env) t meta = Some r"
    by (auto simp: poll_files_def bind_eq_Some_conv)
  show ?thesis
  proof (cases r)
    case (Inl e)
    with assms Some f have "res = poll.Ready (Inl e)" "dm' = dm" by (auto simp: poll_files_def)
    then show ?thesis by (rule unknown)
  next
    case (Inr files)
    note facts = Some f [unfolded Inr]
    from assms facts have ne: "files \<noteq> []" by (auto simp: poll_files_def split: if_splits)
    show ?thesis
    proof (cases "acquire_loop env files (dm_file_cache dm) [] True w")
      case (Inl p)
      with assms facts ne failed show ?thesis by (cases p) (simp add: poll_files_def)
    next
      case (Inr p)
      then obtain qs ok c w1 where
        "acquire_loop env files (dm_file_cache dm) [] True w = Inr (qs, ok, c, w1)" by (cases p) auto
      with assms facts ne acquired waiting show ?thesis
        by (cases ok) (simp_all add: poll_files_def)
    qed
  qed
qed

lemma poll_files_frame:
  assumes "poll_files env tid meta dm w = Some (res, dm', w')"
  shows "\<exists>c. dm' = dm\<lparr>dm_file_cache := c\<rparr>"
proof (use assms in \<open>cases rule: poll_files_cases\<close>)
  case unknown
  then show ?thesis by (intro exI [of _ "dm_file_cache dm"]) simp
qed blast+

lemma create_read_cases:
  assumes "poll_create_block_read env tid meta dm w = Some (res, dm', w')"
  obtains
    (pending) dm1 where "poll_files env tid meta dm w = Some (Pending, dm1, w')" "res = Pending"
      "dm' = push_event (ReadBlock tid meta) dm1"
  | (failed) e where "poll_files env tid meta dm w = Some (poll.Ready (Inl e), dm', w')" "res = poll.Ready (Inl e)"
  | (single) window fl where "poll_files env tid meta dm w = Some (poll.Ready (Inr [(window, fl)]), dm', w')"
      "res = poll.Ready (Inr (Read (ReadSingle meta (BlockFileRead_new fl window))))"
  | (overlap) files where "poll_files env tid meta dm w = Some (poll.Ready (Inr files), dm', w')"
      "res = poll.Ready (Inr (Read (ReadOverlap tid meta (map (\<lambda>(window, file). BlockFileRead_new file window) files))))"
proof -
  from assms obtain r dm1 w1 where p: "poll_files env tid meta dm w = Some (r, dm1, w1)"
    by (auto simp: poll_create_block_read_def bind_eq_Some_conv)
  note eq = assms [unfolded poll_create_block_read_def p, simplified]
  show ?thesis
  proof (cases r)
    case Pending
    with p eq pending show ?thesis by simp
  next
    case (Ready r')
    then show ?thesis
      using p eq failed single overlap
      by (cases r') (auto split: list.splits)
  qed
qed

lemma create_write_good:
  fixes env :: "('f, 'e, 'w, 'c) disk_env"
  assumes "poll_create_block_write env tid block dm w = Some (res, dm', w')" and True: "dm_is_good_piece (de_sha1 env) dm tid block"
  obtains
    (pending) dm1 where "poll_files env tid (bl_metadata block) dm w = Some (Pending, dm1, w')" "res = Pending"
      "dm' = push_event (WriteBlock tid block) dm1"
  | (failed) e where "poll_files env tid (bl_metadata block) dm w = Some (poll.Ready (Inl e), dm', w')"
      "res = poll.Ready (Inl e)"
  | (single) window fl where
      "poll_files env tid (bl_metadata block) dm w = Some (poll.Ready (Inr [(window, fl)]), dm', w')"
      "res = poll.Ready (Inr (Write (WriteSingle (bl_metadata block) (BlockFileWrite_new fl (bl_data block) window))))"
  | (overlap) files bs where
      "poll_files env tid (bl_metadata block) dm w = Some (poll.Ready (Inr files), dm', w')"
      "write_fragments (bl_data block) 0 files = Some bs"
      "res = poll.Ready (Inr (Write (WriteOverlap tid (bl_metadata block) bs)))"
proof -
  from assms obtain r dm1 w1 where p: "poll_files env tid (bl_metadata block) dm w = Some (r, dm1, w1)"
    by (auto simp: poll_create_block_write_def bind_eq_Some_conv)
  define k where "k r dm1 w1 = (case r of
           poll.Ready (Inr [(window, fl)]) \<Rightarrow>
             Some (poll.Ready (Inr (Write (WriteSingle (bl_metadata block)
                     (BlockFileWrite_new fl (bl_data block) window)))), dm1, w1)
         | poll.Ready (Inr files) \<Rightarrow> do {
             blocks \<leftarrow> write_fragments (bl_data block) 0 files;
             Some (poll.Ready (Inr (Write (WriteOverlap tid (bl_metadata block) blocks))), dm1, w1)
           }
         | poll.Ready (Inl err) \<Rightarrow> Some (poll.Ready (Inl err), dm1, w1)
         | Pending \<Rightarrow> Some (Pending, push_event (WriteBlock tid block) dm1, w1))"
    for r :: "(TorrentError + (FileWindow \<times> 'f BlockFile) list) poll" and dm1 :: "('f, 'c) DiskManager" and w1 :: 'w
  have eq: "k r dm1 w1 = Some (res, dm', w')"
    using assms(1) True p by (simp only: poll_create_block_write_def k_def not_True_eq_False if_False bind.bind_lunit prod.case)
  show ?thesis
  proof (cases r)
    case Pending
    with eq have "res = Pending" "dm' = push_event (WriteBlock tid block) dm1" "w1 = w'" by (auto simp: k_def)
    with p Pending show ?thesis by (intro pending) simp_all
  next
    case (Ready r')
    show ?thesis
    proof (cases r')
      case (Inl e)
      with eq Ready have "res = poll.Ready (Inl e)" "dm1 = dm'" "w1 = w'" by (auto simp: k_def)
      with p Ready Inl show ?thesis by (intro failed) simp_all
    next
      case (Inr files)
      consider x where "files = [x]" | "\<And>x. files \<noteq> [x]" by blast
      then show ?thesis
      proof cases
        case 1
        obtain window fl where "x = (window, fl)" by (cases x)
        with 1 eq Ready Inr p True show ?thesis by (intro single [of window fl]) (auto simp: k_def)
      next
        case 2
        then have "k (poll.Ready (Inr files)) dm1 w1 = do {
             blocks \<leftarrow> write_fragments (bl_data block) 0 files;
             Some (poll.Ready (Inr (Write (WriteOverlap tid (bl_metadata block) blocks))), dm1, w1)
           }"
          unfolding k_def by (simp split: list.splits)
        with eq p Ready Inr True show ?thesis by (auto simp: bind_eq_Some_conv intro: overlap)
      qed
    qed
  qed
qed

lemma create_write_cases:
  fixes env :: "('f, 'e, 'w, 'c) disk_env"
  assumes "poll_create_block_write env tid block dm w = Some (res, dm', w')"
  obtains
    (bad) "\<not> dm_is_good_piece (de_sha1 env) dm tid block" "dm' = dm" "w' = w"
      "res = poll.Ready (Inl (BadPiece (bm_piece_index (bl_metadata block))))"
  | (pending) dm1 where "poll_files env tid (bl_metadata block) dm w = Some (Pending, dm1, w')" "res = Pending"
      "dm' = push_event (WriteBlock tid block) dm1"
  | (failed) e where "poll_files env tid (bl_metadata block) dm w = Some (poll.Ready (Inl e), dm', w')"
      "res = poll.Ready (Inl e)"
  | (single) window fl where
      "poll_files env tid (bl_metadata block) dm w = Some (poll.Ready (Inr [(window, fl)]), dm', w')"
      "res = poll.Ready (Inr (Write (WriteSingle (bl_metadata block) (BlockFileWrite_new fl (bl_data block) window))))"
      "dm_is_good_piece (de_sha1 env) dm tid block"
  | (overlap) files bs where
      "poll_files env tid (bl_metadata block) dm w = Some (poll.Ready (Inr files), dm', w')"
      "write_fragments (bl_data block) 0 files = Some bs"
      "res = poll.Ready (Inr (Write (WriteOverlap tid (bl_metadata block) bs)))"
      "dm_is_good_piece (de_sha1 env) dm tid block"
proof (cases "dm_is_good_piece (de_sha1 env) dm tid block")
  case False
  then have "poll_create_block_write env tid block dm w
      = Some (poll.Ready (Inl (BadPiece (bm_piece_index (bl_metadata block)))), dm, w)"
    by (simp add: poll_create_block_write_def)
  with assms have "dm' = dm" "w' = w" "res = poll.Ready (Inl (BadPiece (bm_piece_index (bl_metadata block))))"
    by simp_all
  with False show ?thesis by (rule bad)
next
  case True
  from assms True show ?thesis
  proof (cases rule: create_write_good)
    case pending
    then show ?thesis by (rule that(2))
  next
    case failed
    then show ?thesis by (rule that(3))
  next
    case single
    from this True show ?thesis by (rule that(4))
  next
    case overlap
    from this True show ?thesis by (rule that(5))
  qed
qed

lemma create_read_frame:
  assumes "poll_create_block_read env tid meta dm w = Some (res, dm', w')"
  shows "\<exists>c. dm' = (if is_pending res then push_event (ReadBlock tid meta) else id) (dm\<lparr>dm_file_cache := c\<rparr>)"
  using assms by (cases rule: create_read_cases) (auto dest: poll_files_frame)

lemma create_write_frame:
  assumes "poll_create_block_write env tid block dm w = Some (res, dm', w')"
  shows "\<exists>c. dm' = (if is_pending res then push_event (WriteBlock tid block) else id) (dm\<lparr>dm_file_cache := c\<rparr>)"
proof (use assms in \<open>cases rule: create_write_cases\<close>)
  case bad
  then show ?thesis by (intro exI [of _ "dm_file_cache dm"]) simp
qed (auto dest: poll_files_frame)

section \<open>Invariants of the manager\<close>

text \<open>
  What a property of the manager's state has to satisfy for every poll to keep it: the steps of
  the two loops, one by one. \<open>M\<close> are the messages that are ever queued.
\<close>

locale manager_step =
  fixes env :: "('f, 'e, 'w, 'c) disk_env" and M :: "DiskMessageIn set"
    and I :: "('f, 'c) DiskManager \<Rightarrow> bool"
  assumes pending_ok: "I dm \<Longrightarrow> i < length (dm_active_blocks dm) \<Longrightarrow>
      BlockJob_poll (de_fs env) (dm_active_blocks dm ! i) w = Some (res, job, w') \<Longrightarrow>
      I (dm\<lparr>dm_active_blocks := swap_remove i (dm_active_blocks dm) @ [job]\<rparr>)"
    and finalize_ok: "I dm \<Longrightarrow> i < length (dm_active_blocks dm) \<Longrightarrow>
      BlockJob_poll (de_fs env) (dm_active_blocks dm ! i) w = Some (res, job, w') \<Longrightarrow>
      I (snd (finalize_block env job (dm\<lparr>dm_active_blocks := swap_remove i (dm_active_blocks dm)\<rparr>)))"
    and pop_ok: "I dm \<Longrightarrow> dm_queued_events dm = msg # rest \<Longrightarrow>
      \<forall>tid meta. msg = AddTorrent tid meta \<longrightarrow> dm_torrent dm tid \<noteq> None \<Longrightarrow>
      msg \<in> M \<and> I (dm\<lparr>dm_queued_events := rest\<rparr>)"
    and add_ok: "I dm \<Longrightarrow> dm_queued_events dm = AddTorrent tid meta # rest \<Longrightarrow> dm_torrent dm tid = None \<Longrightarrow>
      TorrentFile_new (de_checks env) tid meta = Some t \<Longrightarrow>
      I (dm\<lparr>dm_queued_events := rest, dm_torrents := t # dm_torrents dm\<rparr>)"
    and remove_ok: "I dm \<Longrightarrow> RemoveTorrent tid \<in> M \<Longrightarrow> I (snd (dm_remove_torrent tid dm))"
    and read_ok: "I dm \<Longrightarrow> ReadBlock tid m \<in> M \<Longrightarrow>
      poll_create_block_read env tid m dm w = Some (res', dm', w') \<Longrightarrow>
      I (case res' of poll.Ready (Inr job) \<Rightarrow> dm'\<lparr>dm_active_blocks := dm_active_blocks dm' @ [job]\<rparr> | _ \<Rightarrow> dm')"
    and write_ok: "I dm \<Longrightarrow> WriteBlock tid block \<in> M \<Longrightarrow>
      poll_create_block_write env tid block dm w = Some (res', dm', w') \<Longrightarrow>
      I (case res' of poll.Ready (Inr job) \<Rightarrow> dm'\<lparr>dm_active_blocks := dm_active_blocks dm' @ [job]\<rparr> | _ \<Rightarrow> dm')"
begin

lemma active_loop_inv:
  "I dm \<Longrightarrow> n \<le> length (dm_active_blocks dm) \<Longrightarrow> active_loop env n dm w = Some (out, dm', w') \<Longrightarrow> I dm'"
proof (induction n arbitrary: dm w)
  case (Suc n)
  let ?rest = "swap_remove n (dm_active_blocks dm)"
  from Suc.prems(3) obtain r job w1 where
    p: "BlockJob_poll (de_fs env) (dm_active_blocks dm ! n) w = Some (r, job, w1)"
    by (auto simp: bind_eq_Some_conv Let_def)
  show ?case
  proof (cases "is_pending r")
    case True
    with Suc.prems p have "active_loop env n (dm\<lparr>dm_active_blocks := ?rest @ [job]\<rparr>) w1 = Some (out, dm', w')"
      by (simp add: Let_def)
    with Suc.prems Suc.IH [OF pending_ok [OF Suc.prems(1) _ p]] show ?thesis by simp
  next
    case False
    with Suc.prems p have "dm' = snd (finalize_block env job (dm\<lparr>dm_active_blocks := ?rest\<rparr>))"
      by (auto simp: Let_def split: prod.splits)
    with Suc.prems finalize_ok [OF Suc.prems(1) _ p] show ?thesis by simp
  qed
qed simp

text \<open>What follows the creation of a job, for reads and for writes.\<close>

lemma created_job_inv:
  assumes "(case r of poll.Ready (Inr job) \<Rightarrow>
               queue_loop env rest (dm2\<lparr>dm_active_blocks := dm_active_blocks dm2 @ [job]\<rparr>) w1
           | poll.Ready (Inl err) \<Rightarrow> Some (Some (poll.Ready (failure err)), dm2, w1)
           | Pending \<Rightarrow> Some (Some Pending, dm2, w1)) = Some (out, dm', w')"
    and "I (case r of poll.Ready (Inr job) \<Rightarrow> dm2\<lparr>dm_active_blocks := dm_active_blocks dm2 @ [job]\<rparr> | _ \<Rightarrow> dm2)"
    and "\<not> is_pending r \<Longrightarrow> dm_queued_events dm2 = rest"
    and "\<And>dm. I dm \<Longrightarrow> dm_queued_events dm = rest \<Longrightarrow> queue_loop env rest dm w1 = Some (out, dm', w') \<Longrightarrow>
      I dm' \<and> existing_justified I out"
    and "\<And>err tid meta. failure err \<noteq> TorrentError tid (ExistingTorrent meta)"
  shows "I dm' \<and> existing_justified I out"
  using assms by (auto simp: existing_justified_def split: poll.splits sum.splits)

lemma queue_loop_inv:
  "I dm \<Longrightarrow> dm_queued_events dm = q \<Longrightarrow> queue_loop env q dm w = Some (out, dm', w') \<Longrightarrow> I dm' \<and> existing_justified I out"
proof (induction q arbitrary: dm w)
  case Nil
  then have "dm' = dm\<lparr>dm_queued_events := dm_queued_events dm\<rparr>" by simp
  then have "dm' = dm" by (cases dm) simp
  with Nil show ?case by (simp add: existing_justified_def)
next
  case (Cons msg rest)
  define dm1 where "dm1 = dm\<lparr>dm_queued_events := rest\<rparr>"
  have pop: "msg \<in> M \<and> I dm1" if "\<forall>tid meta. msg = AddTorrent tid meta \<longrightarrow> dm_torrent dm tid \<noteq> None"
    using pop_ok [OF Cons.prems(1,2) that] by (simp add: dm1_def)
  have q1: "dm_queued_events dm1 = rest" by (simp add: dm1_def)
  show ?case
  proof (cases msg)
    case (AddTorrent tid meta)
    show ?thesis
    proof (cases "dm_torrent dm tid")
      case None
      with AddTorrent Cons.prems(3) obtain t where "TorrentFile_new (de_checks env) tid meta = Some t"
        "out = Some (poll.Ready (TorrentAdded tid))" "dm' = dm1\<lparr>dm_torrents := t # dm_torrents dm1\<rparr>"
        by (auto simp: dm1_def [symmetric] dm_torrent_def Let_def bind_eq_Some_conv split: if_splits)
           (auto simp: dm1_def)
      with add_ok [OF Cons.prems(1) Cons.prems(2) [unfolded AddTorrent] None] show ?thesis by (simp add: dm1_def existing_justified_def)
    next
      case (Some t)
      with AddTorrent Cons.prems(3) have "dm' = dm1" "out = Some (poll.Ready (TorrentError tid (ExistingTorrent meta)))"
        by (auto simp: dm1_def dm_torrent_def Let_def)
      with pop Some AddTorrent Cons.prems(1,2) show ?thesis by (auto simp: existing_justified_def)
    qed
  next
    case (RemoveTorrent tid)
    with pop have i: "I dm1" and msg: "msg \<in> M" by simp_all
    from RemoveTorrent Cons.prems(3) remove_ok [OF i, of tid] msg show ?thesis
      by (auto simp: dm1_def [symmetric] existing_justified_def dm_remove_torrent_def Let_def split: prod.splits option.splits)
  next
    case (ReadBlock tid m)
    with Cons.prems(3) obtain r dm2 w1 where
      c: "poll_create_block_read env tid m dm1 w = Some (r, dm2, w1)" and
      k: "(case r of poll.Ready (Inr job) \<Rightarrow>
               queue_loop env rest (dm2\<lparr>dm_active_blocks := dm_active_blocks dm2 @ [job]\<rparr>) w1
           | poll.Ready (Inl err) \<Rightarrow> Some (Some (poll.Ready (ReadBlockError tid err)), dm2, w1)
           | Pending \<Rightarrow> Some (Some Pending, dm2, w1)) = Some (out, dm', w')"
      by (auto simp: dm1_def [symmetric] Let_def bind_eq_Some_conv)
    from ReadBlock pop have i: "I dm1" and msg: "ReadBlock tid m \<in> M" by simp_all
    show ?thesis
      by (rule created_job_inv [OF k read_ok [OF i msg c] _ Cons.IH]) (use create_read_frame [OF c] q1 in auto)
  next
    case (WriteBlock tid block)
    with Cons.prems(3) obtain r dm2 w1 where
      c: "poll_create_block_write env tid block dm1 w = Some (r, dm2, w1)" and
      k: "(case r of poll.Ready (Inr job) \<Rightarrow>
               queue_loop env rest (dm2\<lparr>dm_active_blocks := dm_active_blocks dm2 @ [job]\<rparr>) w1
           | poll.Ready (Inl err) \<Rightarrow> Some (Some (poll.Ready (WriteBlockError tid err)), dm2, w1)
           | Pending \<Rightarrow> Some (Some Pending, dm2, w1)) = Some (out, dm', w')"
      by (auto simp: dm1_def [symmetric] Let_def bind_eq_Some_conv)
    from WriteBlock pop have i: "I dm1" and msg: "WriteBlock tid block \<in> M" by simp_all
    show ?thesis
      by (rule created_job_inv [OF k write_ok [OF i msg c] _ Cons.IH]) (use create_write_frame [OF c] q1 in auto)
  qed (use Cons.prems(3) Cons.IH [OF _ q1] pop in \<open>auto simp: dm1_def [symmetric] move_torrent_def Let_def\<close>)
qed

lemma finalize_not_existing: "fst (finalize_block env job dm) \<noteq> TorrentError tid e"
  by (auto simp: finalize_block_def split: BlockResult.splits sum.splits)

lemma active_loop_not_existing:
  "active_loop env n dm w = Some (Some out, dm', w') \<Longrightarrow> out \<noteq> TorrentError tid e"
proof (induction n arbitrary: dm w)
  case (Suc n)
  from Suc.prems obtain r job w1 where
    p: "BlockJob_poll (de_fs env) (dm_active_blocks dm ! n) w = Some (r, job, w1)"
    by (auto simp: bind_eq_Some_conv Let_def)
  with Suc finalize_not_existing show ?case
    by (auto simp: Let_def split: if_splits prod.splits) (metis fst_conv)
qed simp

lemma dm_poll_inv:
  "I dm \<Longrightarrow> dm_poll env fuel dm w = Some (Some (out, dm', w')) \<Longrightarrow> I dm' \<and> existing_justified I (Some out)"
proof (induction fuel arbitrary: dm w)
  case (Suc fuel)
  from Suc.prems(2) obtain o1 dm1 w1 where
    a: "active_loop env (length (dm_active_blocks dm)) dm w = Some (o1, dm1, w1)"
    by (auto split: option.splits)
  note i1 = active_loop_inv [OF Suc.prems(1) order_refl a]
  show ?case
  proof (cases o1)
    case None
    with Suc.prems(2) a obtain o2 dm2 w2 where
      q: "queue_loop env (dm_queued_events dm1) dm1 w1 = Some (o2, dm2, w2)" by (auto split: option.splits)
    note i2 = queue_loop_inv [OF i1 refl q]
    show ?thesis
    proof (cases o2)
      case None
      with Suc.prems(2) a \<open>o1 = None\<close> q i2 Suc.IH [of dm2 w2] show ?thesis
        by (auto simp: existing_justified_def split: if_splits)
    qed (use Suc.prems(2) a \<open>o1 = None\<close> q i2 in simp)
  next
    case (Some o1')
    with a have "o1' \<noteq> TorrentError tid e" for tid e using active_loop_not_existing by blast
    with Some Suc.prems(2) a i1 show ?thesis by (auto simp: existing_justified_def)
  qed
qed simp

end

text \<open>A property that also holds at the start and survives every queued message holds always.\<close>

locale manager_invariant = manager_step env M I
  for env :: "('f, 'e, 'w, 'c) disk_env" and M and I +
  fixes c0 :: 'c
  assumes start_ok: "I (with_capacity c0)"
    and push_ok: "I dm \<Longrightarrow> msg \<in> M \<Longrightarrow> I (push_event msg dm)"
begin

lemma run_inv: "dm_run env M c0 dm \<Longrightarrow> I dm"
  by (induction rule: dm_run.induct) (auto intro: start_ok push_ok dest: dm_poll_inv)

end

section \<open>Only verified pieces are written\<close>

lemma write_chunk_frame:
  "write_chunk fs b w = Some (r, b', w') \<Longrightarrow>
   bf_id (bw_file b') = bf_id (bw_file b) \<and> bw_block b' = bw_block b"
  by (cases "slice (bw_block b) (bw_written b) (fw_length (bw_window b))")
    (auto simp: write_chunk_def split_beta Let_def split: poll.splits sum.splits if_splits)

lemma write_poll_frame:
  "BlockFileWrite_poll fs b w = Some (r, b', w') \<Longrightarrow>
   bf_id (bw_file b') = bf_id (bw_file b) \<and> bw_block b' = bw_block b"
  by (auto simp: BlockFileWrite_poll_def split_beta Let_def dest!: write_chunk_frame
      split: BlockState.splits poll.splits sum.splits)

lemma read_poll_frame:
  "BlockFileRead_poll fs b w = (r, b', w') \<Longrightarrow> bf_id (br_file b') = bf_id (br_file b)"
  by (auto simp: BlockFileRead_poll_def read_chunk_def split_beta Let_def
      split: BlockState.splits poll.splits sum.splits if_splits)

lemma overlap_write_frame:
  "overlap_write_poll fs bs ready w = Some (r, bs', w') \<Longrightarrow>
   list_all2 (\<lambda>b b'. bf_id (bw_file b') = bf_id (bw_file b) \<and> bw_block b' = bw_block b) bs bs'"
  by (induction bs arbitrary: ready w r bs' w')
    (auto simp: bind_eq_Some_conv dest!: write_poll_frame)

lemma overlap_read_frame:
  "overlap_read_poll fs bs ready w = (r, bs', w') \<Longrightarrow>
   map (bf_id \<circ> br_file) bs' = map (bf_id \<circ> br_file) bs"
  by (induction bs arbitrary: ready w r bs' w') (auto dest!: read_poll_frame split: prod.splits)

lemma list_all2_files:
  "list_all2 (\<lambda>b b'. bf_id (bw_file b') = bf_id (bw_file b) \<and> P b b') bs bs' \<Longrightarrow>
   map (bf_id \<circ> bw_file) bs' = map (bf_id \<circ> bw_file) bs"
  by (induction rule: list_all2_induct) auto

lemma job_poll_files:
  "BlockJob_poll fs job w = Some (r, job', w') \<Longrightarrow> job_files job' = job_files job"
  by (induction fs job w rule: BlockJob_poll.induct)
    (auto simp: bind_eq_Some_conv intro: list_all2_files
      dest!: write_poll_frame read_poll_frame overlap_write_frame overlap_read_frame split: prod.splits)

lemma job_poll_verified:
  "BlockJob_poll fs job w = Some (r, job', w') \<Longrightarrow> verified_job env M job \<Longrightarrow> verified_job env M job'"
proof (induction fs job w rule: BlockJob_poll.induct)
  case (4 fs tid m bs w)
  then obtain ready bs' where p: "overlap_write_poll fs bs True w = Some (ready, bs', w')"
    and job': "job' = Write (WriteOverlap tid m bs')" by (auto simp: bind_eq_Some_conv)
  from overlap_write_frame [OF p] have
    "\<forall>b' \<in> set bs'. \<exists>b \<in> set bs. bf_id (bw_file b') = bf_id (bw_file b) \<and> bw_block b' = bw_block b"
    by (fastforce simp: list_all2_conv_all_nth in_set_conv_nth)
  with 4(2) job' show ?case by fastforce
qed (auto simp: bind_eq_Some_conv dest!: write_poll_frame split: prod.splits)

lemma acquire_step:
  assumes "acquire_loop env ((f, window) # files) c qs ok w = res"
  obtains
    (take) fl ok1 w1 where "\<not> is_busy (fst (lru_remove (de_lru env) (fe_id f) c))"
      "acquire_loop env files (snd (lru_remove (de_lru env) (fe_id f) c)) (qs @ [(fe_id f, fl, window)]) ok1 w1
        = res"
  | (busy) piece where "fst (lru_remove (de_lru env) (fe_id f) c) = Some (Busy piece)"
      "acquire_loop env files (lru_insert (de_lru env) (fe_id f) (Busy piece)
         (snd (lru_remove (de_lru env) (fe_id f) c))) qs False w = res"
  | (stop) w1 where "\<not> is_busy (fst (lru_remove (de_lru env) (fe_id f) c))"
      "res = Inr (qs, False, snd (lru_remove (de_lru env) (fe_id f) c), w1)"
  | (failed) w1 where "\<not> is_busy (fst (lru_remove (de_lru env) (fe_id f) c))"
      "res = Inl (snd (lru_remove (de_lru env) (fe_id f) c), w1)"
proof (cases "lru_remove (de_lru env) (fe_id f) c")
  case (Pair st c1)
  show ?thesis
  proof (cases st)
    case None
    obtain r w1 where o: "poll_open_file (de_fs env) (fe_path f) w = (r, w1)" by (cases "poll_open_file (de_fs env) (fe_path f) w")
    show ?thesis
    proof (cases r)
      case Pending
      with assms Pair None o show ?thesis by (intro stop) (auto simp: is_busy_def)
    next
      case (Ready r')
      with assms Pair None o show ?thesis
        by (cases r') (auto simp: is_busy_def intro: take failed)
    qed
  next
    case (Some state)
    then show ?thesis
    proof (cases state)
      case (Busy piece)
      with assms Pair Some show ?thesis by (intro busy) auto
    qed (use assms Pair Some in \<open>auto simp: is_busy_def intro: take\<close>)
  qed
qed

lemma acquire_ids:
  "acquire_loop env files c qs ok w = Inr (qs', ok', c', w') \<Longrightarrow>
   fst ` set qs' \<subseteq> fst ` set qs \<union> (fe_id \<circ> fst) ` set files \<and>
   (distinct (map fst qs @ map (fe_id \<circ> fst) files) \<longrightarrow> distinct (map fst qs'))"
proof (induction files arbitrary: c qs ok w)
  case (Cons e files)
  obtain f window where e: "e = (f, window)" by (cases e)
  from Cons.prems [unfolded e] show ?case
  proof (cases rule: acquire_step)
    case (take fl ok1 w1)
    from Cons.IH [OF take(2)] show ?thesis by (auto simp: e)
  next
    case (busy piece)
    from Cons.IH [OF busy(2)] show ?thesis by (auto simp: e)
  qed auto
qed simp

lemma poll_files_ids:
  assumes "poll_files env tid meta dm w = Some (poll.Ready (Inr files), dm', w')"
    and "\<forall>t \<in> set (dm_torrents dm). distinct (map fe_id (tfl_files t))"
  shows "\<exists>t \<in> set (dm_torrents dm). tfl_id t = tid \<and> distinct (map (bf_id \<circ> snd) files) \<and>
    (bf_id \<circ> snd) ` set files \<subseteq> fe_id ` set (tfl_files t)"
proof (use assms(1) in \<open>cases rule: poll_files_cases\<close>)
  case (acquired t found qs c)
  from acquired(1) have t: "t \<in> set (dm_torrents dm)" "tfl_id t = tid"
    by (auto simp: dm_torrent_def find_Some_iff)
  with files_for_block_entries [OF acquired(2)] assms(2)
  have f: "distinct (map (fe_id \<circ> fst) found)" "fst ` set found \<subseteq> set (tfl_files t)" by auto
  have ids: "map (bf_id \<circ> snd) files = map fst qs"
    using acquired(5) by (auto simp: BlockFile_new_def)
  then have "(bf_id \<circ> snd) ` set files = fst ` set qs" by (metis set_map)
  also have "\<dots> \<subseteq> (fe_id \<circ> fst) ` set found" using acquire_ids [OF acquired(4)] by simp
  also have "\<dots> \<subseteq> fe_id ` set (tfl_files t)" using f(2) by (auto simp: image_subset_iff)
  finally show ?thesis
    using acquire_ids [OF acquired(4)] f t ids by (intro bexI [of _ t]) simp_all
qed simp_all

lemma fragments_files:
  "write_fragments block off files = Some bs \<Longrightarrow>
   map (bf_id \<circ> bw_file) bs = map (bf_id \<circ> snd) files \<and>
   (\<forall>b \<in> set bs. \<exists>i j. slice block i j = Some (bw_block b))"
proof (induction files arbitrary: off bs)
  case (Cons e files)
  obtain window fl where "e = (window, fl)" by (cases e)
  with Cons.prems obtain frag bs' where s: "slice block off (fw_length window) = Some frag"
    and r: "write_fragments block (off + fw_length window) files = Some bs'"
    and bs: "bs = BlockFileWrite_new fl frag window # bs'" by (auto simp: bind_eq_Some_conv)
  from s have "\<exists>i j. slice block i j = Some frag" by blast
  with Cons.IH [OF r] \<open>e = (window, fl)\<close> show ?case by (simp add: bs BlockFileWrite_new_def)
qed simp

lemma known_torrent_ids:
  assumes "known_torrent env M t"
  shows "distinct (map fe_id (tfl_files t)) \<and> (\<forall>f \<in> set (tfl_files t). tf_torrent (fe_id f) = tfl_id t)"
  using assms TorrentFile_new_entries by (fastforce simp: known_torrent_def)

lemma verified_inv_cache:
  "verified_inv env M (dm\<lparr>dm_file_cache := c\<rparr>) = verified_inv env M dm"
  by (simp add: verified_inv_def)

lemma verified_files:
  assumes "verified_inv env M dm"
    and "poll_files env tid meta dm w = Some (poll.Ready (Inr files), dm', w')"
  shows "verified_inv env M dm' \<and> (\<forall>(window, f) \<in> set files. tf_torrent (bf_id f) = tid)"
proof -
  from assms(1) known_torrent_ids have
    d: "\<forall>t \<in> set (dm_torrents dm). distinct (map fe_id (tfl_files t)) \<and>
          (\<forall>f \<in> set (tfl_files t). tf_torrent (fe_id f) = tfl_id t)"
    by (fastforce simp: verified_inv_def)
  with poll_files_ids [OF assms(2)] have "\<forall>(window, f) \<in> set files. tf_torrent (bf_id f) = tid"
    by (fastforce simp: image_subset_iff)
  moreover from poll_files_frame [OF assms(2)] assms(1) have "verified_inv env M dm'"
    by (auto simp: verified_inv_cache)
  ultimately show ?thesis by simp
qed

lemma good_verified:
  assumes "verified_inv env M dm" and "WriteBlock tid block \<in> M"
    and "dm_is_good_piece (de_sha1 env) dm tid block"
  shows "verified_block env M tid block"
proof -
  from assms(3) obtain t where "dm_torrent dm tid = Some t" "is_good_piece (de_sha1 env) t block"
    by (auto simp: dm_is_good_piece_def split: option.splits)
  with assms(1,2) show ?thesis
    by (auto simp: verified_block_def verified_inv_def dm_torrent_def find_Some_iff)
qed

interpretation verified: manager_invariant env M "verified_inv env M" c0 for env M c0
proof unfold_locales
  fix dm i w r job w'
  assume inv: "verified_inv env M dm" and i: "i < length (dm_active_blocks dm)"
    and p: "BlockJob_poll (de_fs env) (dm_active_blocks dm ! i) w = Some (r, job, w')"
  let ?rest = "swap_remove i (dm_active_blocks dm)"
  from inv set_swap_remove [OF i] have old: "\<forall>j \<in> set ?rest. verified_job env M j"
    and "verified_job env M (dm_active_blocks dm ! i)" by (auto simp: verified_inv_def)
  with job_poll_verified [OF p] have "verified_job env M job" by blast
  with inv old show "verified_inv env M (dm\<lparr>dm_active_blocks := ?rest @ [job]\<rparr>)"
    by (auto simp: verified_inv_def)
  show "verified_inv env M (snd (finalize_block env job (dm\<lparr>dm_active_blocks := ?rest\<rparr>)))"
    using inv old by (auto simp: verified_inv_def finalize_block_def release_files_def split: BlockResult.splits)
next
  fix dm tid m w r dm' w'
  assume inv: "verified_inv env M dm" and m: "ReadBlock tid m \<in> M"
    and c: "poll_create_block_read env tid m dm w = Some (r, dm', w')"
  show "verified_inv env M (case r of poll.Ready (Inr job) \<Rightarrow>
      dm'\<lparr>dm_active_blocks := dm_active_blocks dm' @ [job]\<rparr> | _ \<Rightarrow> dm')"
    using c inv m by (cases rule: create_read_cases)
      (auto simp: verified_inv_def push_event_def dest!: poll_files_frame)
next
  fix dm tid block w r dm' w'
  assume inv: "verified_inv env M dm" and m: "WriteBlock tid block \<in> M"
    and c: "poll_create_block_write env tid block dm w = Some (r, dm', w')"
  have blk: "Block_new (bl_metadata block) (bl_data block) = block" by (simp add: Block_new_def)
  from c show "verified_inv env M (case r of poll.Ready (Inr job) \<Rightarrow>
      dm'\<lparr>dm_active_blocks := dm_active_blocks dm' @ [job]\<rparr> | _ \<Rightarrow> dm')"
  proof (cases rule: create_write_cases)
    case (single window fl)
    with verified_files [OF inv single(1)] good_verified [OF inv m] show ?thesis
      by (auto simp: verified_inv_def BlockFileWrite_new_def blk)
  next
    case (overlap files bs)
    note v = verified_files [OF inv overlap(1)] and fr = fragments_files [OF overlap(2)]
    have "tf_torrent (bf_id (bw_file b)) = tid" if "b \<in> set bs" for b
    proof -
      from that have "bf_id (bw_file b) \<in> set (map (bf_id \<circ> bw_file) bs)" by simp
      then show ?thesis using v fr by auto
    qed
    with overlap v fr good_verified [OF inv m] show ?thesis by (auto simp: verified_inv_def)
  qed (use inv m in \<open>auto simp: verified_inv_def push_event_def dest!: poll_files_frame\<close>)
next
  fix dm tid
  show "verified_inv env M dm \<Longrightarrow> verified_inv env M (snd (dm_remove_torrent tid dm))"
    by (auto simp: verified_inv_def dm_remove_torrent_def split: option.splits)
qed (auto simp: verified_inv_def with_capacity_def push_event_def known_torrent_def)

section \<open>Files are held by one job at a time\<close>

lemma lru_insert_look: "lru_laws lru look cap \<Longrightarrow> look (lru_insert lru k v c) k = Some v"
  by (simp add: lru_laws_def)

lemma lru_remove_look:
  "lru_laws lru look cap \<Longrightarrow>
   fst (lru_remove lru k c) = look c k \<and> look (snd (lru_remove lru k c)) = (look c)(k := None)"
  by (simp add: lru_laws_def)

text \<open>A cache with room for all the files it is used for does not evict.\<close>

lemma lru_room_insert:
  assumes "lru_room lru look cap F" and "k \<in> F" and "dom (look c) \<subseteq> F"
  shows "look (lru_insert lru k v c) = (look c)(k := Some v)"
proof -
  have "card (insert k (dom (look c))) \<le> card F"
    using assms by (intro card_mono) (auto simp: lru_room_def)
  with assms(1) show ?thesis by (simp add: lru_room_def lru_laws_def)
qed

lemma lru_room_remove:
  "lru_room lru look cap F \<Longrightarrow>
   fst (lru_remove lru k c) = look c k \<and> look (snd (lru_remove lru k c)) = (look c)(k := None)"
  by (auto simp: lru_room_def dest: lru_remove_look)

lemma dom_update_sub: "dom m \<subseteq> F \<Longrightarrow> k \<in> F \<Longrightarrow> dom (m(k := v)) \<subseteq> F"
  by (auto simp: dom_def)

lemma is_busy_simps [simp]:
  "is_busy (Some (Busy window))" "\<not> is_busy None" "\<not> is_busy (Some (FileReady f))"
  "\<not> is_busy (Some (Queued f window))"
  by (simp_all add: is_busy_def)

lemma acquire_busy:
  assumes room: "lru_room (de_lru env) look cap F"
  shows "acquire_loop env files c qs ok w = res \<Longrightarrow> (fe_id \<circ> fst) ` set files \<subseteq> F \<Longrightarrow> dom (look c) \<subseteq> F \<Longrightarrow>
    dom (look (case res of Inl (c', _) \<Rightarrow> c' | Inr (_, _, c', _) \<Rightarrow> c')) \<subseteq> F \<and>
    (\<forall>fid. is_busy (look (case res of Inl (c', _) \<Rightarrow> c' | Inr (_, _, c', _) \<Rightarrow> c') fid) = is_busy (look c fid)) \<and>
    (\<forall>qs' ok' c' w' fid. res = Inr (qs', ok', c', w') \<longrightarrow> fid \<in> fst ` set qs' \<longrightarrow>
       fid \<in> fst ` set qs \<or> \<not> is_busy (look c fid))"
proof (induction files arbitrary: c qs ok w)
  case (Cons e files)
  obtain f window where e: "e = (f, window)" by (cases e)
  define c1 where "c1 = snd (lru_remove (de_lru env) (fe_id f) c)"
  have rm: "fst (lru_remove (de_lru env) (fe_id f) c) = look c (fe_id f)" "look c1 = (look c)(fe_id f := None)"
    using lru_room_remove [OF room, of "fe_id f" c] by (simp_all add: c1_def)
  have same: "is_busy (look c1 fid) = is_busy (look c fid)" if "\<not> is_busy (look c (fe_id f))" for fid
    using that by (auto simp: rm)
  have F: "fe_id f \<in> F" "(fe_id \<circ> fst) ` set files \<subseteq> F" using Cons.prems(2) by (auto simp: e)
  have dom1: "dom (look c1) \<subseteq> F" unfolding rm(2) using Cons.prems(3) F(1) by (rule dom_update_sub)
  from Cons.prems(1) [unfolded e] show ?case
  proof (cases rule: acquire_step)
    case (take fl ok1 w1)
    from Cons.IH [OF take(2) F(2), folded c1_def, OF dom1] same [OF take(1) [unfolded rm]] take(1) [unfolded rm]
    show ?thesis by simp metis
  next
    case (busy piece)
    have l: "look (lru_insert (de_lru env) (fe_id f) (Busy piece) c1) = look c"
      using busy(1) by (auto simp: lru_room_insert [OF room F(1) dom1] rm)
    with Cons.IH [OF busy(2) F(2), folded c1_def] Cons.prems(3) show ?thesis by simp
  next
    case (stop w1)
    with same dom1 show ?thesis by (simp add: rm(1) c1_def [symmetric])
  next
    case (failed w1)
    with same dom1 show ?thesis by (simp add: rm(1) c1_def [symmetric])
  qed
qed auto

lemma fold_insert_busy:
  assumes room: "lru_room lru look cap F"
  shows "key ` set xs \<subseteq> F \<Longrightarrow> dom (look c) \<subseteq> F \<Longrightarrow> \<forall>x \<in> set xs. is_busy (Some (val x)) = b \<Longrightarrow>
    dom (look (fold (\<lambda>x. lru_insert lru (key x) (val x)) xs c)) \<subseteq> F \<and>
    (\<forall>fid. is_busy (look (fold (\<lambda>x. lru_insert lru (key x) (val x)) xs c) fid)
       \<longleftrightarrow> (if fid \<in> key ` set xs then b else is_busy (look c fid)))"
proof (induction xs arbitrary: c)
  case (Cons x xs)
  have look: "look (lru_insert lru (key x) (val x) c) = (look c)(key x := Some (val x))"
    using Cons.prems by (intro lru_room_insert [OF room]) auto
  then have "dom (look (lru_insert lru (key x) (val x) c)) \<subseteq> F" using Cons.prems(1,2) by auto
  from Cons.IH [OF _ this] Cons.prems show ?case by (auto simp: look)
qed simp

lemma known_files_entry:
  "known_torrent env M t \<Longrightarrow> f \<in> set (tfl_files t) \<Longrightarrow> fe_id f \<in> known_files env M"
  by (auto simp: known_files_def)

lemma block_files_known:
  assumes "\<forall>t \<in> set (dm_torrents dm). known_torrent env M t" and "dm_torrent dm tid = Some t"
    and "files_for_block (de_checks env) t meta = Some (Inr files)"
  shows "(fe_id \<circ> fst) ` set files \<subseteq> known_files env M"
proof -
  from assms(1,2) have t: "known_torrent env M t" by (auto simp: dm_torrent_def find_Some_iff)
  from files_for_block_entries [OF assms(3)] known_torrent_ids [OF t] have "fst ` set files \<subseteq> set (tfl_files t)" by auto
  with t show ?thesis by (auto intro: known_files_entry)
qed

text \<open>Acquiring makes busy exactly the files it hands out, and these were free before.\<close>

lemma poll_files_busy:
  assumes room: "lru_room (de_lru env) look cap (known_files env M)"
    and known: "\<forall>t \<in> set (dm_torrents dm). known_torrent env M t"
    and dom: "dom (look (dm_file_cache dm)) \<subseteq> known_files env M"
    and p: "poll_files env tid meta dm w = Some (res, dm', w')"
  shows "dom (look (dm_file_cache dm')) \<subseteq> known_files env M \<and> (case res of
      poll.Ready (Inr files) \<Rightarrow>
        (\<forall>fid. (fid \<in> (bf_id \<circ> snd) ` set files \<longrightarrow> \<not> is_busy (look (dm_file_cache dm) fid)) \<and>
           (is_busy (look (dm_file_cache dm') fid) \<longleftrightarrow>
              fid \<in> (bf_id \<circ> snd) ` set files \<or> is_busy (look (dm_file_cache dm) fid)))
    | _ \<Rightarrow> \<forall>fid. is_busy (look (dm_file_cache dm') fid) = is_busy (look (dm_file_cache dm) fid))"
  using p
proof (cases rule: poll_files_cases)
  case (failed t files c)
  from acquire_busy [OF room failed(3) block_files_known [OF known failed(1,2)] dom] failed show ?thesis by simp
next
  case (acquired t files qs c)
  note ids = block_files_known [OF known acquired(1,2)]
  note a = acquire_busy [OF room acquired(4) ids dom]
  have files: "(bf_id \<circ> snd) ` set (map (\<lambda>(fid, fl, window). (window, BlockFile_new fid fl)) qs) = fst ` set qs"
    by (force simp: BlockFile_new_def)
  have "fst ` set qs \<subseteq> known_files env M" using acquire_ids [OF acquired(4)] ids by (simp, blast)
  from fold_insert_busy [OF room this, of c "\<lambda>x. Busy (snd (snd x))" True] a
  have "dom (look (dm_file_cache dm')) \<subseteq> known_files env M \<and> (\<forall>fid. is_busy (look (dm_file_cache dm') fid)
      \<longleftrightarrow> fid \<in> fst ` set qs \<or> is_busy (look (dm_file_cache dm) fid))"
    by (simp add: acquired(6) split_def)
  with a show ?thesis unfolding acquired(5) poll.case sum.case files by auto
next
  case (waiting t files qs c)
  note ids = block_files_known [OF known waiting(1,2)]
  note a = acquire_busy [OF room waiting(3) ids dom]
  have "fst ` set qs \<subseteq> known_files env M" using acquire_ids [OF waiting(3)] ids by (simp, blast)
  from fold_insert_busy [OF room this, of c "\<lambda>x. Queued (fst (snd x)) (snd (snd x))" False] a waiting show ?thesis
    by (auto simp: split_def)
qed (use dom in auto)

lemma held_files_add:
  "held_files (dm\<lparr>dm_active_blocks := js @ [j]\<rparr>) =
   mset (job_files j) + held_files (dm\<lparr>dm_active_blocks := js\<rparr>)"
  by (simp add: held_files_def)

lemma held_files_take:
  assumes "i < length (dm_active_blocks dm)"
  shows "held_files dm = mset (job_files (dm_active_blocks dm ! i)) +
    held_files (dm\<lparr>dm_active_blocks := swap_remove i (dm_active_blocks dm)\<rparr>)"
  using mset_swap_remove [OF assms] by (simp add: held_files_def)

lemma held_files_frame [simp]:
  "held_files (dm\<lparr>dm_file_cache := c\<rparr>) = held_files dm"
  "held_files (dm\<lparr>dm_queued_events := q\<rparr>) = held_files dm"
  "held_files (dm\<lparr>dm_torrents := ts\<rparr>) = held_files dm"
  by (simp_all add: held_files_def)

text \<open>A new job that holds files that were free and are busy now.\<close>

lemma exclusive_grow:
  assumes "exclusive look dm" and "distinct ids"
    and "\<forall>fid \<in> set ids. \<not> is_busy (look (dm_file_cache dm) fid)"
    and "\<forall>fid. is_busy (look (dm_file_cache dm') fid) \<longleftrightarrow> fid \<in> set ids \<or> is_busy (look (dm_file_cache dm) fid)"
    and "held_files dm' = mset ids + held_files dm"
  shows "exclusive look dm'"
proof -
  have "fid \<notin># held_files dm" if "fid \<in> set ids" for fid
    using assms(1,3) that by (auto simp: exclusive_def)
  then have "count (mset ids) fid + count (held_files dm) fid \<le> 1" for fid
    using assms(1,2) by (cases "fid \<in> set ids")
      (auto simp: exclusive_def distinct_count_atmost_1 not_in_iff)
  with assms(1,4,5) show ?thesis by (auto simp: exclusive_def)
qed

lemma finalize_cache:
  assumes "lru_room (de_lru env) look cap F" and "set (job_files job) \<subseteq> F" and "dom (look (dm_file_cache dm)) \<subseteq> F"
  shows "dom (look (dm_file_cache (snd (finalize_block env job dm)))) \<subseteq> F \<and>
    (\<forall>fid. is_busy (look (dm_file_cache (snd (finalize_block env job dm))) fid) \<longleftrightarrow>
       fid \<notin> set (job_files job) \<and> is_busy (look (dm_file_cache dm) fid))"
proof -
  define files where "files = (case BlockJob_finalize job of ReadResult t fs r \<Rightarrow> fs | WriteResult t fs r \<Rightarrow> fs)"
  have c: "dm_file_cache (snd (finalize_block env job dm)) =
      fold (\<lambda>f. lru_insert (de_lru env) (bf_id f) (FileReady (bf_inner f))) files (dm_file_cache dm)"
    by (simp add: finalize_block_def release_files_def files_def split: BlockResult.splits)
  have ids: "bf_id ` set files = set (job_files job)"
    unfolding files_def by (cases job rule: job_files.cases) (auto split: prod.splits)
  from fold_insert_busy [OF assms(1), of bf_id files "dm_file_cache dm" "\<lambda>f. FileReady (bf_inner f)" False]
    assms(2,3) ids show ?thesis by (auto simp: c)
qed

lemma finalize_held: "held_files (snd (finalize_block env job dm)) = held_files dm"
  by (simp add: finalize_block_def release_files_def split: BlockResult.splits)

lemma finalize_frame:
  "dm_torrents (snd (finalize_block env job dm)) = dm_torrents dm"
  "dm_queued_events (snd (finalize_block env job dm)) = dm_queued_events dm"
  by (simp_all add: finalize_block_def release_files_def split: BlockResult.splits)

lemma exclusive_finalize:
  assumes "lru_room (de_lru env) look cap F" and "set_mset (held_files dm) \<subseteq> F"
    and "dom (look (dm_file_cache dm)) \<subseteq> F" and "exclusive look dm" and "i < length (dm_active_blocks dm)"
    and "job_files job = job_files (dm_active_blocks dm ! i)"
  defines "dm' \<equiv> snd (finalize_block env job (dm\<lparr>dm_active_blocks := swap_remove i (dm_active_blocks dm)\<rparr>))"
  shows "dom (look (dm_file_cache dm')) \<subseteq> F \<and> exclusive look dm'"
proof -
  let ?rest = "dm\<lparr>dm_active_blocks := swap_remove i (dm_active_blocks dm)\<rparr>"
  note h = held_files_take [OF assms(5), folded assms(6)]
  have c: "dom (look (dm_file_cache dm')) \<subseteq> F \<and> (\<forall>fid. is_busy (look (dm_file_cache dm') fid) \<longleftrightarrow>
      fid \<notin> set (job_files job) \<and> is_busy (look (dm_file_cache dm) fid))"
    unfolding dm'_def using finalize_cache [OF assms(1), of job ?rest] assms(2,3) by (simp add: h)
  have "fid \<notin> set (job_files job)" if "fid \<in># held_files ?rest" for fid
  proof
    assume "fid \<in> set (job_files job)"
    then have "0 < count (mset (job_files job)) fid" by simp
    moreover have "0 < count (held_files ?rest) fid" using that by simp
    moreover have "count (held_files dm) fid \<le> 1" using assms(4) by (simp add: exclusive_def)
    moreover have "count (held_files dm) fid = count (mset (job_files job)) fid + count (held_files ?rest) fid"
      by (simp add: h)
    ultimately show False by linarith
  qed
  moreover have "count (held_files ?rest) fid \<le> 1" for fid
    using assms(4) by (simp add: exclusive_def h) (metis le_add2 order_trans)
  moreover have "held_files dm' = held_files ?rest" by (simp add: dm'_def finalize_held)
  ultimately show ?thesis using assms(4) c by (simp add: exclusive_def h)
qed

lemma read_files_map:
  "map (bf_id \<circ> br_file) (map (\<lambda>(window, fl). BlockFileRead_new fl window) files) = map (bf_id \<circ> snd) files"
  by (auto simp: BlockFileRead_new_def)

text \<open>The job that was created holds the files that were acquired for it.\<close>

lemma exclusive_inv_room:
  assumes "exclusive_inv env M c0 look cap dm" and "lru_room (de_lru env) look cap (known_files env M)" and "look c0 = Map.empty"
  shows "dom (look (dm_file_cache dm)) \<subseteq> known_files env M" and "exclusive look dm"
  using assms by (simp_all add: exclusive_inv_def)

lemma exclusive_inv_known:
  assumes "exclusive_inv env M c0 look cap dm"
  shows "set (dm_queued_events dm) \<subseteq> M" and "\<forall>t \<in> set (dm_torrents dm). known_torrent env M t"
    and "set_mset (held_files dm) \<subseteq> known_files env M"
  using assms by (simp_all add: exclusive_inv_def)

lemma exclusive_job:
  assumes inv: "exclusive_inv env M c0 look cap dm"
    and p: "poll_files env tid m dm w = Some (poll.Ready (Inr files), dm', w')"
    and ids: "job_files job = map (bf_id \<circ> snd) files"
  shows "exclusive_inv env M c0 look cap (dm'\<lparr>dm_active_blocks := dm_active_blocks dm' @ [job]\<rparr>)"
proof -
  let ?new = "dm'\<lparr>dm_active_blocks := dm_active_blocks dm' @ [job]\<rparr>"
  from poll_files_frame [OF p] obtain c where dm': "dm' = dm\<lparr>dm_file_cache := c\<rparr>" ..
  note known = exclusive_inv_known [OF inv]
  have d: "\<forall>t \<in> set (dm_torrents dm). distinct (map fe_id (tfl_files t))" using known(2) known_torrent_ids by blast
  from poll_files_ids [OF p d] obtain t where t: "t \<in> set (dm_torrents dm)" "distinct (job_files job)"
    "set (job_files job) \<subseteq> fe_id ` set (tfl_files t)" by (auto simp: ids)
  have job: "set (job_files job) \<subseteq> known_files env M" using t known(2) by (auto simp: known_files_def)
  have held: "held_files ?new = mset (job_files job) + held_files dm" by (simp add: dm' held_files_def)
  have "dom (look c) \<subseteq> known_files env M \<and> exclusive look ?new"
    if room: "lru_room (de_lru env) look cap (known_files env M)" and c0: "look c0 = Map.empty"
  proof -
    note r = exclusive_inv_room [OF inv room c0]
    have b: "dom (look c) \<subseteq> known_files env M" "(fid \<in> set (job_files job) \<longrightarrow> \<not> is_busy (look (dm_file_cache dm) fid)) \<and>
       (is_busy (look c fid) \<longleftrightarrow> fid \<in> set (job_files job) \<or> is_busy (look (dm_file_cache dm) fid))" for fid
      using poll_files_busy [OF room known(2) r(1) p] by (simp_all add: ids dm')
    then have "exclusive look ?new" by (intro exclusive_grow [OF r(2) t(2) _ _ held]) (simp_all add: dm')
    with b(1) show ?thesis ..
  qed
  with known job held show ?thesis by (simp add: exclusive_inv_def dm')
qed

lemma exclusive_waits:
  assumes inv: "exclusive_inv env M c0 look cap dm"
    and p: "poll_files env tid m dm w = Some (r, dm', w')" and "\<forall>files. r \<noteq> poll.Ready (Inr files)"
  shows "exclusive_inv env M c0 look cap dm'"
proof -
  from poll_files_frame [OF p] obtain c where dm': "dm' = dm\<lparr>dm_file_cache := c\<rparr>" ..
  note known = exclusive_inv_known [OF inv]
  have "dom (look c) \<subseteq> known_files env M \<and> exclusive look dm'"
    if room: "lru_room (de_lru env) look cap (known_files env M)" and c0: "look c0 = Map.empty"
  proof -
    note r = exclusive_inv_room [OF inv room c0]
    have "dom (look c) \<subseteq> known_files env M" "is_busy (look c fid) = is_busy (look (dm_file_cache dm) fid)" for fid
      using poll_files_busy [OF room known(2) r(1) p] assms(3) by (auto simp: dm' split: poll.splits sum.splits)
    with r(2) show ?thesis by (auto simp: exclusive_def dm')
  qed
  with known show ?thesis by (simp add: exclusive_inv_def dm')
qed

lemma exclusive_push:
  "msg \<in> M \<Longrightarrow> exclusive_inv env M c0 look cap (push_event msg dm) = exclusive_inv env M c0 look cap dm"
  by (simp add: exclusive_inv_def exclusive_def push_event_def)

interpretation exclusive_files: manager_invariant env M "exclusive_inv env M c0 look cap" c0 for env M c0 look cap
proof unfold_locales
  fix dm i w r job w'
  assume inv: "exclusive_inv env M c0 look cap dm" and i: "i < length (dm_active_blocks dm)"
    and p: "BlockJob_poll (de_fs env) (dm_active_blocks dm ! i) w = Some (r, job, w')"
  note files = job_poll_files [OF p] and known = exclusive_inv_known [OF inv]
  have "held_files (dm\<lparr>dm_active_blocks := swap_remove i (dm_active_blocks dm) @ [job]\<rparr>) = held_files dm"
    by (simp add: held_files_add files held_files_take [OF i])
  with inv show "exclusive_inv env M c0 look cap (dm\<lparr>dm_active_blocks := swap_remove i (dm_active_blocks dm) @ [job]\<rparr>)"
    by (simp add: exclusive_inv_def exclusive_def)
  let ?fin = "snd (finalize_block env job (dm\<lparr>dm_active_blocks := swap_remove i (dm_active_blocks dm)\<rparr>))"
  have "dom (look (dm_file_cache ?fin)) \<subseteq> known_files env M \<and> exclusive look ?fin"
    if room: "lru_room (de_lru env) look cap (known_files env M)" and c0: "look c0 = Map.empty"
    by (rule exclusive_finalize [OF room known(3) exclusive_inv_room [OF inv room c0] i files])
  moreover have "set_mset (held_files ?fin) \<subseteq> set_mset (held_files dm)"
    using held_files_take [OF i] by (simp add: finalize_held)
  ultimately show "exclusive_inv env M c0 look cap ?fin"
    using known by (auto simp: exclusive_inv_def finalize_frame)
next
  fix dm tid m w r dm' w'
  assume inv: "exclusive_inv env M c0 look cap dm" and M: "ReadBlock tid m \<in> M"
    and c: "poll_create_block_read env tid m dm w = Some (r, dm', w')"
  from c show "exclusive_inv env M c0 look cap (case r of poll.Ready (Inr job) \<Rightarrow>
      dm'\<lparr>dm_active_blocks := dm_active_blocks dm' @ [job]\<rparr> | _ \<Rightarrow> dm')"
  proof (cases rule: create_read_cases)
    case (single window fl)
    with exclusive_job [OF inv single(1)] show ?thesis by (simp add: BlockFileRead_new_def)
  next
    case (overlap files)
    have "job_files (Read (ReadOverlap tid m (map (\<lambda>(window, fl). BlockFileRead_new fl window) files)))
        = map (bf_id \<circ> snd) files"
      by (simp only: job_files.simps read_files_map)
    from exclusive_job [OF inv overlap(1) this] overlap show ?thesis by simp
  qed (use exclusive_waits [OF inv] M in \<open>auto simp: exclusive_push\<close>)
next
  fix dm tid block w r dm' w'
  assume inv: "exclusive_inv env M c0 look cap dm" and M: "WriteBlock tid block \<in> M"
    and c: "poll_create_block_write env tid block dm w = Some (r, dm', w')"
  from c show "exclusive_inv env M c0 look cap (case r of poll.Ready (Inr job) \<Rightarrow>
      dm'\<lparr>dm_active_blocks := dm_active_blocks dm' @ [job]\<rparr> | _ \<Rightarrow> dm')"
  proof (cases rule: create_write_cases)
    case (single window fl)
    with exclusive_job [OF inv single(1)] show ?thesis by (simp add: BlockFileWrite_new_def)
  next
    case (overlap files bs)
    with exclusive_job [OF inv overlap(1)] fragments_files [OF overlap(2)] show ?thesis by simp
  qed (use exclusive_waits [OF inv] inv M in \<open>auto simp: exclusive_push\<close>)
next
  fix dm tid
  show "exclusive_inv env M c0 look cap dm \<Longrightarrow> exclusive_inv env M c0 look cap (snd (dm_remove_torrent tid dm))"
    by (auto simp: exclusive_inv_def exclusive_def dm_remove_torrent_def split: option.splits)
next
  fix dm tid meta t rest
  assume "exclusive_inv env M c0 look cap dm" "dm_queued_events dm = AddTorrent tid meta # rest"
    "TorrentFile_new (de_checks env) tid meta = Some t"
  then show "exclusive_inv env M c0 look cap (dm\<lparr>dm_queued_events := rest, dm_torrents := t # dm_torrents dm\<rparr>)"
    by (auto simp: exclusive_inv_def exclusive_def known_torrent_def)
qed (auto simp: exclusive_inv_def exclusive_def with_capacity_def held_files_def push_event_def)

section \<open>The torrents of the manager\<close>

lemma disk_ids_frame [simp]:
  "disk_ids_inv S (dm\<lparr>dm_file_cache := c\<rparr>) = disk_ids_inv S dm"
  "disk_ids_inv S (dm\<lparr>dm_active_blocks := js\<rparr>) = disk_ids_inv S dm"
  by (simp_all add: disk_ids_inv_def disk_ids_def)

lemma added_append [simp]: "added (xs @ ys) = added xs @ added ys"
  by (induction xs rule: added.induct) simp_all

lemma disk_ids_push [simp]:
  "disk_ids_inv S (push_event (ReadBlock tid m) dm) = disk_ids_inv S dm"
  "disk_ids_inv S (push_event (WriteBlock tid b) dm) = disk_ids_inv S dm"
  by (auto simp: disk_ids_inv_def disk_ids_def push_event_def)

lemma dm_torrent_None: "dm_torrent dm tid = None \<longleftrightarrow> tid \<notin> tfl_id ` set (dm_torrents dm)"
  by (auto simp: dm_torrent_def find_None_iff)

interpretation torrent_ids: manager_step env "- range RemoveTorrent" "disk_ids_inv S"
  for env :: "('f, 'e, 'w, 'c) disk_env" and S
proof unfold_locales
  fix dm :: "('f, 'c) DiskManager" and i w r job w'
  assume "disk_ids_inv S dm"
  then show "disk_ids_inv S (snd (finalize_block env job (dm\<lparr>dm_active_blocks := swap_remove i (dm_active_blocks dm)\<rparr>)))"
    by (simp add: finalize_block_def release_files_def split: BlockResult.splits)
next
  fix dm :: "('f, 'c) DiskManager" and msg rest
  assume inv: "disk_ids_inv S dm" and q: "dm_queued_events dm = msg # rest"
    and "\<forall>tid meta. msg = AddTorrent tid meta \<longrightarrow> dm_torrent dm tid \<noteq> None"
  then show "msg \<in> - range RemoveTorrent \<and> disk_ids_inv S (dm\<lparr>dm_queued_events := rest\<rparr>)"
    by (cases msg) (auto simp: disk_ids_inv_def disk_ids_def dm_torrent_None)
next
  fix dm :: "('f, 'c) DiskManager" and tid meta rest t
  assume "disk_ids_inv S dm" "dm_queued_events dm = AddTorrent tid meta # rest"
    "TorrentFile_new (de_checks env) tid meta = Some t"
  then show "disk_ids_inv S (dm\<lparr>dm_queued_events := rest, dm_torrents := t # dm_torrents dm\<rparr>)"
    using TorrentFile_new_entries [of "de_checks env" tid meta t] by (auto simp: disk_ids_inv_def disk_ids_def)
next
  fix dm :: "('f, 'c) DiskManager" and tid m w r dm' w'
  assume "disk_ids_inv S dm" "poll_create_block_read env tid m dm w = Some (r, dm', w')"
  with create_read_frame [OF this(2)] show "disk_ids_inv S (case r of poll.Ready (Inr job) \<Rightarrow>
      dm'\<lparr>dm_active_blocks := dm_active_blocks dm' @ [job]\<rparr> | _ \<Rightarrow> dm')"
    by (auto split: poll.splits sum.splits if_splits)
next
  fix dm :: "('f, 'c) DiskManager" and tid block w r dm' w'
  assume "disk_ids_inv S dm" "poll_create_block_write env tid block dm w = Some (r, dm', w')"
  with create_write_frame [OF this(2)] show "disk_ids_inv S (case r of poll.Ready (Inr job) \<Rightarrow>
      dm'\<lparr>dm_active_blocks := dm_active_blocks dm' @ [job]\<rparr> | _ \<Rightarrow> dm')"
    by (auto split: poll.splits sum.splits if_splits)
qed auto

section \<open>Lemmas on single polls\<close>

lemma map_of_without: "map_of (filter (\<lambda>e. fst e \<noteq> k) c) = (map_of c)(k := None)"
  by (induction c) (auto simp: fun_eq_iff)

lemma lru_of_room:
  assumes "card (insert k (dom (map_of c))) \<le> n"
  shows "map_of (take (n - Suc 0) (filter (\<lambda>e. fst e \<noteq> k) (AList.clearjunk c))) = (map_of c)(k := None)"
proof -
  let ?l = "filter (\<lambda>e. fst e \<noteq> k) (AList.clearjunk c)"
  have "length ?l = card (set (map fst ?l))"
    by (rule distinct_card [symmetric, of "map fst ?l", simplified length_map]) (rule distinct_map_filter, rule distinct_clearjunk)
  also have "set (map fst ?l) = dom (map_of ?l)" by (simp add: dom_map_of_conv_image_fst)
  also have "\<dots> = dom (map_of c) - {k}" by (simp add: map_of_without map_of_clearjunk del: dom_fun_upd) auto
  also have "card \<dots> = card (insert k (dom (map_of c))) - 1"
    by (simp add: finite_dom_map_of card_Diff_singleton_if card_insert_if)
  finally show ?thesis using assms by (simp add: map_of_without map_of_clearjunk)
qed

lemma lru_of_laws: "0 < n \<Longrightarrow> lru_laws (lru_of n) map_of n"
  by (auto simp: lru_laws_def lru_of_def finite_dom_map_of map_of_without lru_of_room)

lemma queue_loop_pending:
  "queue_loop env q dm w = Some (Some Pending, dm', w') \<Longrightarrow> dm_queued_events dm' \<noteq> []"
proof (induction q arbitrary: dm w)
  case (Cons msg rest)
  show ?case
  proof (cases msg)
    case (AddTorrent tid meta)
    with Cons.prems show ?thesis by (auto simp: Let_def bind_eq_Some_conv split: if_splits)
  next
    case (ReadBlock tid m)
    with Cons.prems obtain r dm2 w1 where
      "poll_create_block_read env tid m (dm\<lparr>dm_queued_events := rest\<rparr>) w = Some (r, dm2, w1)"
      by (auto simp: Let_def bind_eq_Some_conv)
    with create_read_frame [OF this] Cons ReadBlock show ?thesis
      by (cases r) (auto simp: Let_def push_event_def split: sum.splits)
  next
    case (WriteBlock tid block)
    with Cons.prems obtain r dm2 w1 where
      "poll_create_block_write env tid block (dm\<lparr>dm_queued_events := rest\<rparr>) w = Some (r, dm2, w1)"
      by (auto simp: Let_def bind_eq_Some_conv)
    with create_write_frame [OF this] Cons WriteBlock show ?thesis
      by (cases r) (auto simp: Let_def push_event_def split: sum.splits)
  qed (use Cons in \<open>auto simp: Let_def split: prod.splits\<close>)
qed simp

text \<open>Taking the one file of a block, from the cache or by opening it.\<close>

lemma poll_files_single:
  assumes "dm_torrent dm tid = Some t" and "files_for_block (de_checks env) t m = Some (Inr [(entry, win)])"
    and "lru_laws (de_lru env) look cap" and "available env look (dm_file_cache dm) entry w f w'"
  shows "\<exists>c. poll_files env tid m dm w =
      Some (poll.Ready (Inr [(win, BlockFile_new (fe_id entry) f)]), dm\<lparr>dm_file_cache := c\<rparr>, w') \<and> is_busy (look c (fe_id entry))"
proof -
  obtain st c where r: "lru_remove (de_lru env) (fe_id entry) (dm_file_cache dm) = (st, c)"
    by (cases "lru_remove (de_lru env) (fe_id entry) (dm_file_cache dm)")
  with lru_remove_look [OF assms(3), of "fe_id entry" "dm_file_cache dm"]
  have st: "st = look (dm_file_cache dm) (fe_id entry)" by simp
  have "acquire_loop env [(entry, win)] (dm_file_cache dm) [] True w = Inr ([(fe_id entry, f, win)], True, c, w')"
    using assms(4) r st by (auto simp: available_def split: option.splits FileState.splits)
  with assms(1,2) show ?thesis
    by (intro exI [of _ "lru_insert (de_lru env) (fe_id entry) (Busy win) c"])
      (simp add: poll_files_def lru_insert_look [OF assms(3)] del: acquire_loop.simps)
qed

lemma overwrite_window: "take (length xs) (drop off (overwrite off xs bytes)) = xs"
  by (simp add: overwrite_def)

lemma prompt_write_bytes:
  assumes "fs_laws fs bytes pos" and "prompt_write fs f off buf w f' w'"
  shows "bytes f' = overwrite off buf (bytes f)"
proof -
  from assms(2) obtain p f1 w1 where s: "poll_seek fs f off w = (poll.Ready (Inr p), f1, w1)"
    and r: "poll_write_block fs f1 buf w1 = (poll.Ready (Inr (length buf)), f', w')"
    by (auto simp: prompt_write_def)
  from seek_law [OF assms(1) s] write_law [OF assms(1) r] show ?thesis by simp
qed

lemma prompt_write_poll:
  assumes "prompt_write fs f (fw_offset win) buf w f' w'" and "length buf = fw_length win"
  shows "BlockFileWrite_poll fs (BlockFileWrite_new (BlockFile_new fid f) buf win) w =
    Some (poll.Ready (Inr ()), \<lparr>bw_file = BlockFile_new fid f', bw_written = length buf, bw_block = buf,
       bw_window = win, bw_state = BlockState.Ready\<rparr>, w')"
  using assms
  by (auto simp: prompt_write_def BlockFileWrite_poll_def BlockFileWrite_new_def BlockFile_new_def
      write_chunk_def slice_def Let_def)

lemma prompt_read_poll:
  assumes "fs_laws fs bytes pos" and "prompt_read fs f (fw_offset win) (fw_length win) w f' w'"
  shows "BlockFileRead_poll fs (BlockFileRead_new (BlockFile_new fid f) win) w =
    (poll.Ready (Inr ()), \<lparr>br_file = BlockFile_new fid f',
       br_block = take (fw_length win) (drop (fw_offset win) (bytes f)),
       br_window = win, br_read = fw_length win, br_state = BlockState.Ready\<rparr>, w')"
proof -
  from assms(2) obtain p f1 w1 blk where
    s: "poll_seek fs f (fw_offset win) w = (poll.Ready (Inr p), f1, w1)"
    and r: "poll_read_block fs f1 [] w1 = (poll.Ready (Inr (fw_length win)), f', blk, w')"
    by (auto simp: prompt_read_def)
  from seek_law [OF assms(1) s] read_law [OF assms(1) r]
  have "blk = take (fw_length win) (drop (fw_offset win) (bytes f))" by simp
  with s r show ?thesis
    by (simp add: BlockFileRead_poll_def BlockFileRead_new_def BlockFile_new_def read_chunk_def Let_def)
qed

text \<open>A poll of an idle manager with one message whose job finishes at once.\<close>

lemma dm_poll_one_job:
  assumes "dm_active_blocks dm = []"
    and "queue_loop env (dm_queued_events dm) dm w = Some (None, dm1, w1)" and "dm_active_blocks dm1 = [job]"
    and "BlockJob_poll (de_fs env) job w1 = Some (poll.Ready r, job', w2)"
  shows "dm_poll env (Suc (Suc n)) dm w =
    (case finalize_block env job' (dm1\<lparr>dm_active_blocks := []\<rparr>) of (out, dm2) \<Rightarrow>
       Some (Some (poll.Ready out, dm2, w2)))"
  using assms by (simp add: swap_remove_def split: prod.splits)

lemma poll_write_single:
  assumes "dm_active_blocks dm = []" and "dm_queued_events dm = [WriteBlock tid block]"
    and "dm_torrent dm tid = Some t" and "files_for_block (de_checks env) t (bl_metadata block) = Some (Inr [(entry, win)])"
    and "lru_laws (de_lru env) look cap" and "available env look (dm_file_cache dm) entry w f w1"
    and "is_good_piece (de_sha1 env) t block" and "length (bl_data block) = fw_length win"
    and "prompt_write (de_fs env) f (fw_offset win) (bl_data block) w1 f2 w2"
  shows "\<exists>c. dm_poll env (Suc (Suc n)) dm w = Some (Some (poll.Ready (PieceWritten (tf_torrent (fe_id entry)) block),
      dm\<lparr>dm_queued_events := [], dm_file_cache := c\<rparr>, w2)) \<and> look c (fe_id entry) = Some (FileReady f2)"
proof -
  let ?dm = "dm\<lparr>dm_queued_events := []\<rparr>"
  let ?job = "Write (WriteSingle (bl_metadata block) (BlockFileWrite_new (BlockFile_new (fe_id entry) f) (bl_data block) win))"
  have t: "dm_torrent ?dm tid = Some t" using assms(3) by (simp add: dm_torrent_def)
  have idle: "dm\<lparr>dm_queued_events := q, dm_active_blocks := [], dm_file_cache := c\<rparr>
      = dm\<lparr>dm_queued_events := q, dm_file_cache := c\<rparr>" for q c using assms(1) by (cases dm) simp
  from poll_files_single [OF t assms(4,5), of w f w1] assms(6) obtain c where
    p: "poll_files env tid (bl_metadata block) ?dm w =
      Some (poll.Ready (Inr [(win, BlockFile_new (fe_id entry) f)]), ?dm\<lparr>dm_file_cache := c\<rparr>, w1)" by auto
  have "dm_is_good_piece (de_sha1 env) ?dm tid block" using t assms(7) by (simp add: dm_is_good_piece_def)
  with p have "poll_create_block_write env tid block ?dm w = Some (poll.Ready (Inr ?job), ?dm\<lparr>dm_file_cache := c\<rparr>, w1)"
    by (simp add: poll_create_block_write_def)
  then have q: "queue_loop env (dm_queued_events dm) dm w =
      Some (None, ?dm\<lparr>dm_file_cache := c, dm_active_blocks := [?job]\<rparr>, w1)"
    using assms(1,2) by (simp add: Let_def)
  note poll = prompt_write_poll [OF assms(9,8), of "fe_id entry"]
  have "BlockJob_poll (de_fs env) ?job w1 = Some (poll.Ready (Inr ()), Write (WriteSingle (bl_metadata block)
      \<lparr>bw_file = BlockFile_new (fe_id entry) f2, bw_written = length (bl_data block), bw_block = bl_data block,
       bw_window = win, bw_state = BlockState.Ready\<rparr>), w2)" by (simp add: poll)
  from dm_poll_one_job [OF assms(1) q _ this, of n] assms(1,8) show ?thesis
    by (intro exI [of _ "lru_insert (de_lru env) (fe_id entry) (FileReady f2) c"])
      (simp add: finalize_block_def release_files_def BlockFile_new_def Block_new_def idle lru_insert_look [OF assms(5)]
        del: dm_poll.simps)
qed

lemma poll_read_single:
  assumes "dm_active_blocks dm = []" and "dm_queued_events dm = [ReadBlock tid m]"
    and "dm_torrent dm tid = Some t" and "files_for_block (de_checks env) t m = Some (Inr [(entry, win)])"
    and "lru_laws (de_lru env) look cap" and "available env look (dm_file_cache dm) entry w f w1"
    and "fs_laws (de_fs env) bytes pos" and "fw_offset win + fw_length win \<le> length (bytes f)"
    and "prompt_read (de_fs env) f (fw_offset win) (fw_length win) w1 f2 w2"
  shows "\<exists>c. dm_poll env (Suc (Suc n)) dm w = Some (Some (poll.Ready (BlockRead (tf_torrent (fe_id entry))
      (Block_new m (take (fw_length win) (drop (fw_offset win) (bytes f))))),
      dm\<lparr>dm_queued_events := [], dm_file_cache := c\<rparr>, w2)) \<and> look c (fe_id entry) = Some (FileReady f2)"
proof -
  let ?dm = "dm\<lparr>dm_queued_events := []\<rparr>"
  let ?job = "Read (ReadSingle m (BlockFileRead_new (BlockFile_new (fe_id entry) f) win))"
  have t: "dm_torrent ?dm tid = Some t" using assms(3) by (simp add: dm_torrent_def)
  have idle: "dm\<lparr>dm_queued_events := q, dm_active_blocks := [], dm_file_cache := c\<rparr>
      = dm\<lparr>dm_queued_events := q, dm_file_cache := c\<rparr>" for q c using assms(1) by (cases dm) simp
  from poll_files_single [OF t assms(4,5), of w f w1] assms(6) obtain c where
    p: "poll_files env tid m ?dm w =
      Some (poll.Ready (Inr [(win, BlockFile_new (fe_id entry) f)]), ?dm\<lparr>dm_file_cache := c\<rparr>, w1)" by auto
  then have "poll_create_block_read env tid m ?dm w = Some (poll.Ready (Inr ?job), ?dm\<lparr>dm_file_cache := c\<rparr>, w1)"
    by (simp add: poll_create_block_read_def)
  then have q: "queue_loop env (dm_queued_events dm) dm w =
      Some (None, ?dm\<lparr>dm_file_cache := c, dm_active_blocks := [?job]\<rparr>, w1)"
    using assms(1,2) by (simp add: Let_def)
  note poll = prompt_read_poll [OF assms(7,9), of "fe_id entry"]
  have "BlockJob_poll (de_fs env) ?job w1 = Some (poll.Ready (Inr ()), Read (ReadSingle m
      \<lparr>br_file = BlockFile_new (fe_id entry) f2, br_block = take (fw_length win) (drop (fw_offset win) (bytes f)),
       br_window = win, br_read = fw_length win, br_state = BlockState.Ready\<rparr>), w2)" by (simp add: poll)
  from dm_poll_one_job [OF assms(1) q _ this, of n] assms(1,8) show ?thesis
    by (intro exI [of _ "lru_insert (de_lru env) (fe_id entry) (FileReady f2) c"])
      (simp add: finalize_block_def release_files_def BlockFile_new_def idle lru_insert_look [OF assms(5)]
        del: dm_poll.simps)
qed

lemmas demo_defs = disk_demo_def one_file_def mem_fs_def TorrentFile_new_def TorrentFileId_new_def
  files_for_block_def FileWindow_new_def u64_add_def u64_mul_def u64_sub_def

lemma one_file_new: "TorrentFile_new checks (TorrentId 0) one_file =
    Some \<lparr>tfl_id = TorrentId 0, tfl_meta_info = one_file,
      tfl_files = [\<lparr>fe_path = [[99]], fe_id = TorrentFileId_new (TorrentId 0) (FileId 0), fe_offset = 0, fe_size = 4\<rparr>]\<rparr>"
  by (simp add: demo_defs)

text \<open>A manager with a write job under way, reached by adding a torrent and queueing a block.\<close>

lemma demo_busy_manager:
  "\<exists>dm. dm_run (disk_demo (lru_of 100)) {AddTorrent (TorrentId 0) one_file, WriteBlock (TorrentId 0) (Block_new (BlockMetadata_new 1 0 2) [3, 4])} [] dm \<and>
     dm_active_blocks dm = [Write (WriteSingle (BlockMetadata_new 1 0 2)
       (BlockFileWrite_new (BlockFile_new (TorrentFileId_new (TorrentId 0) (FileId 0)) \<lparr>mf_bytes = [], mf_pos = 0\<rparr>)
          [3, 4] (FileWindow_new 2 2)))]"
proof -
  let ?add = "AddTorrent (TorrentId 0) one_file"
  let ?wr = "WriteBlock (TorrentId 0) (Block_new (BlockMetadata_new 1 0 2) [3, 4])"
  let ?env = "disk_demo (lru_of 100)"
  let ?r = "dm_run ?env {?add, ?wr} []"
  have r0: "?r (push_event ?add (with_capacity []))" by (auto intro: dm_start dm_push)
  define dm1 where "dm1 = \<lparr>dm_active_blocks = [] :: MemFile BlockJob list,
    dm_file_cache = ([] :: (TorrentFileId \<times> MemFile FileState) list),
    dm_torrents = [the (TorrentFile_new False (TorrentId 0) one_file)], dm_queued_events = []\<rparr>"
  have "dm_poll ?env 1 (push_event ?add (with_capacity [])) [] =
      Some (Some (poll.Ready (TorrentAdded (TorrentId 0)), dm1, []))"
    by (simp add: push_event_def with_capacity_def dm_torrent_def one_file_new disk_demo_def dm1_def)
  note r1 = dm_polled [OF r0 this]
  from r1 have r2: "?r (push_event ?add (push_event ?wr dm1))" by (auto intro: dm_push)
  let ?job = "Write (WriteSingle (BlockMetadata_new 1 0 2)
       (BlockFileWrite_new (BlockFile_new (TorrentFileId_new (TorrentId 0) (FileId 0)) \<lparr>mf_bytes = [], mf_pos = 0\<rparr>)
          [3, 4] (FileWindow_new 2 2)))"
  let ?q = "dm1\<lparr>dm_queued_events := [?add]\<rparr>"
  have "\<exists>c. poll_files ?env (TorrentId 0) (BlockMetadata_new 1 0 2) ?q [] =
      Some (poll.Ready (Inr [(FileWindow_new 2 2, BlockFile_new (TorrentFileId_new (TorrentId 0) (FileId 0)) \<lparr>mf_bytes = [], mf_pos = 0\<rparr>)]),
        ?q\<lparr>dm_file_cache := c\<rparr>, [])"
    by (simp add: dm1_def poll_files_def dm_torrent_def one_file_new lru_of_def BlockMetadata_new_def demo_defs Let_def)
  then obtain c where c: "poll_files ?env (TorrentId 0) (BlockMetadata_new 1 0 2) ?q [] =
      Some (poll.Ready (Inr [(FileWindow_new 2 2, BlockFile_new (TorrentFileId_new (TorrentId 0) (FileId 0)) \<lparr>mf_bytes = [], mf_pos = 0\<rparr>)]),
        ?q\<lparr>dm_file_cache := c\<rparr>, [])" by blast
  have "dm_is_good_piece (de_sha1 ?env) ?q (TorrentId 0) (Block_new (BlockMetadata_new 1 0 2) [3, 4])"
    by (simp add: dm_is_good_piece_def dm_torrent_def dm1_def one_file_new is_good_piece_def)
      (simp add: Block_new_def BlockMetadata_new_def disk_demo_def one_file_def)
  with c have "poll_create_block_write ?env (TorrentId 0) (Block_new (BlockMetadata_new 1 0 2) [3, 4]) ?q [] =
      Some (poll.Ready (Inr ?job), ?q\<lparr>dm_file_cache := c\<rparr>, [])"
    by (simp add: poll_create_block_write_def Block_new_def)
  then have "dm_poll ?env 1 (push_event ?add (push_event ?wr dm1)) [] =
      Some (Some (poll.Ready (TorrentError (TorrentId 0) (ExistingTorrent one_file)),
        dm1\<lparr>dm_file_cache := c, dm_active_blocks := [?job]\<rparr>, []))"
    by (simp add: push_event_def dm_torrent_def one_file_new dm1_def Let_def)
  note r3 = dm_polled [OF r2 this]
  have "dm_active_blocks (dm1\<lparr>dm_file_cache := c, dm_active_blocks := [?job]\<rparr>) = [?job]" by simp
  with r3 show ?thesis by blast
qed

section \<open>Properties\<close>

text \<open>
  C6. Only verified data reaches the disk. In every manager that can arise, whatever messages
  are queued and however the file system behaves, each active write job carries a block that was
  queued for writing and whose bytes hash to the entry of their piece in the torrent it was
  queued for; the parts of a job over several files are slices of one such block; and the files
  the job writes to are files of that torrent.
\<close>

theorem only_verified_written:
  assumes "dm_reachable env M dm" and "job \<in> set (dm_active_blocks dm)"
  shows "verified_job env M job"
  using assms verified.run_inv [of env M _ dm] by (fastforce simp: dm_reachable_def verified_inv_def)

theorem only_verified_written_witness:
  "verified_block (disk_demo (lru_of 100))
     {AddTorrent (TorrentId 0) one_file, WriteBlock (TorrentId 0) (Block_new (BlockMetadata_new 1 0 2) [3, 4])}
     (TorrentId 0) (Block_new (BlockMetadata_new 1 0 2) [3, 4])"
proof -
  let ?M = "{AddTorrent (TorrentId 0) one_file, WriteBlock (TorrentId 0) (Block_new (BlockMetadata_new 1 0 2) [3, 4])}"
  obtain dm where "dm_run (disk_demo (lru_of 100)) ?M [] dm"
    and a: "dm_active_blocks dm = [Write (WriteSingle (BlockMetadata_new 1 0 2)
       (BlockFileWrite_new (BlockFile_new (TorrentFileId_new (TorrentId 0) (FileId 0)) \<lparr>mf_bytes = [], mf_pos = 0\<rparr>)
          [3, 4] (FileWindow_new 2 2)))]"
    using demo_busy_manager by blast
  then have "dm_reachable (disk_demo (lru_of 100)) ?M dm" by (auto simp: dm_reachable_def)
  from only_verified_written [OF this, unfolded a, OF list.set_intros(1)] show ?thesis
    by (simp add: BlockFileWrite_new_def BlockFile_new_def TorrentFileId_new_def)
qed

text \<open>
  C7. No file is used by two jobs at once, as long as the cache of open files has room for all of
  them: if the files of all torrents that are ever added are not more than the capacity of the
  cache, then in every manager that arises from a new one every file of an active job is held by
  that job only, once, and is marked busy.
\<close>

theorem files_exclusive:
  assumes "lru_laws (de_lru env) look cap" and "look c0 = Map.empty"
    and "finite (known_files env M)" and "card (known_files env M) \<le> cap" and "dm_run env M c0 dm"
  shows "count (held_files dm) fid \<le> 1 \<and>
    (fid \<in># held_files dm \<longrightarrow> is_busy (look (dm_file_cache dm) fid))"
proof -
  have "lru_room (de_lru env) look cap (known_files env M)" using assms(1,3,4) by (simp add: lru_room_def)
  from exclusive_inv_room(2) [OF exclusive_files.run_inv [OF assms(5)] this assms(2)] show ?thesis
    by (simp add: exclusive_def)
qed

theorem files_exclusive_witness:
  "\<exists>dm :: (MemFile, (TorrentFileId \<times> MemFile FileState) list) DiskManager.
     held_files dm = {#TorrentFileId_new (TorrentId 0) (FileId 0)#} \<and>
     is_busy (map_of (dm_file_cache dm) (TorrentFileId_new (TorrentId 0) (FileId 0)))"
proof -
  let ?M = "{AddTorrent (TorrentId 0) one_file, WriteBlock (TorrentId 0) (Block_new (BlockMetadata_new 1 0 2) [3, 4])}"
  let ?fid = "TorrentFileId_new (TorrentId 0) (FileId 0)"
  obtain dm where r: "dm_run (disk_demo (lru_of 100)) ?M [] dm"
    and a: "dm_active_blocks dm = [Write (WriteSingle (BlockMetadata_new 1 0 2)
       (BlockFileWrite_new (BlockFile_new ?fid \<lparr>mf_bytes = [], mf_pos = 0\<rparr>) [3, 4] (FileWindow_new 2 2)))]"
    using demo_busy_manager by blast
  have h: "held_files dm = {#?fid#}" by (simp add: held_files_def a BlockFileWrite_new_def BlockFile_new_def)
  have laws: "lru_laws (de_lru (disk_demo (lru_of 100))) map_of 100" by (simp add: disk_demo_def lru_of_laws)
  have F: "known_files (disk_demo (lru_of 100)) ?M \<subseteq> {?fid}"
    by (auto simp: known_files_def known_torrent_def one_file_new)
  then have "finite (known_files (disk_demo (lru_of 100)) ?M)" by (rule finite_subset) simp
  moreover from F have "card (known_files (disk_demo (lru_of 100)) ?M) \<le> card {?fid}" by (rule card_mono [rotated]) simp
  then have "card (known_files (disk_demo (lru_of 100)) ?M) \<le> 100" by simp
  ultimately show ?thesis using files_exclusive [OF laws _ _ _ r, of ?fid] h by auto
qed

text \<open>
  The cache of open files evicts, and an evicted busy entry is forgotten: with a cache for one
  file, two reads of the same file run at the same time on two handles, and no lock is left.
\<close>

theorem eviction_breaks_exclusivity:
  "let env = disk_demo (lru_of 1); t = TorrentId 0;
       dm0 = push_event (AddTorrent t two_files) (with_capacity []);
       dm1 = fst (snd (the (the (dm_poll env 1 dm0 []))));
       dm2 = push_event (AddTorrent t two_files) (read_block t (BlockMetadata_new 0 0 1)
               (read_block t (BlockMetadata_new 1 0 4) (read_block t (BlockMetadata_new 0 0 1) dm1)));
       dm3 = fst (snd (the (the (dm_poll env 1 dm2 []))))
   in count (held_files dm3) (TorrentFileId_new t (FileId 0)) = 2"
  by (simp add: push_event_def with_capacity_def dm_torrent_def two_files_def poll_create_block_read_def read_block_def
      poll_files_def lru_of_def Block_new_def BlockMetadata_new_def demo_defs Let_def held_files_def relative_file_path_def
      path_join_def BlockFileRead_new_def BlockFile_new_def)

text \<open>
  C12. A verified block that lies in one file and is queued on an idle manager is written and
  reported, and reading it afterwards returns exactly the same block, when the file system
  answers each access at once and in full. Two rounds of the outer loop are enough for each of
  the two polls; the manager is idle again after each, with the same torrents.
\<close>

theorem disk_roundtrip:
  assumes "fs_laws (de_fs env) bytes pos" and "lru_laws (de_lru env) look cap"
    and "TorrentFile_new (de_checks env) tid mi = Some t" and "dm_torrent dm tid = Some t"
    and "dm_active_blocks dm = []" and "dm_queued_events dm = []"
    and "files_for_block (de_checks env) t m = Some (Inr [(entry, win)])"
    and "length data = fw_length win" and "data \<noteq> []"
    and "is_good_piece (de_sha1 env) t (Block_new m data)"
    and "available env look (dm_file_cache dm) entry w f w1"
    and "prompt_write (de_fs env) f (fw_offset win) data w1 f2 w2"
    and "prompt_read (de_fs env) f2 (fw_offset win) (length data) w2 f3 w3"
  shows "\<exists>dm1 dm2.
    dm_poll env (Suc (Suc n)) (write_block tid (Block_new m data) dm) w
      = Some (Some (poll.Ready (PieceWritten tid (Block_new m data)), dm1, w2)) \<and>
    dm_active_blocks dm1 = [] \<and> dm_queued_events dm1 = [] \<and> dm_torrents dm1 = dm_torrents dm \<and>
    dm_poll env (Suc (Suc n)) (read_block tid m dm1) w2
      = Some (Some (poll.Ready (BlockRead tid (Block_new m data)), dm2, w3)) \<and>
    dm_active_blocks dm2 = [] \<and> dm_queued_events dm2 = [] \<and> dm_torrents dm2 = dm_torrents dm"
proof -
  note new = TorrentFile_new_entries [OF assms(3)]
  from files_for_block_entries [OF assms(7)] new have tid: "tf_torrent (fe_id entry) = tid" by auto
  let ?b = "Block_new m data"
  have "\<exists>c. dm_poll env (Suc (Suc n)) (write_block tid ?b dm) w = Some (Some (poll.Ready (PieceWritten tid ?b),
      (write_block tid ?b dm)\<lparr>dm_queued_events := [], dm_file_cache := c\<rparr>, w2)) \<and>
      look c (fe_id entry) = Some (FileReady f2)"
    unfolding tid [symmetric]
    by (rule poll_write_single [where t = t and win = win and f = f and ?w1.0 = w1])
      (use assms tid in \<open>simp_all add: write_block_def push_event_def dm_torrent_def Block_new_def\<close>)
  then obtain c where c: "dm_poll env (Suc (Suc n)) (write_block tid ?b dm) w = Some (Some (poll.Ready (PieceWritten tid ?b),
      (write_block tid ?b dm)\<lparr>dm_queued_events := [], dm_file_cache := c\<rparr>, w2))"
    "look c (fe_id entry) = Some (FileReady f2)" by blast
  define dm1 where "dm1 = (write_block tid ?b dm)\<lparr>dm_queued_events := [], dm_file_cache := c\<rparr>"
  have dm1: "dm_active_blocks dm1 = []" "dm_queued_events dm1 = []" "dm_torrents dm1 = dm_torrents dm"
    "dm_file_cache dm1 = c" using assms(5) by (simp_all add: dm1_def write_block_def push_event_def)
  have bytes: "bytes f2 = overwrite (fw_offset win) data (bytes f)" by (rule prompt_write_bytes [OF assms(1,12)])
  have len: "fw_offset win + fw_length win \<le> length (bytes f2)"
    using assms(8,9) by (simp add: bytes overwrite_def)
  have blk: "take (fw_length win) (drop (fw_offset win) (bytes f2)) = data"
    unfolding bytes assms(8) [symmetric] by (rule overwrite_window)
  have "\<exists>c'. dm_poll env (Suc (Suc n)) (read_block tid m dm1) w2 = Some (Some (poll.Ready (BlockRead (tf_torrent (fe_id entry))
      (Block_new m (take (fw_length win) (drop (fw_offset win) (bytes f2))))),
      (read_block tid m dm1)\<lparr>dm_queued_events := [], dm_file_cache := c'\<rparr>, w3)) \<and> look c' (fe_id entry) = Some (FileReady f3)"
    by (rule poll_read_single [where t = t and f = f2 and win = win and ?w1.0 = w2])
      (use assms dm1 c len in \<open>simp_all add: read_block_def push_event_def dm_torrent_def available_def\<close>)
  then obtain c' where "dm_poll env (Suc (Suc n)) (read_block tid m dm1) w2 = Some (Some (poll.Ready (BlockRead tid ?b),
      (read_block tid m dm1)\<lparr>dm_queued_events := [], dm_file_cache := c'\<rparr>, w3))" unfolding tid blk by blast
  with c(1) dm1 show ?thesis
    by (intro exI [of _ dm1] exI) (auto simp: dm1_def [symmetric] read_block_def push_event_def simp del: dm_poll.simps)
qed

theorem disk_roundtrip_witness:
  "\<exists>dm1 dm2.
    dm_poll (disk_demo (lru_of 100)) 2 (write_block (TorrentId 0) (Block_new (BlockMetadata_new 1 0 2) [3, 4])
        \<lparr>dm_active_blocks = [], dm_file_cache = [], dm_torrents = [the (TorrentFile_new False (TorrentId 0) one_file)],
         dm_queued_events = []\<rparr>) [9, 2]
      = Some (Some (poll.Ready (PieceWritten (TorrentId 0) (Block_new (BlockMetadata_new 1 0 2) [3, 4])), dm1, [2])) \<and>
    dm_poll (disk_demo (lru_of 100)) 2 (read_block (TorrentId 0) (BlockMetadata_new 1 0 2) dm1) [2]
      = Some (Some (poll.Ready (BlockRead (TorrentId 0) (Block_new (BlockMetadata_new 1 0 2) [3, 4])), dm2, []))"
proof -
  let ?entry = "\<lparr>fe_path = [[99]], fe_id = TorrentFileId_new (TorrentId 0) (FileId 0), fe_offset = 0, fe_size = 4\<rparr>"
  let ?t = "\<lparr>tfl_id = TorrentId 0, tfl_meta_info = one_file, tfl_files = [?entry]\<rparr>"
  let ?dm = "\<lparr>dm_active_blocks = [] :: MemFile BlockJob list,
         dm_file_cache = ([] :: (TorrentFileId \<times> MemFile FileState) list), dm_torrents = [the (TorrentFile_new False (TorrentId 0) one_file)],
         dm_queued_events = []\<rparr>"
  let ?env = "disk_demo (lru_of 100)" and ?m = "BlockMetadata_new 1 0 2"
  have "\<exists>dm1 dm2.
    dm_poll ?env (Suc (Suc 0)) (write_block (TorrentId 0) (Block_new ?m [3, 4]) ?dm) [9, 2]
      = Some (Some (poll.Ready (PieceWritten (TorrentId 0) (Block_new ?m [3, 4])), dm1, [2])) \<and>
    dm_active_blocks dm1 = [] \<and> dm_queued_events dm1 = [] \<and> dm_torrents dm1 = dm_torrents ?dm \<and>
    dm_poll ?env (Suc (Suc 0)) (read_block (TorrentId 0) ?m dm1) [2]
      = Some (Some (poll.Ready (BlockRead (TorrentId 0) (Block_new ?m [3, 4])), dm2, [])) \<and>
    dm_active_blocks dm2 = [] \<and> dm_queued_events dm2 = [] \<and> dm_torrents dm2 = dm_torrents ?dm"
  proof (rule disk_roundtrip [where env = ?env and tid = "TorrentId 0" and m = ?m and data = "[3, 4]" and dm = ?dm and n = 0 and t = ?t and look = map_of and cap = 100 and bytes = mf_bytes and pos = mf_pos and mi = one_file
        and entry = ?entry and win = "FileWindow_new 2 2" and f = "\<lparr>mf_bytes = [], mf_pos = 0\<rparr>" and ?w1.0 = "[9, 2]"
        and ?f2.0 = "\<lparr>mf_bytes = [0, 0, 3, 4], mf_pos = 4\<rparr>" and ?f3.0 = "\<lparr>mf_bytes = [0, 0, 3, 4], mf_pos = 4\<rparr>"])
    show "fs_laws (de_fs ?env) mf_bytes mf_pos" by (simp add: disk_demo_def mem_fs_laws)
    show "lru_laws (de_lru ?env) map_of 100" by (simp add: disk_demo_def lru_of_laws)
    show "prompt_write (de_fs ?env) \<lparr>mf_bytes = [], mf_pos = 0\<rparr> (fw_offset (FileWindow_new 2 2)) [3, 4] [9, 2]
        \<lparr>mf_bytes = [0, 0, 3, 4], mf_pos = 4\<rparr> [2]"
      by (simp add: prompt_write_def demo_defs overwrite_def Let_def numeral_2_eq_2)
    show "prompt_read (de_fs ?env) \<lparr>mf_bytes = [0, 0, 3, 4], mf_pos = 4\<rparr> (fw_offset (FileWindow_new 2 2)) (length [3, 4 :: u8]) [2]
        \<lparr>mf_bytes = [0, 0, 3, 4], mf_pos = 4\<rparr> []"
      by (simp add: prompt_read_def demo_defs Let_def)
  qed (simp_all add: one_file_new dm_torrent_def demo_defs is_good_piece_def available_def Block_new_def BlockMetadata_new_def Let_def)
  then show ?thesis unfolding numeral_2_eq_2 by blast
qed

text \<open>
  A poll that returns \<^verbatim>\<open>Pending\<close> leaves no job under way, or it leaves the message whose files
  it waits for in the queue: a poll never returns while only jobs are pending.
\<close>

theorem dm_poll_pending:
  assumes "dm_poll env fuel dm w = Some (Some (Pending, dm', w'))"
  shows "dm_active_blocks dm' = [] \<or> dm_queued_events dm' \<noteq> []"
  using assms
proof (induction fuel arbitrary: dm w)
  case (Suc fuel)
  then show ?case
    by (auto dest!: queue_loop_pending split: option.splits if_splits)
qed simp

theorem dm_poll_pending_witness:
  "dm_poll (disk_demo (lru_of 100)) 1 (with_capacity []) [] = Some (Some (Pending, with_capacity [], []))"
proof -
  have p: "dm_poll (disk_demo (lru_of 100)) 1 (with_capacity []) [] = Some (Some (Pending, with_capacity [], []))"
    by (simp add: with_capacity_def)
  from dm_poll_pending [OF p] p show ?thesis by simp
qed

text \<open>
  The outer loop waits for its jobs by polling them again at once: while the file system
  keeps a lone job pending (every poll of it stays within a set of pending situations), no number
  of rounds makes the manager's poll return.
\<close>

theorem dm_poll_busy_waits:
  assumes "\<forall>(job, w) \<in> S. \<exists>job' w'. BlockJob_poll (de_fs env) job w = Some (Pending, job', w') \<and> (job', w') \<in> S"
    and "dm_active_blocks dm = [job]" and "(job, w) \<in> S" and "dm_queued_events dm = []"
  shows "dm_poll env fuel dm w = None"
  using assms(2-4)
proof (induction fuel arbitrary: dm job w)
  case (Suc fuel)
  from assms(1) Suc.prems(2) obtain job' w' where
    p: "BlockJob_poll (de_fs env) job w = Some (Pending, job', w')" and s: "(job', w') \<in> S" by blast
  from Suc.IH [OF _ s, of "dm\<lparr>dm_active_blocks := [job'], dm_queued_events := []\<rparr>"] p Suc.prems show ?case
    by (simp add: swap_remove_def Let_def)
qed simp

theorem dm_poll_busy_waits_witness:
  "let b = BlockFileWrite_new (BlockFile_new (TorrentFileId_new (TorrentId 0) (FileId 0)) \<lparr>mf_bytes = [], mf_pos = 0\<rparr>)
         [3, 4] (FileWindow_new 2 2);
       dm = (with_capacity [])\<lparr>dm_active_blocks := [Write (WriteSingle (BlockMetadata_new 1 0 2) b)]\<rparr>
   in \<forall>fuel. dm_poll (disk_demo (lru_of 100)) fuel dm [] = None"
proof -
  let ?b = "BlockFileWrite_new (BlockFile_new (TorrentFileId_new (TorrentId 0) (FileId 0)) \<lparr>mf_bytes = [], mf_pos = 0\<rparr>)
         [3, 4] (FileWindow_new 2 2)"
  let ?job = "\<lambda>b. Write (WriteSingle (BlockMetadata_new 1 0 2) b) :: MemFile BlockJob"
  let ?b' = "?b\<lparr>bw_file := BlockFile_new (TorrentFileId_new (TorrentId 0) (FileId 0)) \<lparr>mf_bytes = [], mf_pos = 2\<rparr>, bw_state := Process\<rparr>"
  let ?S = "{(?job ?b, [] :: nat list), (?job ?b', [])}"
  have "\<forall>(job, w) \<in> ?S. \<exists>job' w'. BlockJob_poll (de_fs (disk_demo (lru_of 100))) job w = Some (Pending, job', w') \<and> (job', w') \<in> ?S"
    by (simp add: BlockFileWrite_poll_def BlockFileWrite_new_def BlockFile_new_def write_chunk_def slice_def demo_defs Let_def)
  from dm_poll_busy_waits [OF this, of "(with_capacity [])\<lparr>dm_active_blocks := [?job ?b]\<rparr>" "?job ?b" "[]"]
  show ?thesis by (simp add: with_capacity_def Let_def)
qed

end
