(* ===== verification/ProtocolHandler.thy ===== *)
theory ProtocolHandler
  imports Torrents Codec
begin

text \<open>
  The protocol handler of one connection (\<^verbatim>\<open>src/handler.rs\<close>) and the protocol configuration
  (\<^verbatim>\<open>src/proto/mod.rs\<close>): the substreams with the state each is in, the events of the behaviour,
  and the poll that advances the substreams.

  A substream is a \<^verbatim>\<open>Framed\<close> of the futures_codec crate, used as a sink and a stream of messages:
  a record of the operations that the code calls, on a stream of type \<open>'s\<close> and a world of type
  \<open>'w\<close> that decides how they end. \<^verbatim>\<open>Instant::now()\<close> reads the clock of the world. \<^verbatim>\<open>UniqueConnecId\<close>
  and \<^verbatim>\<open>BitTorrentRequestId\<close> wrap one number; the counter of connections counts fewer than \<open>2^64\<close>
  substreams.
\<close>

section \<open>Data\<close>

fun option_list :: "'a option \<Rightarrow> 'a list" where
  "option_list None = []"
| "option_list (Some x) = [x]"

record BitTorrentProtocolConfig =
  protocol_name :: "u8 list"

type_synonym UniqueConnecId = nat

datatype IoError = UnexpectedEof | OtherIo nat

record ('s, 'w) Framed =
  poll_ready :: "'s \<Rightarrow> 'w \<Rightarrow> (IoError + unit) poll \<times> 's \<times> 'w"
  start_send :: "'s \<Rightarrow> PeerMessage \<Rightarrow> 'w \<Rightarrow> (IoError + unit) \<times> 's \<times> 'w"
  poll_flush :: "'s \<Rightarrow> 'w \<Rightarrow> (IoError + unit) poll \<times> 's \<times> 'w"
  poll_close :: "'s \<Rightarrow> 'w \<Rightarrow> (IoError + unit) poll \<times> 's \<times> 'w"
  poll_next :: "'s \<Rightarrow> 'w \<Rightarrow> ((IoError + PeerMessage) option poll \<times> 's \<times> 'w) panics"
  clock :: "'w \<Rightarrow> Instant"

datatype KeepAlive = Until Instant | Yes | No

datatype UpgrErr = UpgradeTimeout | UpgradeTimer | UpgradeFailed IoError

datatype BitTorrentHandlerTorrentErr =
    Upgrade UpgrErr
  | UnexpectedMessage PeerMessage
  | Io IoError

datatype ('s, 'u) SubstreamState =
    OutPendingOpen PeerMessage "'u option"
  | OutPendingSend 's PeerMessage "'u option"
  | OutPendingFlush 's "'u option"
  | OutWaitingAnswer 's 'u Instant
  | OutReportError BitTorrentHandlerTorrentErr 'u
  | OutClosing 's
  | InWaitingMessage UniqueConnecId 's
  | InWaitingUser UniqueConnecId 's
  | InPendingSend UniqueConnecId 's PeerMessage
  | InPendingFlush UniqueConnecId 's
  | InClosing 's

datatype 'u BitTorrentHandlerIn =
    Disconnect "Instant option"
  | Reset BitTorrentRequestId
  | HandshakeReq Handshake 'u
  | HandshakeRes Handshake BitTorrentRequestId
  | BitfieldReq BitField 'u
  | BitfieldRes BitField BitTorrentRequestId
  | Choke ChokeType
  | Interest InterestType
  | GetPieceReq PeerRequest 'u
  | GetPieceRes Piece BitTorrentRequestId
  | CancelPiece PeerRequest BitTorrentRequestId
  | Have u32
  | KeepAlive

datatype 'u BitTorrentHandlerEvent =
    HandshakeReq Handshake BitTorrentRequestId
  | HandshakeRes Handshake 'u
  | BitfieldReq BitField BitTorrentRequestId
  | BitfieldRes BitField 'u
  | GetPieceReq PeerRequest BitTorrentRequestId
  | GetPieceRes Piece 'u
  | CancelPiece PeerRequest BitTorrentRequestId
  | Choke ChokeType
  | Interest InterestType
  | Have u32
  | TorrentErr BitTorrentHandlerTorrentErr "'u option"
  | KeepAlive Instant

datatype 'u ProtocolsHandlerEvent =
    OutboundSubstreamRequest BitTorrentProtocolConfig "PeerMessage \<times> 'u option"
  | Custom "'u BitTorrentHandlerEvent"

record ('s, 'u) BitTorrentHandler =
  h_config :: BitTorrentProtocolConfig
  h_substreams :: "('s, 'u) SubstreamState list"
  h_keep_alive :: KeepAlive
  h_seed_leech :: SeedLeechConfig
  h_next_connec_unique_id :: UniqueConnecId

section \<open>Construction\<close>

definition BitTorrentProtocolConfig_default :: BitTorrentProtocolConfig where
  "BitTorrentProtocolConfig_default =
     \<lparr>protocol_name = [47, 98, 105, 116, 116, 111, 114, 114, 101, 110, 116, 47, 49, 46, 48, 46, 48]\<rparr>"

definition with_protocol_name :: "BitTorrentProtocolConfig \<Rightarrow> u8 list \<Rightarrow> BitTorrentProtocolConfig" where
  "with_protocol_name config name = config\<lparr>protocol_name := name\<rparr>"

definition protocol_info :: "BitTorrentProtocolConfig \<Rightarrow> u8 list list" where
  "protocol_info config = [protocol_name config]"

definition with_seed_leech_config :: "SeedLeechConfig \<Rightarrow> ('s, 'u) BitTorrentHandler" where
  "with_seed_leech_config seed_leech =
     \<lparr>h_config = BitTorrentProtocolConfig_default, h_substreams = [], h_keep_alive = Yes,
      h_seed_leech = SeedAndLeech, h_next_connec_unique_id = 0\<rparr>"

definition leech_only :: "('s, 'u) BitTorrentHandler" where
  "leech_only = with_seed_leech_config LeechOnly"

definition seed_only :: "('s, 'u) BitTorrentHandler" where
  "seed_only = with_seed_leech_config SeedOnly"

definition seed_and_leech :: "('s, 'u) BitTorrentHandler" where
  "seed_and_leech = with_seed_leech_config SeedAndLeech"

definition listen_protocol :: "('s, 'u) BitTorrentHandler \<Rightarrow> BitTorrentProtocolConfig" where
  "listen_protocol h = h_config h"

section \<open>Substreams\<close>

fun try_close :: "('s, 'w) Framed \<Rightarrow> ('s, 'u) SubstreamState \<Rightarrow> 'w \<Rightarrow> unit poll \<times> 'w" where
  "try_close io (OutPendingOpen _ _) w = (poll.Ready (), w)"
| "try_close io (OutReportError _ _) w = (poll.Ready (), w)"
| "try_close io (OutPendingSend s _ _) w = (case poll_close io s w of (r, s', w') \<Rightarrow> (map_poll (\<lambda>_. ()) r, w'))"
| "try_close io (OutPendingFlush s _) w = (case poll_close io s w of (r, s', w') \<Rightarrow> (map_poll (\<lambda>_. ()) r, w'))"
| "try_close io (OutWaitingAnswer s _ _) w = (case poll_close io s w of (r, s', w') \<Rightarrow> (map_poll (\<lambda>_. ()) r, w'))"
| "try_close io (OutClosing s) w = (case poll_close io s w of (r, s', w') \<Rightarrow> (map_poll (\<lambda>_. ()) r, w'))"
| "try_close io (InWaitingMessage _ s) w = (case poll_close io s w of (r, s', w') \<Rightarrow> (map_poll (\<lambda>_. ()) r, w'))"
| "try_close io (InWaitingUser _ s) w = (case poll_close io s w of (r, s', w') \<Rightarrow> (map_poll (\<lambda>_. ()) r, w'))"
| "try_close io (InPendingSend _ s _) w = (case poll_close io s w of (r, s', w') \<Rightarrow> (map_poll (\<lambda>_. ()) r, w'))"
| "try_close io (InPendingFlush _ s) w = (case poll_close io s w of (r, s', w') \<Rightarrow> (map_poll (\<lambda>_. ()) r, w'))"
| "try_close io (InClosing s) w = (case poll_close io s w of (r, s', w') \<Rightarrow> (map_poll (\<lambda>_. ()) r, w'))"

fun process_btt_in :: "PeerMessage \<Rightarrow> UniqueConnecId \<Rightarrow> Instant \<Rightarrow> 'u BitTorrentHandlerEvent panics" where
  "process_btt_in (PeerMessage.Handshake handshake) cid now = Some (BitTorrentHandlerEvent.HandshakeReq handshake cid)"
| "process_btt_in (PeerMessage.Bitfield index_field) cid now = Some (BitTorrentHandlerEvent.BitfieldReq index_field cid)"
| "process_btt_in PeerMessage.KeepAlive cid now = Some (BitTorrentHandlerEvent.KeepAlive now)"
| "process_btt_in PeerMessage.Choke cid now = Some (BitTorrentHandlerEvent.Choke Choked)"
| "process_btt_in PeerMessage.UnChoke cid now = Some (BitTorrentHandlerEvent.Choke UnChoked)"
| "process_btt_in PeerMessage.Interested cid now = Some (BitTorrentHandlerEvent.Interest InterestType.Interested)"
| "process_btt_in PeerMessage.NotInterested cid now = Some (BitTorrentHandlerEvent.Interest InterestType.NotInterested)"
| "process_btt_in (PeerMessage.Have index) cid now = Some (BitTorrentHandlerEvent.Have index)"
| "process_btt_in (PeerMessage.Request request) cid now = Some (BitTorrentHandlerEvent.GetPieceReq request cid)"
| "process_btt_in (PeerMessage.Cancel request) cid now = Some (BitTorrentHandlerEvent.CancelPiece request cid)"
| "process_btt_in (PeerMessage.Piece piece) cid now = Some (TorrentErr (UnexpectedMessage (PeerMessage.Piece piece)) None)"
| "process_btt_in (PeerMessage.Port port) cid now = None"

fun process_btt_out :: "PeerMessage \<Rightarrow> 'u \<Rightarrow> 'u BitTorrentHandlerEvent panics" where
  "process_btt_out (PeerMessage.Bitfield index_field) user_data = Some (BitTorrentHandlerEvent.BitfieldRes index_field user_data)"
| "process_btt_out (PeerMessage.Piece piece) user_data = Some (BitTorrentHandlerEvent.GetPieceRes piece user_data)"
| "process_btt_out (PeerMessage.Handshake handshake) user_data = Some (BitTorrentHandlerEvent.HandshakeRes handshake user_data)"
| "process_btt_out (PeerMessage.Port port) user_data = None"
| "process_btt_out msg user_data = Some (TorrentErr (UnexpectedMessage msg) (Some user_data))"

text \<open>The event for an error on an outgoing substream: only a request with user data is reported.\<close>

definition out_error :: "IoError \<Rightarrow> 'u option \<Rightarrow> 'u ProtocolsHandlerEvent option" where
  "out_error e user_data = map_option (\<lambda>u. Custom (TorrentErr (Io e) (Some u))) user_data"

definition advance_out_send ::
  "('s, 'w) Framed \<Rightarrow> 's \<Rightarrow> PeerMessage \<Rightarrow> 'u option \<Rightarrow> 'w
    \<Rightarrow> (('s, 'u) SubstreamState option \<times> 'u ProtocolsHandlerEvent option \<times> bool \<times> 'w) panics" where
  [simp]: "advance_out_send io s msg user_data w =
     (case poll_ready io s w of
        (poll.Ready (Inr _), s1, w1) \<Rightarrow>
          (case start_send io s1 msg w1 of
             (Inr _, s2, w2) \<Rightarrow> Some (Some (OutPendingFlush s2 user_data), None, True, w2)
           | (Inl e, s2, w2) \<Rightarrow> Some (None, out_error e user_data, False, w2))
      | (Pending, s1, w1) \<Rightarrow> Some (Some (OutPendingSend s1 msg user_data), None, False, w1)
      | (poll.Ready (Inl e), s1, w1) \<Rightarrow> Some (None, out_error e user_data, False, w1))"

definition advance_out_flush ::
  "('s, 'w) Framed \<Rightarrow> 's \<Rightarrow> 'u option \<Rightarrow> 'w
    \<Rightarrow> (('s, 'u) SubstreamState option \<times> 'u ProtocolsHandlerEvent option \<times> bool \<times> 'w) panics" where
  [simp]: "advance_out_flush io s user_data w =
     (case poll_flush io s w of
        (poll.Ready (Inr _), s1, w1) \<Rightarrow>
          (case user_data of
             Some u \<Rightarrow> Some (Some (OutWaitingAnswer s1 u (clock io w1)), None, True, w1)
           | None \<Rightarrow> Some (Some (OutClosing s1), None, True, w1))
      | (Pending, s1, w1) \<Rightarrow> Some (Some (OutPendingFlush s1 user_data), None, False, w1)
      | (poll.Ready (Inl e), s1, w1) \<Rightarrow> Some (None, out_error e user_data, False, w1))"

definition advance_out_answer ::
  "('s, 'w) Framed \<Rightarrow> 's \<Rightarrow> 'u \<Rightarrow> Instant \<Rightarrow> 'w
    \<Rightarrow> (('s, 'u) SubstreamState option \<times> 'u ProtocolsHandlerEvent option \<times> bool \<times> 'w) panics" where
  [simp]: "advance_out_answer io s user_data instant w =
     (case poll_next io s w of
        None \<Rightarrow> None
      | Some (poll.Ready (Some (Inr msg)), s1, w1) \<Rightarrow> do {
          event \<leftarrow> process_btt_out msg user_data;
          Some (Some (OutClosing s1), Some (Custom event), True, w1)
        }
      | Some (Pending, s1, w1) \<Rightarrow> Some (Some (OutWaitingAnswer s1 user_data instant), None, False, w1)
      | Some (poll.Ready (Some (Inl e)), s1, w1) \<Rightarrow>
          Some (None, Some (Custom (TorrentErr (Io e) (Some user_data))), False, w1)
      | Some (poll.Ready None, s1, w1) \<Rightarrow>
          Some (None, Some (Custom (TorrentErr (Io UnexpectedEof) (Some user_data))), False, w1))"

definition advance_out_closing ::
  "('s, 'w) Framed \<Rightarrow> 's \<Rightarrow> 'w
    \<Rightarrow> (('s, 'u) SubstreamState option \<times> 'u ProtocolsHandlerEvent option \<times> bool \<times> 'w) panics" where
  [simp]: "advance_out_closing io s w =
     (case poll_close io s w of
        (poll.Ready _, s1, w1) \<Rightarrow> Some (None, None, False, w1)
      | (Pending, s1, w1) \<Rightarrow> Some (Some (OutClosing s1), None, False, w1))"

definition advance_in_message ::
  "('s, 'w) Framed \<Rightarrow> UniqueConnecId \<Rightarrow> 's \<Rightarrow> 'w
    \<Rightarrow> (('s, 'u) SubstreamState option \<times> 'u ProtocolsHandlerEvent option \<times> bool \<times> 'w) panics" where
  [simp]: "advance_in_message io cid s w =
     (case poll_next io s w of
        None \<Rightarrow> None
      | Some (poll.Ready (Some (Inr msg)), s1, w1) \<Rightarrow> do {
          event \<leftarrow> process_btt_in msg cid (clock io w1);
          Some (Some (InWaitingUser cid s1), Some (Custom event), False, w1)
        }
      | Some (Pending, s1, w1) \<Rightarrow> Some (Some (InWaitingMessage cid s1), None, False, w1)
      | Some (poll.Ready _, s1, w1) \<Rightarrow> Some (None, None, False, w1))"

definition advance_in_send ::
  "('s, 'w) Framed \<Rightarrow> UniqueConnecId \<Rightarrow> 's \<Rightarrow> PeerMessage \<Rightarrow> 'w
    \<Rightarrow> (('s, 'u) SubstreamState option \<times> 'u ProtocolsHandlerEvent option \<times> bool \<times> 'w) panics" where
  [simp]: "advance_in_send io cid s msg w =
     (case poll_ready io s w of
        (poll.Ready (Inr _), s1, w1) \<Rightarrow>
          (case start_send io s1 msg w1 of
             (Inr _, s2, w2) \<Rightarrow> Some (Some (InPendingFlush cid s2), None, True, w2)
           | (Inl _, s2, w2) \<Rightarrow> Some (None, None, False, w2))
      | (Pending, s1, w1) \<Rightarrow> Some (Some (InPendingSend cid s1 msg), None, False, w1)
      | (poll.Ready (Inl _), s1, w1) \<Rightarrow> Some (None, None, False, w1))"

definition advance_in_flush ::
  "('s, 'w) Framed \<Rightarrow> UniqueConnecId \<Rightarrow> 's \<Rightarrow> 'w
    \<Rightarrow> (('s, 'u) SubstreamState option \<times> 'u ProtocolsHandlerEvent option \<times> bool \<times> 'w) panics" where
  [simp]: "advance_in_flush io cid s w =
     (case poll_flush io s w of
        (poll.Ready (Inr _), s1, w1) \<Rightarrow> Some (Some (InWaitingMessage cid s1), None, True, w1)
      | (Pending, s1, w1) \<Rightarrow> Some (Some (InPendingFlush cid s1), None, False, w1)
      | (poll.Ready (Inl _), s1, w1) \<Rightarrow> Some (None, None, False, w1))"

definition advance_in_closing ::
  "('s, 'w) Framed \<Rightarrow> 's \<Rightarrow> 'w
    \<Rightarrow> (('s, 'u) SubstreamState option \<times> 'u ProtocolsHandlerEvent option \<times> bool \<times> 'w) panics" where
  [simp]: "advance_in_closing io s w =
     (case poll_close io s w of
        (poll.Ready _, s1, w1) \<Rightarrow> Some (None, None, False, w1)
      | (Pending, s1, w1) \<Rightarrow> Some (Some (InClosing s1), None, False, w1))"

fun advance_substream ::
  "('s, 'w) Framed \<Rightarrow> BitTorrentProtocolConfig \<Rightarrow> ('s, 'u) SubstreamState \<Rightarrow> 'w
    \<Rightarrow> (('s, 'u) SubstreamState option \<times> 'u ProtocolsHandlerEvent option \<times> bool \<times> 'w) panics" where
  "advance_substream io upgrade (OutPendingOpen msg user_data) w =
     Some (None, Some (OutboundSubstreamRequest upgrade (msg, user_data)), False, w)"
| "advance_substream io upgrade (OutPendingSend s msg user_data) w = advance_out_send io s msg user_data w"
| "advance_substream io upgrade (OutPendingFlush s user_data) w = advance_out_flush io s user_data w"
| "advance_substream io upgrade (OutWaitingAnswer s user_data instant) w = advance_out_answer io s user_data instant w"
| "advance_substream io upgrade (OutReportError e user_data) w =
     Some (None, Some (Custom (TorrentErr e (Some user_data))), False, w)"
| "advance_substream io upgrade (OutClosing s) w = advance_out_closing io s w"
| "advance_substream io upgrade (InWaitingMessage cid s) w = advance_in_message io cid s w"
| "advance_substream io upgrade (InWaitingUser cid s) w = Some (Some (InWaitingUser cid s), None, False, w)"
| "advance_substream io upgrade (InPendingSend cid s msg) w = advance_in_send io cid s msg w"
| "advance_substream io upgrade (InPendingFlush cid s) w = advance_in_flush io cid s w"
| "advance_substream io upgrade (InClosing s) w = advance_in_closing io s w"

text \<open>How many more times a substream can be advanced in one poll: the measure of the inner loop.\<close>

fun steps_left :: "('s, 'u) SubstreamState \<Rightarrow> nat" where
  "steps_left (OutPendingSend _ _ _) = 2"
| "steps_left (OutPendingFlush _ _) = 1"
| "steps_left (InPendingSend _ _ _) = 2"
| "steps_left (InPendingFlush _ _) = 1"
| "steps_left _ = 0"

lemma advance_steps:
  "advance_substream io cfg s w = Some (Some s', None, True, w') \<Longrightarrow> steps_left s' < steps_left s"
  by (cases s; simp split: prod.split_asm poll.split_asm sum.split_asm option.split_asm unit.split_asm
      Option.bind_split_asm) auto

function advance_loop ::
  "('s, 'w) Framed \<Rightarrow> BitTorrentProtocolConfig \<Rightarrow> ('s, 'u) SubstreamState \<Rightarrow> 'w
    \<Rightarrow> (('s, 'u) SubstreamState option \<times> 'u ProtocolsHandlerEvent option \<times> 'w) panics" where
  "advance_loop io cfg s w =
     (case advance_substream io cfg s w of
        None \<Rightarrow> None
      | Some (Some s', None, True, w') \<Rightarrow> advance_loop io cfg s' w'
      | Some (s', ev, _, w') \<Rightarrow> Some (s', ev, w'))"
  by pat_completeness auto
termination
  by (relation "measure (\<lambda>(io, cfg, s, w). steps_left s)") (auto dest: advance_steps)

text \<open>
  \<^verbatim>\<open>for n in (0..len).rev()\<close>: the substream at the index is swapped out, advanced, and pushed back
  unless it ended; an event ends the poll.
\<close>

fun substream_loop ::
  "('s, 'w) Framed \<Rightarrow> nat \<Rightarrow> ('s, 'u) BitTorrentHandler \<Rightarrow> 'w
    \<Rightarrow> ('u ProtocolsHandlerEvent option \<times> ('s, 'u) BitTorrentHandler \<times> 'w) panics" where
  "substream_loop io 0 h w = Some (None, h, w)"
| "substream_loop io (Suc n) h w = do {
     let substream = h_substreams h ! n;
     let rest = swap_remove n (h_substreams h);
     (new_state, event, w1) \<leftarrow> advance_loop io (h_config h) substream w;
     let h1 = h\<lparr>h_substreams := rest @ (case new_state of Some st \<Rightarrow> [st] | None \<Rightarrow> [])\<rparr>;
     (case event of
        Some ev \<Rightarrow> Some (Some ev, h1, w1)
      | None \<Rightarrow> substream_loop io n h1 w1)
   }"

definition handler_poll ::
  "('s, 'w) Framed \<Rightarrow> ('s, 'u) BitTorrentHandler \<Rightarrow> 'w
    \<Rightarrow> ('u ProtocolsHandlerEvent poll \<times> ('s, 'u) BitTorrentHandler \<times> 'w) panics" where
  "handler_poll io h w = do {
     (event, h1, w1) \<leftarrow> substream_loop io (length (h_substreams h)) h w;
     Some (case event of
        Some ev \<Rightarrow> (poll.Ready ev, h1, w1)
      | None \<Rightarrow>
          (Pending,
           h1\<lparr>h_keep_alive := (if h_substreams h1 = [] then Until (clock io w1 + 20 * 10 ^ 9) else Yes)\<rparr>, w1))
   }"

section \<open>Events of the connection and of the behaviour\<close>

definition push_substream :: "('s, 'u) SubstreamState \<Rightarrow> ('s, 'u) BitTorrentHandler \<Rightarrow> ('s, 'u) BitTorrentHandler" where
  "push_substream st h = h\<lparr>h_substreams := h_substreams h @ [st]\<rparr>"

definition inject_fully_negotiated_inbound ::
  "'s \<Rightarrow> ('s, 'u) BitTorrentHandler \<Rightarrow> ('s, 'u) BitTorrentHandler" where
  "inject_fully_negotiated_inbound protocol h =
     push_substream (InWaitingMessage (h_next_connec_unique_id h) protocol)
       (h\<lparr>h_next_connec_unique_id := h_next_connec_unique_id h + 1\<rparr>)"

definition inject_fully_negotiated_outbound ::
  "'s \<Rightarrow> PeerMessage \<times> 'u option \<Rightarrow> ('s, 'u) BitTorrentHandler \<Rightarrow> ('s, 'u) BitTorrentHandler" where
  "inject_fully_negotiated_outbound protocol info h =
     (case info of (msg, user_data) \<Rightarrow> push_substream (OutPendingSend protocol msg user_data) h)"

definition inject_dial_upgrade_error ::
  "PeerMessage \<times> 'u option \<Rightarrow> UpgrErr \<Rightarrow> ('s, 'u) BitTorrentHandler \<Rightarrow> ('s, 'u) BitTorrentHandler" where
  "inject_dial_upgrade_error info e h =
     (case snd info of
        Some user_data \<Rightarrow> push_substream (OutReportError (Upgrade e) user_data) h
      | None \<Rightarrow> h)"

definition connection_keep_alive :: "('s, 'u) BitTorrentHandler \<Rightarrow> KeepAlive" where
  "connection_keep_alive h = h_keep_alive h"

fun waits_for :: "BitTorrentRequestId \<Rightarrow> ('s, 'u) SubstreamState \<Rightarrow> bool" where
  "waits_for request_id (InWaitingUser conn_id _) \<longleftrightarrow> conn_id = request_id"
| "waits_for request_id _ \<longleftrightarrow> False"

text \<open>The substream of a request gets its answer; \<^verbatim>\<open>unreachable!()\<close> is the panic.\<close>

definition answer ::
  "BitTorrentRequestId \<Rightarrow> PeerMessage \<Rightarrow> ('s, 'u) BitTorrentHandler \<Rightarrow> ('s, 'u) BitTorrentHandler panics" where
  "answer request_id msg h =
     (case position (waits_for request_id) (h_substreams h) of
        Some pos \<Rightarrow>
          (case h_substreams h ! pos of
             InWaitingUser conn_id substream \<Rightarrow>
               Some (push_substream (InPendingSend conn_id substream msg)
                 (h\<lparr>h_substreams := vec_remove pos (h_substreams h)\<rparr>))
           | _ \<Rightarrow> None)
      | None \<Rightarrow> Some h)"

text \<open>The substream of a request is dropped after one attempt to close it, if there is one.\<close>

definition drop_waiting ::
  "('s, 'w) Framed \<Rightarrow> BitTorrentRequestId \<Rightarrow> ('s, 'u) BitTorrentHandler \<Rightarrow> 'w
    \<Rightarrow> (('s, 'u) BitTorrentHandler \<times> 'w) option" where
  "drop_waiting io request_id h w =
     map_option (\<lambda>pos.
        (h\<lparr>h_substreams := vec_remove pos (h_substreams h)\<rparr>,
         snd (try_close io (h_substreams h ! pos) w)))
       (position (waits_for request_id) (h_substreams h))"

fun inject_event ::
  "('s, 'w) Framed \<Rightarrow> 'u BitTorrentHandlerIn \<Rightarrow> ('s, 'u) BitTorrentHandler \<Rightarrow> 'w
    \<Rightarrow> (('s, 'u) BitTorrentHandler \<times> 'w) panics" where
  "inject_event io (Disconnect timeout) h w =
     Some (h\<lparr>h_keep_alive := (case timeout of Some t \<Rightarrow> Until t | None \<Rightarrow> No)\<rparr>, w)"
| "inject_event io (Reset request_id) h w =
     Some (case drop_waiting io request_id h w of Some r \<Rightarrow> r | None \<Rightarrow> (h, w))"
| "inject_event io (BitTorrentHandlerIn.HandshakeReq handshake user_data) h w =
     Some (push_substream (OutPendingOpen (PeerMessage.Handshake handshake) (Some user_data)) h, w)"
| "inject_event io (BitTorrentHandlerIn.BitfieldReq index_field user_data) h w =
     Some (push_substream (OutPendingOpen (PeerMessage.Bitfield index_field) (Some user_data)) h, w)"
| "inject_event io (BitTorrentHandlerIn.Choke inner) h w =
     Some (push_substream (OutPendingOpen
       (case inner of Choked \<Rightarrow> PeerMessage.Choke | UnChoked \<Rightarrow> PeerMessage.UnChoke) None) h, w)"
| "inject_event io (BitTorrentHandlerIn.Interest inner) h w =
     Some (push_substream (OutPendingOpen
       (case inner of InterestType.Interested \<Rightarrow> PeerMessage.Interested
        | InterestType.NotInterested \<Rightarrow> PeerMessage.NotInterested) None) h, w)"
| "inject_event io (BitTorrentHandlerIn.GetPieceReq request user_data) h w =
     Some (push_substream (OutPendingOpen (PeerMessage.Request request) (Some user_data)) h, w)"
| "inject_event io (BitTorrentHandlerIn.GetPieceRes piece request_id) h w =
     map_option (\<lambda>h'. (h', w)) (answer request_id (PeerMessage.Piece piece) h)"
| "inject_event io (BitTorrentHandlerIn.CancelPiece request request_id) h w =
     Some (case drop_waiting io request_id h w of
        Some r \<Rightarrow> r
      | None \<Rightarrow> (push_substream (OutPendingOpen (PeerMessage.Cancel request) None) h, w))"
| "inject_event io (BitTorrentHandlerIn.Have index) h w =
     Some (push_substream (OutPendingOpen (PeerMessage.Have index) None) h, w)"
| "inject_event io BitTorrentHandlerIn.KeepAlive h w =
     Some (push_substream (OutPendingOpen PeerMessage.KeepAlive None) h, w)"
| "inject_event io (BitTorrentHandlerIn.HandshakeRes handshake request_id) h w =
     map_option (\<lambda>h'. (h', w)) (answer request_id (PeerMessage.Handshake handshake) h)"
| "inject_event io (BitTorrentHandlerIn.BitfieldRes index_field request_id) h w =
     map_option (\<lambda>h'. (h', w)) (answer request_id (PeerMessage.Bitfield index_field) h)"

section \<open>Specification\<close>

text \<open>The requests of the behaviour, named by their user data, that a substream still has to answer.\<close>

fun state_data :: "('s, 'u) SubstreamState \<Rightarrow> 'u multiset" where
  "state_data (OutPendingOpen _ u) = mset (option_list u)"
| "state_data (OutPendingSend _ _ u) = mset (option_list u)"
| "state_data (OutPendingFlush _ u) = mset (option_list u)"
| "state_data (OutWaitingAnswer _ u _) = {#u#}"
| "state_data (OutReportError _ u) = {#u#}"
| "state_data _ = {#}"

definition total :: "(('s, 'u) SubstreamState \<Rightarrow> 'b multiset) \<Rightarrow> ('s, 'u) BitTorrentHandler \<Rightarrow> 'b multiset" where
  "total m h = (\<Sum>st\<in>#mset (h_substreams h). m st)"

definition pending_data :: "('s, 'u) BitTorrentHandler \<Rightarrow> 'u multiset" where
  "pending_data h = total state_data h"

text \<open>What an event of the behaviour asks for, and what an event of the handler reports or opens.\<close>

fun asked :: "'u BitTorrentHandlerIn \<Rightarrow> 'u multiset" where
  "asked (BitTorrentHandlerIn.HandshakeReq _ u) = {#u#}"
| "asked (BitTorrentHandlerIn.BitfieldReq _ u) = {#u#}"
| "asked (BitTorrentHandlerIn.GetPieceReq _ u) = {#u#}"
| "asked _ = {#}"

fun reported :: "'u ProtocolsHandlerEvent \<Rightarrow> 'u multiset" where
  "reported (Custom (BitTorrentHandlerEvent.HandshakeRes _ u)) = {#u#}"
| "reported (Custom (BitTorrentHandlerEvent.BitfieldRes _ u)) = {#u#}"
| "reported (Custom (BitTorrentHandlerEvent.GetPieceRes _ u)) = {#u#}"
| "reported (Custom (TorrentErr _ u)) = mset (option_list u)"
| "reported _ = {#}"

fun to_open :: "'u ProtocolsHandlerEvent \<Rightarrow> 'u multiset" where
  "to_open (OutboundSubstreamRequest _ info) = mset (option_list (snd info))"
| "to_open _ = {#}"

text \<open>
  The runs of a handler, with the requests asked for so far, those whose substream is being
  opened, and those reported back. A substream that is opened or fails to open is one of those
  asked for.
\<close>

inductive handler_run ::
  "('s, 'w) Framed \<Rightarrow> ('s, 'u) BitTorrentHandler \<Rightarrow> 'u multiset \<Rightarrow> 'u multiset \<Rightarrow> 'u multiset \<Rightarrow> bool"
  for io where
  run_start: "handler_run io (with_seed_leech_config cfg) {#} {#} {#}"
| run_event: "handler_run io h A O' R \<Longrightarrow> inject_event io ev h w = Some (h', w') \<Longrightarrow>
    handler_run io h' (A + asked ev) O' R"
| run_inbound: "handler_run io h A O' R \<Longrightarrow> handler_run io (inject_fully_negotiated_inbound s h) A O' R"
| run_outbound: "handler_run io h A (O' + mset (option_list u)) R \<Longrightarrow>
    handler_run io (inject_fully_negotiated_outbound s (msg, u) h) A O' R"
| run_dial_error: "handler_run io h A (O' + mset (option_list u)) R \<Longrightarrow>
    handler_run io (inject_dial_upgrade_error (msg, u) e h) A O' R"
| run_poll: "handler_run io h A O' R \<Longrightarrow> handler_poll io h w = Some (poll.Ready ev, h', w') \<Longrightarrow>
    handler_run io h' A (O' + to_open ev) (R + reported ev)"
| run_idle: "handler_run io h A O' R \<Longrightarrow> handler_poll io h w = Some (Pending, h', w') \<Longrightarrow>
    handler_run io h' A O' R"

text \<open>The identifier of an inbound substream.\<close>

fun inbound_id :: "('s, 'u) SubstreamState \<Rightarrow> UniqueConnecId list" where
  "inbound_id (InWaitingMessage c _) = [c]"
| "inbound_id (InWaitingUser c _) = [c]"
| "inbound_id (InPendingSend c _ _) = [c]"
| "inbound_id (InPendingFlush c _) = [c]"
| "inbound_id _ = []"

definition inbound_ids :: "('s, 'u) BitTorrentHandler \<Rightarrow> UniqueConnecId multiset" where
  "inbound_ids h = total (\<lambda>st. mset (inbound_id st)) h"

definition ids_unique :: "('s, 'u) BitTorrentHandler \<Rightarrow> bool" where
  "ids_unique h \<longleftrightarrow>
     (\<forall>c. count (inbound_ids h) c \<le> 1 \<and> (c \<in># inbound_ids h \<longrightarrow> c < h_next_connec_unique_id h))"

text \<open>The request an event of the behaviour answers or drops.\<close>

fun names_request :: "'u BitTorrentHandlerIn \<Rightarrow> BitTorrentRequestId list" where
  "names_request (Reset r) = [r]"
| "names_request (BitTorrentHandlerIn.GetPieceRes _ r) = [r]"
| "names_request (BitTorrentHandlerIn.HandshakeRes _ r) = [r]"
| "names_request (BitTorrentHandlerIn.BitfieldRes _ r) = [r]"
| "names_request (BitTorrentHandlerIn.CancelPiece _ r) = [r]"
| "names_request _ = []"

text \<open>Steps of a handler in which the behaviour does not name the request \<open>c\<close>.\<close>

inductive unanswered ::
  "('s, 'w) Framed \<Rightarrow> UniqueConnecId \<Rightarrow> ('s, 'u) BitTorrentHandler \<Rightarrow> ('s, 'u) BitTorrentHandler \<Rightarrow> bool"
  for io c h0 where
  un_start: "unanswered io c h0 h0"
| un_event: "unanswered io c h0 h \<Longrightarrow> c \<notin> set (names_request ev) \<Longrightarrow>
    inject_event io ev h w = Some (h', w') \<Longrightarrow> unanswered io c h0 h'"
| un_inbound: "unanswered io c h0 h \<Longrightarrow> unanswered io c h0 (inject_fully_negotiated_inbound s h)"
| un_outbound: "unanswered io c h0 h \<Longrightarrow> unanswered io c h0 (inject_fully_negotiated_outbound s info h)"
| un_dial_error: "unanswered io c h0 h \<Longrightarrow> unanswered io c h0 (inject_dial_upgrade_error info e h)"
| un_poll: "unanswered io c h0 h \<Longrightarrow> handler_poll io h w = Some (res, h', w') \<Longrightarrow> unanswered io c h0 h'"

text \<open>Substreams that are always ready and deliver a given list of messages.\<close>

definition script_io :: "(PeerMessage list, nat) Framed" where
  "script_io =
     \<lparr>poll_ready = (\<lambda>s w. (poll.Ready (Inr ()), s, w)),
      start_send = (\<lambda>s msg w. (Inr (), s, w)),
      poll_flush = (\<lambda>s w. (poll.Ready (Inr ()), s, w)),
      poll_close = (\<lambda>s w. (poll.Ready (Inr ()), s, w)),
      poll_next = (\<lambda>s w. case s of [] \<Rightarrow> Some (Pending, [], w) | msg # s' \<Rightarrow> Some (poll.Ready (Some (Inr msg)), s', w)),
      clock = (\<lambda>w. w)\<rparr>"

text \<open>
  What is used of the framing: \<open>buf s\<close> are the bytes that a substream has received and not yet
  decoded. Writing leaves them alone. Reading calls \<^verbatim>\<open>PeerWireCodec::decode\<close> on them, and again each
  time more bytes have arrived, until it gives a message, fails or panics.
\<close>

definition framed_laws :: "wire_ext \<Rightarrow> ('s \<Rightarrow> u8 list) \<Rightarrow> ('s, 'w) Framed \<Rightarrow> bool" where
  "framed_laws E buf io \<longleftrightarrow>
     (\<forall>s w. buf (fst (snd (poll_ready io s w))) = buf s) \<and>
     (\<forall>s msg w. buf (fst (snd (start_send io s msg w))) = buf s) \<and>
     (\<forall>s w. buf (fst (snd (poll_flush io s w))) = buf s) \<and>
     (\<forall>s w. poll_next io s w = None \<longrightarrow> (\<exists>received. decode E (buf s @ received) = None)) \<and>
     (\<forall>s w msg s' w'. poll_next io s w = Some (poll.Ready (Some (Inr msg)), s', w') \<longrightarrow>
        (\<exists>received rest. decode E (buf s @ received) = Some (Inr (Some msg), rest))) \<and>
     (\<forall>s w. decode E (buf s) = None \<longrightarrow> poll_next io s w = None) \<and>
     (\<forall>s w msg rest. decode E (buf s) = Some (Inr (Some msg), rest) \<longrightarrow>
        (\<exists>s' w'. poll_next io s w = Some (poll.Ready (Some (Inr msg)), s', w')))"

text \<open>Bytes that the handler cannot take: the decoder panics on them, or gives a \<^verbatim>\<open>Port\<close> message.\<close>

definition fatal :: "wire_ext \<Rightarrow> u8 list \<Rightarrow> bool" where
  "fatal E src \<longleftrightarrow> decode E src = None \<or> (\<exists>p rest. decode E src = Some (Inr (Some (PeerMessage.Port p)), rest))"

text \<open>The stream of a substream.\<close>

fun stream_of :: "('s, 'u) SubstreamState \<Rightarrow> 's option" where
  "stream_of (OutPendingOpen _ _) = None"
| "stream_of (OutPendingSend s _ _) = Some s"
| "stream_of (OutPendingFlush s _) = Some s"
| "stream_of (OutWaitingAnswer s _ _) = Some s"
| "stream_of (OutReportError _ _) = None"
| "stream_of (OutClosing s) = Some s"
| "stream_of (InWaitingMessage _ s) = Some s"
| "stream_of (InWaitingUser _ s) = Some s"
| "stream_of (InPendingSend _ s _) = Some s"
| "stream_of (InPendingFlush _ s) = Some s"
| "stream_of (InClosing s) = Some s"

text \<open>Substreams over bytes that have all arrived.\<close>

definition bytes_io :: "(u8 list, nat) Framed" where
  "bytes_io = \<lparr>poll_ready = (\<lambda>s w. (poll.Ready (Inr ()), s, w)), start_send = (\<lambda>s msg w. (Inr (), s, w)),
     poll_flush = (\<lambda>s w. (poll.Ready (Inr ()), s, w)), poll_close = (\<lambda>s w. (poll.Ready (Inr ()), s, w)),
     poll_next = (\<lambda>s w. case decode std_wire s of
         None \<Rightarrow> None
       | Some (Inr (Some msg), rest) \<Rightarrow> Some (poll.Ready (Some (Inr msg)), rest, w)
       | Some (Inr None, rest) \<Rightarrow> Some (Pending, rest, w)
       | Some (Inl e, rest) \<Rightarrow> Some (poll.Ready (Some (Inl (OtherIo 0))), rest, w)),
     clock = (\<lambda>w. w)\<rparr>"

definition demo_request :: PeerRequest where
  "demo_request = \<lparr>pr_index = 0, pr_begin = 0, pr_length = 2\<rparr>"

definition demo_piece :: Piece where
  "demo_piece = \<lparr>pc_index = 0, pc_begin = 0, pc_block = [1, 2]\<rparr>"

section \<open>Quantities that substreams carry\<close>

declare advance_loop.simps [simp del]

lemmas step_splits = prod.split_asm poll.split_asm sum.split_asm option.split_asm unit.split_asm
  Option.bind_split_asm

text \<open>
  A quantity \<open>m\<close> of the substreams and the part \<open>e\<close> of it that leaves with an event: what one
  advance of a substream guarantees, up to a comparison \<open>le\<close>, a whole poll guarantees too.
\<close>

locale substream_measure =
  fixes le :: "'b multiset \<Rightarrow> 'b multiset \<Rightarrow> bool"
    and m :: "('s, 'u) SubstreamState \<Rightarrow> 'b multiset"
    and e :: "'u ProtocolsHandlerEvent \<Rightarrow> 'b multiset"
    and io :: "('s, 'w) Framed"
  assumes le_refl: "le a a" and le_trans: "le a b \<Longrightarrow> le b c \<Longrightarrow> le a c"
    and le_add: "le a b \<Longrightarrow> le (a + c) (b + c)"
    and advance_le: "advance_substream io cfg s w = Some (s', ev, again, w') \<Longrightarrow>
      le (\<Sum>\<^sub># (image_mset m (mset (option_list s'))) + \<Sum>\<^sub># (image_mset e (mset (option_list ev)))) (m s)"
begin

lemma loop_le:
  "advance_loop io cfg s w = Some (s', ev, w') \<Longrightarrow>
   le (\<Sum>\<^sub># (image_mset m (mset (option_list s'))) + \<Sum>\<^sub># (image_mset e (mset (option_list ev)))) (m s)"
proof (induction "steps_left s" arbitrary: s w rule: less_induct)
  case less
  from less.prems obtain s1 ev1 again w1 where
    a: "advance_substream io cfg s w = Some (s1, ev1, again, w1)"
    by (subst (asm) advance_loop.simps) (auto split: option.splits)
  show ?case
  proof (cases "ev1 = None \<and> again \<and> s1 \<noteq> None")
    case True
    then obtain s2 where t: "s1 = Some s2" "ev1 = None" "again = True" by auto
    with less.prems a have "advance_loop io cfg s2 w1 = Some (s', ev, w')"
      by (subst (asm) advance_loop.simps) simp
    moreover have "steps_left s2 < steps_left s" using a t by (auto dest: advance_steps)
    ultimately show ?thesis using less.hyps advance_le [OF a] t by (auto intro: le_trans)
  next
    case False
    with less.prems a have "s' = s1" "ev = ev1"
      by (subst (asm) advance_loop.simps, auto split: option.splits bool.splits)+
    with advance_le [OF a] show ?thesis by simp
  qed
qed

lemma substream_loop_le:
  "n \<le> length (h_substreams h) \<Longrightarrow> substream_loop io n h w = Some (ev, h', w') \<Longrightarrow>
   le (total m h' + \<Sum>\<^sub># (image_mset e (mset (option_list ev)))) (total m h)"
proof (induction n arbitrary: h w)
  case 0
  then show ?case by (simp add: le_refl)
next
  case (Suc n)
  let ?rest = "swap_remove n (h_substreams h)"
  from Suc.prems(2) obtain s1 ev1 w1 where
    a: "advance_loop io (h_config h) (h_substreams h ! n) w = Some (s1, ev1, w1)"
    by (auto simp: bind_eq_Some_conv Let_def)
  define h1 where "h1 = h\<lparr>h_substreams := ?rest @ option_list s1\<rparr>"
  have push: "(case s1 of Some st \<Rightarrow> [st] | None \<Rightarrow> []) = option_list s1" by (cases s1) simp_all
  have h: "total m h = m (h_substreams h ! n) + (\<Sum>st\<in>#mset ?rest. m st)"
    using mset_swap_remove [of n "h_substreams h"] Suc.prems(1) by (simp add: total_def)
  have h1: "total m h1 = \<Sum>\<^sub># (image_mset m (mset (option_list s1))) + (\<Sum>st\<in>#mset ?rest. m st)"
    by (simp add: h1_def total_def)
  have step: "le (total m h1 + \<Sum>\<^sub># (image_mset e (mset (option_list ev1)))) (total m h)"
    using le_add [OF loop_le [OF a], of "\<Sum>st\<in>#mset ?rest. m st"] by (simp only: h h1 ac_simps)
  show ?case
  proof (cases ev1)
    case None
    with Suc.prems a have "substream_loop io n h1 w1 = Some (ev, h', w')" by (simp add: h1_def push Let_def)
    moreover have "n \<le> length (h_substreams h1)" using Suc.prems(1) by (simp add: h1_def)
    ultimately show ?thesis using Suc.IH [of h1 w1] step None by (auto intro: le_trans)
  next
    case (Some e1)
    with Suc.prems a have "ev = Some e1" "h' = h1" by (auto simp: h1_def push Let_def)
    with step Some show ?thesis by simp
  qed
qed

lemma poll_le:
  assumes "handler_poll io h w = Some (res, h', w')"
  shows "le (total m h' + (case res of poll.Ready ev \<Rightarrow> e ev | Pending \<Rightarrow> {#})) (total m h)"
proof -
  from assms obtain ev h1 w1 where l: "substream_loop io (length (h_substreams h)) h w = Some (ev, h1, w1)"
    by (auto simp: handler_poll_def bind_eq_Some_conv)
  from substream_loop_le [OF order_refl l] assms l show ?thesis
    by (cases ev) (auto simp: handler_poll_def total_def)
qed

end

lemma process_out_data: "process_btt_out msg u = Some ev \<Longrightarrow> reported (Custom ev) = {#u#}"
  by (cases msg) auto

lemma process_in_data: "process_btt_in msg c now = Some ev \<Longrightarrow> reported (Custom ev) = {#}"
  by (cases msg) auto

lemma out_error_data:
  "(\<Sum>ev\<in>#mset (option_list (out_error e u)). to_open ev + reported ev) = mset (option_list u)"
  by (cases u) (simp_all add: out_error_def)

interpretation requests: substream_measure "(=)" state_data "\<lambda>ev. to_open ev + reported ev" io for io
proof unfold_locales
  fix cfg s w s' ev again w'
  assume "advance_substream io cfg s w = Some (s', ev, again, w')"
  then show "\<Sum>\<^sub># (image_mset state_data (mset (option_list s'))) +
      \<Sum>\<^sub># (image_mset (\<lambda>ev. to_open ev + reported ev) (mset (option_list ev))) = state_data s"
    by (cases s; simp split: step_splits)
      (auto simp: out_error_data process_out_data process_in_data)
qed auto

interpretation ids: substream_measure "(\<subseteq>#)" "\<lambda>st. mset (inbound_id st)" "\<lambda>_. {#}" io for io
proof unfold_locales
  fix cfg s w s' ev again w'
  assume "advance_substream io cfg s w = Some (s', ev, again, w')"
  then show "\<Sum>\<^sub># (image_mset (\<lambda>st. mset (inbound_id st)) (mset (option_list s'))) +
      \<Sum>\<^sub># (image_mset (\<lambda>_. {#}) (mset (option_list ev))) \<subseteq># mset (inbound_id s)"
    by (cases s; simp split: step_splits) auto
qed auto

interpretation waiting: substream_measure "\<lambda>a b. b \<subseteq># a" "\<lambda>st. if st = InWaitingUser c str then {#()#} else {#}"
  "\<lambda>_. {#}" io for io c str
proof unfold_locales
  fix cfg s w s' ev again w'
  assume "advance_substream io cfg s w = Some (s', ev, again, w')"
  then show "(if s = InWaitingUser c str then {#()#} else {#}) \<subseteq>#
      \<Sum>\<^sub># (image_mset (\<lambda>st. if st = InWaitingUser c str then {#()#} else {#}) (mset (option_list s'))) +
      \<Sum>\<^sub># (image_mset (\<lambda>_. {#}) (mset (option_list ev)))"
    by (cases s) auto
qed auto

section \<open>Lemmas\<close>

lemma total_push [simp]: "total m (push_substream st h) = m st + total m h"
  by (simp add: total_def push_substream_def)

lemma total_remove:
  "pos < length (h_substreams h) \<Longrightarrow>
   total m h = m (h_substreams h ! pos) + total m (h\<lparr>h_substreams := vec_remove pos (h_substreams h)\<rparr>)"
  using mset_vec_remove [of pos "h_substreams h"] by (simp add: total_def)

lemma total_frame [simp]:
  "total m (h\<lparr>h_keep_alive := k\<rparr>) = total m h" "total m (h\<lparr>h_next_connec_unique_id := n\<rparr>) = total m h"
  by (simp_all add: total_def)

lemma next_frame [simp]:
  "h_next_connec_unique_id (push_substream st h) = h_next_connec_unique_id h"
  by (simp add: push_substream_def)

lemma waits_for_iff: "waits_for r st \<longleftrightarrow> (\<exists>s. st = InWaitingUser r s)"
  by (cases st) auto

lemma position_waits:
  assumes "position (waits_for r) xs = Some pos"
  obtains s where "pos < length xs" "xs ! pos = InWaitingUser r s"
  using position_Some [OF assms] by (auto simp: waits_for_iff)

lemma answer_cases:
  obtains (absent) "answer r msg h = Some h" "\<And>s. InWaitingUser r s \<notin> set (h_substreams h)"
  | (found) pos s where "pos < length (h_substreams h)" "h_substreams h ! pos = InWaitingUser r s"
      "answer r msg h = Some (push_substream (InPendingSend r s msg) (h\<lparr>h_substreams := vec_remove pos (h_substreams h)\<rparr>))"
proof (cases "position (waits_for r) (h_substreams h)")
  case None
  then have "\<And>s. InWaitingUser r s \<notin> set (h_substreams h)"
    by (auto simp: position_None)
  with None absent show ?thesis by (simp add: answer_def)
next
  case (Some pos)
  then obtain s where "pos < length (h_substreams h)" "h_substreams h ! pos = InWaitingUser r s"
    by (rule position_waits)
  with Some found show ?thesis by (simp add: answer_def)
qed

lemma drop_cases:
  obtains (absent) "drop_waiting io r h w = None" "\<And>s. InWaitingUser r s \<notin> set (h_substreams h)"
  | (found) pos s w' where "pos < length (h_substreams h)" "h_substreams h ! pos = InWaitingUser r s"
      "drop_waiting io r h w = Some (h\<lparr>h_substreams := vec_remove pos (h_substreams h)\<rparr>, w')"
proof (cases "position (waits_for r) (h_substreams h)")
  case None
  then have "\<And>s. InWaitingUser r s \<notin> set (h_substreams h)"
    by (auto simp: position_None)
  with None absent show ?thesis by (simp add: drop_waiting_def)
next
  case (Some pos)
  then obtain s where "pos < length (h_substreams h)" "h_substreams h ! pos = InWaitingUser r s"
    by (rule position_waits)
  with Some found show ?thesis by (simp add: drop_waiting_def)
qed

text \<open>
  The ways in which an event of the behaviour changes the substreams: a new one, an answer, a
  dropped one, or none.
\<close>

lemma inject_event_cases:
  obtains (push) msg u where "inject_event io ev h w = Some (push_substream (OutPendingOpen msg u) h, w)"
      "asked ev = mset (option_list u)"
  | (answered) r pos s msg where "r \<in> set (names_request ev)" "asked ev = {#}"
      "pos < length (h_substreams h)" "h_substreams h ! pos = InWaitingUser r s"
      "inject_event io ev h w =
        Some (push_substream (InPendingSend r s msg) (h\<lparr>h_substreams := vec_remove pos (h_substreams h)\<rparr>), w)"
  | (dropped) r pos s w' where "r \<in> set (names_request ev)" "asked ev = {#}"
      "pos < length (h_substreams h)" "h_substreams h ! pos = InWaitingUser r s"
      "inject_event io ev h w = Some (h\<lparr>h_substreams := vec_remove pos (h_substreams h)\<rparr>, w')"
  | (kept) k where "asked ev = {#}" "inject_event io ev h w = Some (h\<lparr>h_keep_alive := k\<rparr>, w)"
proof -
  have answers: ?thesis if "r \<in> set (names_request ev)" "asked ev = {#}"
    "inject_event io ev h w = map_option (\<lambda>h'. (h', w)) (answer r msg h)" for r msg
  proof (cases rule: answer_cases [of r msg h])
    case absent
    with that show ?thesis by (intro kept [of "h_keep_alive h"]) simp_all
  next
    case (found pos s)
    with that answered show ?thesis by simp
  qed
  show ?thesis
  proof (cases ev)
    case (Reset r)
    show ?thesis
    proof (cases rule: drop_cases [of io r h w])
      case absent
      with Reset show ?thesis by (intro kept [of "h_keep_alive h"]) simp_all
    next
      case (found pos s w')
      with Reset dropped show ?thesis by simp
    qed
  next
    case (CancelPiece req r)
    show ?thesis
    proof (cases rule: drop_cases [of io r h w])
      case absent
      with CancelPiece push [of _ None] show ?thesis by simp
    next
      case (found pos s w')
      with CancelPiece dropped show ?thesis by simp
    qed
  next
    case (Disconnect t)
    with kept show ?thesis by simp
  qed (auto intro: answers push [of _ None] push [of _ "Some u" for u])
qed

lemma substream_loop_next:
  "substream_loop io n h w = Some (ev, h', w') \<Longrightarrow> h_next_connec_unique_id h' = h_next_connec_unique_id h"
proof (induction n arbitrary: h w)
  case (Suc n)
  then obtain s1 ev1 w1 where
    "advance_loop io (h_config h) (h_substreams h ! n) w = Some (s1, ev1, w1)"
    by (auto simp: bind_eq_Some_conv Let_def)
  with Suc show ?case by (cases ev1) (auto simp: Let_def dest!: Suc.IH)
qed simp

lemma poll_next_id:
  "handler_poll io h w = Some (res, h', w') \<Longrightarrow> h_next_connec_unique_id h' = h_next_connec_unique_id h"
  by (auto simp: handler_poll_def bind_eq_Some_conv dest: substream_loop_next split: option.splits)

lemma inject_event_data:
  assumes "inject_event io ev h w = Some (h', w')"
  shows "pending_data h' = pending_data h + asked ev"
  by (cases rule: inject_event_cases [of io ev h w])
    (use assms in \<open>auto simp: pending_data_def total_remove\<close>)

lemma inject_event_ids:
  assumes "inject_event io ev h w = Some (h', w')"
  shows "inbound_ids h' \<subseteq># inbound_ids h \<and> h_next_connec_unique_id h' = h_next_connec_unique_id h"
  by (cases rule: inject_event_cases [of io ev h w])
    (use assms in \<open>auto simp: inbound_ids_def total_remove\<close>)

lemma ids_unique_mono:
  assumes "ids_unique h" and "inbound_ids h' \<subseteq># inbound_ids h"
    and "h_next_connec_unique_id h' = h_next_connec_unique_id h"
  shows "ids_unique h'"
  using assms by (auto simp: ids_unique_def dest: mset_subset_eqD intro: le_trans [OF mset_subset_eq_count])

lemma run_ids: "handler_run io h A O' R \<Longrightarrow> ids_unique h"
proof (induction rule: handler_run.induct)
  case (run_event h A O' R ev w h' w')
  then show ?case using inject_event_ids ids_unique_mono by metis
next
  case (run_inbound h A O' R s)
  then show ?case
    by (auto simp: ids_unique_def inbound_ids_def inject_fully_negotiated_inbound_def not_in_iff less_Suc_eq)
next
  case (run_outbound h A O' u R s msg)
  then show ?case by (simp add: ids_unique_def inbound_ids_def inject_fully_negotiated_outbound_def)
next
  case (run_dial_error h A O' u R msg e)
  then show ?case
    by (simp add: ids_unique_def inbound_ids_def inject_dial_upgrade_error_def split: option.split)
next
  case (run_poll h A O' R w ev h' w')
  show ?case
    by (rule ids_unique_mono [OF run_poll.IH])
      (use ids.poll_le [OF run_poll.hyps(2)] poll_next_id [OF run_poll.hyps(2)] in \<open>simp_all add: inbound_ids_def\<close>)
next
  case (run_idle h A O' R w h' w')
  show ?case
    by (rule ids_unique_mono [OF run_idle.IH])
      (use ids.poll_le [OF run_idle.hyps(2)] poll_next_id [OF run_idle.hyps(2)] in \<open>simp_all add: inbound_ids_def\<close>)
qed (simp add: ids_unique_def inbound_ids_def total_def with_seed_leech_config_def)

lemma unit_count: "count (\<Sum>st\<in>#M. if st = x then {#()#} else {#}) () = count M x"
  by (induction M) auto

lemma poll_keeps_waiting:
  assumes "handler_poll io h w = Some (res, h', w')" and "InWaitingUser c str \<in> set (h_substreams h)"
  shows "InWaitingUser c str \<in> set (h_substreams h')"
proof -
  let ?m = "\<lambda>st. if st = InWaitingUser c str then {#()#} else {#}"
  have "total ?m h \<subseteq># total ?m h'" using waiting.poll_le [OF assms(1), of c str] by (cases res) simp_all
  then have "count (mset (h_substreams h)) (InWaitingUser c str) \<le> count (mset (h_substreams h')) (InWaitingUser c str)"
    using mset_subset_eq_count [of "total ?m h" "total ?m h'" "()"] by (simp add: total_def unit_count)
  with assms(2) show ?thesis by (metis count_eq_zero_iff le_zero_eq set_mset_mset)
qed

lemma event_keeps_waiting:
  assumes "inject_event io ev h w = Some (h', w')" and "c \<notin> set (names_request ev)"
    and "InWaitingUser c str \<in> set (h_substreams h)"
  shows "InWaitingUser c str \<in> set (h_substreams h')"
proof -
  have keep: "InWaitingUser c str \<in> set (vec_remove pos (h_substreams h))"
    if "pos < length (h_substreams h)" "h_substreams h ! pos = InWaitingUser r s" "r \<noteq> c" for pos r s
  proof -
    from mset_vec_remove [OF that(1)] assms(3)
    have "InWaitingUser c str \<in># add_mset (h_substreams h ! pos) (mset (vec_remove pos (h_substreams h)))"
      by (metis set_mset_mset)
    with that show ?thesis by auto
  qed
  show ?thesis
    by (cases rule: inject_event_cases [of io ev h w])
      (use assms in \<open>auto simp: push_substream_def intro: keep\<close>)
qed

lemma unanswered_waiting:
  "unanswered io c h0 h \<Longrightarrow> InWaitingUser c str \<in> set (h_substreams h0) \<Longrightarrow>
   InWaitingUser c str \<in> set (h_substreams h)"
  by (induction rule: unanswered.induct)
    (auto intro: poll_keeps_waiting event_keeps_waiting simp: inject_fully_negotiated_inbound_def
      inject_fully_negotiated_outbound_def inject_dial_upgrade_error_def push_substream_def split: option.splits)

lemma waiting_unique:
  assumes "ids_unique h" and "InWaitingUser r s \<in> set (h_substreams h)" and "InWaitingUser r s' \<in> set (h_substreams h)"
  shows "s' = s"
proof (rule ccontr)
  assume ne: "s' \<noteq> s"
  from assms(2) obtain M where M: "mset (h_substreams h) = add_mset (InWaitingUser r s) M"
    by (metis in_multiset_in_set multi_member_split)
  from assms(3) have "InWaitingUser r s' \<in># mset (h_substreams h)" by simp
  with M ne have "InWaitingUser r s' \<in># M" by auto
  then obtain N where "M = add_mset (InWaitingUser r s') N" by (metis multi_member_split)
  with M have "count (inbound_ids h) r \<ge> 2" by (simp add: inbound_ids_def total_def)
  moreover have "count (inbound_ids h) r \<le> 1" using assms(1) by (simp add: ids_unique_def)
  ultimately show False by linarith
qed

text \<open>The only message the handler cannot process.\<close>

lemma process_out_None: "process_btt_out msg u = None \<Longrightarrow> \<exists>p. msg = PeerMessage.Port p"
  by (cases msg) auto

lemma process_in_None: "process_btt_in msg c now = None \<Longrightarrow> \<exists>p. msg = PeerMessage.Port p"
  by (cases msg) auto

lemma advance_loop_step:
  "advance_substream io cfg s w = Some (Some s', None, True, w') \<Longrightarrow>
   advance_loop io cfg s w = advance_loop io cfg s' w'"
  by (subst advance_loop.simps) simp

lemma advance_loop_stop:
  "advance_substream io cfg s w = Some (s', ev, again, w') \<Longrightarrow> \<not> (\<exists>t. s' = Some t \<and> ev = None \<and> again) \<Longrightarrow>
   advance_loop io cfg s w = Some (s', ev, w')"
  by (subst advance_loop.simps) (auto split: option.splits bool.splits)

lemma framed_reads:
  assumes "framed_laws E buf io"
  shows "poll_next io s w = None \<Longrightarrow> \<exists>received. fatal E (buf s @ received)"
    and "poll_next io s w = Some (poll.Ready (Some (Inr (PeerMessage.Port p))), s', w') \<Longrightarrow>
      \<exists>received. fatal E (buf s @ received)"
    and "fatal E (buf s) \<Longrightarrow> poll_next io s w = None \<or>
      (\<exists>p s' w'. poll_next io s w = Some (poll.Ready (Some (Inr (PeerMessage.Port p))), s', w'))"
  using assms unfolding framed_laws_def fatal_def by metis+

lemma framed_writes:
  assumes "framed_laws E buf io"
  shows "poll_ready io s w = (r, s', w') \<Longrightarrow> buf s' = buf s"
    and "start_send io s msg w = (q, s', w') \<Longrightarrow> buf s' = buf s"
    and "poll_flush io s w = (r, s', w') \<Longrightarrow> buf s' = buf s"
  using assms unfolding framed_laws_def by (metis fst_conv snd_conv)+

text \<open>A substream that panics has been given bytes it cannot take.\<close>

definition can_panic :: "wire_ext \<Rightarrow> ('s \<Rightarrow> u8 list) \<Rightarrow> ('s, 'u) SubstreamState \<Rightarrow> bool" where
  "can_panic E buf st \<longleftrightarrow> (\<exists>s received. stream_of st = Some s \<and> fatal E (buf s @ received))"

lemma advance_panics:
  assumes "framed_laws E buf io" and "advance_substream io cfg st w = None"
  shows "can_panic E buf st"
proof -
  have "\<exists>received. fatal E (buf s @ received)"
    if "poll_next io s w = Some (poll.Ready (Some (Inr msg)), s', w')" "msg \<in> range PeerMessage.Port" for s w msg s' w'
    using that framed_reads(2) [OF assms(1)] by blast
  with assms(2) framed_reads(1) [OF assms(1)] show ?thesis
    by (cases st; simp add: can_panic_def split: step_splits) (metis process_out_None process_in_None rangeI)+
qed

lemma advance_keeps_bytes:
  assumes "framed_laws E buf io" and "advance_substream io cfg st w = Some (Some st', None, True, w')"
    and "can_panic E buf st'"
  shows "can_panic E buf st"
  using assms(2,3)
  by (cases st; simp split: step_splits)
    (auto simp: can_panic_def dest!: framed_writes [OF assms(1)])

lemma loop_panics:
  assumes "framed_laws E buf io"
  shows "advance_loop io cfg st w = None \<Longrightarrow> can_panic E buf st"
proof (induction "steps_left st" arbitrary: st w rule: less_induct)
  case less
  show ?case
  proof (cases "advance_substream io cfg st w")
    case None
    then show ?thesis by (rule advance_panics [OF assms])
  next
    case (Some r)
    obtain s1 ev again w1 where r: "r = (s1, ev, again, w1)" by (cases r)
    show ?thesis
    proof (cases "\<exists>s2. s1 = Some s2 \<and> ev = None \<and> again")
      case True
      with Some r obtain s2 where a: "advance_substream io cfg st w = Some (Some s2, None, True, w1)" by auto
      with less.prems have "advance_loop io cfg s2 w1 = None" by (simp add: advance_loop_step)
      with less.hyps advance_steps [OF a] advance_keeps_bytes [OF assms a] show ?thesis by blast
    next
      case False
      with less.prems Some r show ?thesis by (simp add: advance_loop_stop)
    qed
  qed
qed

text \<open>The loop over the substreams reaches each of them in the state it had before the poll.\<close>

lemma take_swap_remove: "n < length xs \<Longrightarrow> take n (swap_remove n xs) = take n xs"
  by (cases "Suc n = length xs") (auto simp: swap_remove_def butlast_conv_take)

lemma substream_loop_panics:
  assumes "framed_laws E buf io"
  shows "substream_loop io n h w = None \<Longrightarrow> n \<le> length (h_substreams h) \<Longrightarrow>
    \<exists>st \<in> set (take n (h_substreams h)). can_panic E buf st"
proof (induction n arbitrary: h w)
  case (Suc n)
  let ?st = "h_substreams h ! n"
  from Suc.prems(2) have mem: "?st \<in> set (take (Suc n) (h_substreams h))"
    by (simp add: take_Suc_conv_app_nth)
  show ?case
  proof (cases "advance_loop io (h_config h) ?st w")
    case None
    with mem show ?thesis using loop_panics [OF assms] by blast
  next
    case (Some r)
    obtain s1 ev w1 where r: "r = (s1, ev, w1)" by (cases r)
    let ?h1 = "h\<lparr>h_substreams := swap_remove n (h_substreams h) @ (case s1 of Some st \<Rightarrow> [st] | None \<Rightarrow> [])\<rparr>"
    have t: "take n (h_substreams ?h1) = take n (h_substreams h)" using Suc.prems(2) by (simp add: take_swap_remove)
    have "substream_loop io n ?h1 w1 = None" using Suc.prems(1) Some r by (auto simp: Let_def split: option.splits)
    moreover have "n \<le> length (h_substreams ?h1)" using Suc.prems(2) by simp
    ultimately obtain st where "st \<in> set (take n (h_substreams ?h1))" "can_panic E buf st" using Suc.IH by blast
    moreover have "set (take n (h_substreams h)) \<subseteq> set (take (Suc n) (h_substreams h))" by (simp add: set_take_subset_set_take)
    ultimately show ?thesis unfolding t by blast
  qed
qed simp

lemma bytes_io_next:
  "poll_next bytes_io s w = None \<longleftrightarrow> decode std_wire s = None"
  "poll_next bytes_io s w = Some (poll.Ready (Some (Inr msg)), s', w') \<longleftrightarrow>
    decode std_wire s = Some (Inr (Some msg), s') \<and> w' = w"
  by (auto simp: bytes_io_def split: option.splits prod.splits sum.splits)

lemma bytes_io_laws: "framed_laws std_wire (\<lambda>s. s) bytes_io"
proof -
  have n: "decode std_wire s = None \<Longrightarrow> \<exists>received. decode std_wire (s @ received) = None" for s
    by (rule exI [of _ "[]"]) simp
  have m: "decode std_wire s = Some (Inr (Some msg), s') \<Longrightarrow>
      \<exists>received rest. decode std_wire (s @ received) = Some (Inr (Some msg), rest)" for s msg s'
    by (intro exI [of _ "[]"] exI [of _ s']) simp
  show ?thesis unfolding framed_laws_def bytes_io_next using n m by (simp add: bytes_io_def)
qed

lemmas script_eval = script_io_def handler_poll_def advance_loop.simps swap_remove_def Let_def
  with_seed_leech_config_def push_substream_def inject_fully_negotiated_inbound_def inject_fully_negotiated_outbound_def

text \<open>A handler whose one inbound substream has asked for a block.\<close>

lemma script_asked:
  "handler_run script_io (\<lparr>h_config = BitTorrentProtocolConfig_default,
     h_substreams = [InWaitingUser 0 [] :: (PeerMessage list, nat) SubstreamState], h_keep_alive = Yes, h_seed_leech = SeedAndLeech,
     h_next_connec_unique_id = 1\<rparr>) {#} {#} {#}"
proof -
  let ?h = "inject_fully_negotiated_inbound [PeerMessage.Request demo_request]
    (with_seed_leech_config SeedAndLeech :: (PeerMessage list, nat) BitTorrentHandler)"
  have "handler_run script_io ?h {#} {#} {#}" by (intro run_inbound run_start)
  moreover have "handler_poll script_io ?h 0 = Some (poll.Ready (Custom (BitTorrentHandlerEvent.GetPieceReq demo_request 0)),
      \<lparr>h_config = BitTorrentProtocolConfig_default, h_substreams = [InWaitingUser 0 []], h_keep_alive = Yes,
       h_seed_leech = SeedAndLeech, h_next_connec_unique_id = 1\<rparr>, 0)"
    by (simp add: script_eval)
  ultimately show ?thesis using run_poll by fastforce
qed

section \<open>Properties\<close>

text \<open>
  C13. No request of the behaviour is lost and none is answered twice: at any time every request
  that was asked for, named by its user data, is held by exactly one substream, or its substream
  is being opened, or it was reported back as an answer or an error; as often as it was asked for.
\<close>

theorem requests_conserved:
  assumes "handler_run io h A Opening R"
  shows "A = pending_data h + Opening + R"
  using assms
proof (induction rule: handler_run.induct)
  case (run_event h A O' R ev w h' w')
  with inject_event_data [OF run_event.hyps(2)] show ?case by (simp add: ac_simps)
next
  case (run_outbound h A O' u R s msg)
  then show ?case by (simp add: pending_data_def inject_fully_negotiated_outbound_def)
next
  case (run_dial_error h A O' u R msg e)
  then show ?case
    by (cases u) (simp_all add: pending_data_def inject_dial_upgrade_error_def)
next
  case (run_poll h A O' R w ev h' w')
  with requests.poll_le [OF run_poll.hyps(2)] show ?case by (simp add: pending_data_def ac_simps)
next
  case (run_idle h A O' R w h' w')
  with requests.poll_le [OF run_idle.hyps(2)] show ?case by (simp add: pending_data_def)
qed (simp_all add: pending_data_def total_def with_seed_leech_config_def inject_fully_negotiated_inbound_def
    push_substream_def)

theorem requests_conserved_witness:
  "\<exists>h :: (PeerMessage list, nat) BitTorrentHandler.
     handler_run script_io h {#7#} {#} {#7#} \<and> {#7#} = pending_data h + {#} + {#7#}"
proof -
  let ?h0 = "with_seed_leech_config SeedAndLeech :: (PeerMessage list, nat) BitTorrentHandler"
  have r1: "handler_run script_io (?h0\<lparr>h_substreams := [OutPendingOpen (PeerMessage.Request demo_request) (Some 7)]\<rparr>) ({#} + {#7#}) {#} {#}"
    using run_event [OF run_start, of script_io "BitTorrentHandlerIn.GetPieceReq demo_request 7" _ 0]
    by (simp add: script_eval)
  have "handler_poll script_io (?h0\<lparr>h_substreams := [OutPendingOpen (PeerMessage.Request demo_request) (Some 7)]\<rparr>) 0
      = Some (poll.Ready (OutboundSubstreamRequest BitTorrentProtocolConfig_default (PeerMessage.Request demo_request, Some 7)), ?h0, 0)"
    by (simp add: script_eval)
  from run_poll [OF r1 this] have "handler_run script_io ?h0 {#7#} ({#} + mset (option_list (Some 7))) {#}" by simp
  note r2 = run_outbound [OF this, of "[PeerMessage.Piece demo_piece]" "PeerMessage.Request demo_request"]
  have "handler_poll script_io (inject_fully_negotiated_outbound [PeerMessage.Piece demo_piece] (PeerMessage.Request demo_request, Some 7) ?h0) 0
      = Some (poll.Ready (Custom (BitTorrentHandlerEvent.GetPieceRes demo_piece 7)), ?h0\<lparr>h_substreams := [OutClosing []]\<rparr>, 0)"
    by (simp add: script_eval)
  from run_poll [OF r2 this] have r3: "handler_run script_io (?h0\<lparr>h_substreams := [OutClosing []]\<rparr>) {#7#} {#} {#7#}" by simp
  from r3 requests_conserved [OF r3] show ?thesis by blast
qed

text \<open>
  C14. An answer goes to the substream of its request and to no other: in every handler that can
  arise, at most one substream waits for the answer of a request identifier. Answering a block
  request turns exactly that substream into one that sends the piece, and leaves every other one
  alone; an answer to a request that nobody waits for changes nothing.
\<close>

theorem answer_reaches_requester:
  assumes "handler_run io h A Opening R"
  shows "\<exists>h'. inject_event io (BitTorrentHandlerIn.GetPieceRes piece r) h w = Some (h', w) \<and>
    (\<forall>s. InWaitingUser r s \<in> set (h_substreams h) \<longrightarrow>
       mset (h_substreams h) = add_mset (InWaitingUser r s) (mset (h_substreams h) - {#InWaitingUser r s#}) \<and>
       mset (h_substreams h') =
         add_mset (InPendingSend r s (PeerMessage.Piece piece)) (mset (h_substreams h) - {#InWaitingUser r s#}) \<and>
       (\<forall>s'. InWaitingUser r s' \<notin> set (h_substreams h'))) \<and>
    ((\<forall>s. InWaitingUser r s \<notin> set (h_substreams h)) \<longrightarrow> h' = h)"
proof (cases rule: answer_cases [of r "PeerMessage.Piece piece" h])
  case absent
  then show ?thesis by auto
next
  case (found pos s)
  have u: "ids_unique h" by (rule run_ids [OF assms])
  have mem: "InWaitingUser r s \<in> set (h_substreams h)" using found(1,2) by (metis nth_mem)
  have m: "mset (h_substreams h) = add_mset (InWaitingUser r s) (mset (vec_remove pos (h_substreams h)))"
    using mset_vec_remove [OF found(1)] found(2) by simp
  have none: "InWaitingUser r s' \<notin> set (vec_remove pos (h_substreams h))" for s'
  proof
    assume "InWaitingUser r s' \<in> set (vec_remove pos (h_substreams h))"
    then obtain N where "mset (vec_remove pos (h_substreams h)) = add_mset (InWaitingUser r s') N"
      by (metis in_multiset_in_set multi_member_split)
    with m have "count (inbound_ids h) r \<ge> 2" by (simp add: inbound_ids_def total_def)
    moreover have "count (inbound_ids h) r \<le> 1" using u by (simp add: ids_unique_def)
    ultimately show False by linarith
  qed
  have "s' = s" if "InWaitingUser r s' \<in> set (h_substreams h)" for s'
    by (rule waiting_unique [OF u mem that])
  then have only: "InWaitingUser r s' \<in> set (h_substreams h) \<longleftrightarrow> s' = s" for s' using mem by blast
  let ?h' = "push_substream (InPendingSend r s (PeerMessage.Piece piece)) (h\<lparr>h_substreams := vec_remove pos (h_substreams h)\<rparr>)"
  have "mset (h_substreams ?h') = add_mset (InPendingSend r s (PeerMessage.Piece piece)) (mset (vec_remove pos (h_substreams h)))"
    by (simp add: push_substream_def)
  moreover have "InWaitingUser r s' \<notin> set (h_substreams ?h')" for s' using none by (simp add: push_substream_def)
  moreover have "inject_event io (BitTorrentHandlerIn.GetPieceRes piece r) h w = Some (?h', w)" using found(3) by simp
  ultimately show ?thesis by (intro exI [of _ ?h']) (simp only: only m, simp)
qed

theorem answer_reaches_requester_witness:
  "\<exists>h'. inject_event script_io (BitTorrentHandlerIn.GetPieceRes demo_piece 0)
     (\<lparr>h_config = BitTorrentProtocolConfig_default,
       h_substreams = [InWaitingUser 0 [] :: (PeerMessage list, nat) SubstreamState], h_keep_alive = Yes,
       h_seed_leech = SeedAndLeech, h_next_connec_unique_id = 1\<rparr>) 0 = Some (h', 0) \<and>
     mset (h_substreams h') = {#InPendingSend 0 [] (PeerMessage.Piece demo_piece)#}"
  using answer_reaches_requester [OF script_asked, of demo_piece 0 0] by auto



text \<open>
  A message that expects no answer leaks its substream: after a keep-alive, a choke or
  interest message or a \<^verbatim>\<open>Have\<close>, the event carries no request identifier, and the substream stays in
  the state that waits for the behaviour, whatever happens, as long as the behaviour does not name
  the identifier it was never told. A poll that ends while it is there keeps the connection alive.
\<close>

theorem one_way_message_leaks:
  fixes h :: "('s, 'u) BitTorrentHandler"
  assumes "poll_next io s w = Some (poll.Ready (Some (Inr msg)), s1, w1)" and "h_substreams h = [InWaitingMessage c s]"
    and "msg \<in> {PeerMessage.KeepAlive, PeerMessage.Choke, PeerMessage.UnChoke, PeerMessage.Interested,
      PeerMessage.NotInterested} \<union> range PeerMessage.Have"
  shows "\<exists>ev h1. handler_poll io h w = Some (poll.Ready (Custom ev), h1, w1) \<and>
    ev \<in> range BitTorrentHandlerEvent.KeepAlive \<union> range BitTorrentHandlerEvent.Choke \<union>
      range BitTorrentHandlerEvent.Interest \<union> range BitTorrentHandlerEvent.Have \<and>
    (\<forall>h2. unanswered io c h1 h2 \<longrightarrow> InWaitingUser c s1 \<in> set (h_substreams h2) \<and>
       (\<forall>w2 h3 w3. handler_poll io h2 w2 = Some (Pending, h3, w3) \<longrightarrow> connection_keep_alive h3 = Yes))"
proof -
  from assms(3) obtain ev :: "'u BitTorrentHandlerEvent" where ev: "process_btt_in msg c (clock io w1) = Some ev"
    "ev \<in> range BitTorrentHandlerEvent.KeepAlive \<union> range BitTorrentHandlerEvent.Choke \<union>
      range BitTorrentHandlerEvent.Interest \<union> range BitTorrentHandlerEvent.Have" by auto
  let ?h1 = "h\<lparr>h_substreams := [InWaitingUser c s1]\<rparr>"
  have p: "handler_poll io h w = Some (poll.Ready (Custom ev), ?h1, w1)"
    using assms(1,2) ev(1)
    by (simp add: handler_poll_def advance_loop.simps [of io _ "InWaitingMessage c s"] swap_remove_def Let_def)
  have stay: "InWaitingUser c s1 \<in> set (h_substreams h2)" if "unanswered io c ?h1 h2" for h2
    by (rule unanswered_waiting [OF that]) simp
  have "connection_keep_alive h3 = Yes" if u: "unanswered io c ?h1 h2" and q: "handler_poll io h2 w2 = Some (Pending, h3, w3)" for h2 w2 h3 w3
  proof -
    from poll_keeps_waiting [OF q stay [OF u]] have "h_substreams h3 \<noteq> []" by auto
    with q show ?thesis
      by (auto simp: handler_poll_def bind_eq_Some_conv connection_keep_alive_def split: option.splits)
  qed
  with p ev(2) stay show ?thesis by blast
qed

theorem one_way_message_leaks_witness:
  "\<exists>ev h1. handler_poll script_io ((with_seed_leech_config SeedOnly :: (PeerMessage list, nat) BitTorrentHandler)
       \<lparr>h_substreams := [InWaitingMessage 0 [PeerMessage.Have 3]]\<rparr>) 0 = Some (poll.Ready (Custom ev), h1, 0) \<and>
     (\<forall>h2. unanswered script_io 0 h1 h2 \<longrightarrow> InWaitingUser 0 [] \<in> set (h_substreams h2))"
proof -
  have p: "poll_next script_io [PeerMessage.Have 3] 0 = Some (poll.Ready (Some (Inr (PeerMessage.Have 3))), [], 0)"
    by (simp add: script_io_def)
  from one_way_message_leaks [OF p, of "(with_seed_leech_config SeedOnly :: (PeerMessage list, nat) BitTorrentHandler)
       \<lparr>h_substreams := [InWaitingMessage 0 [PeerMessage.Have 3]]\<rparr>" 0]
  show ?thesis by auto
qed

text \<open>
  \<^verbatim>\<open>Disconnect\<close> has no effect beyond the next poll: a poll that ends without an event sets the
  connection to be kept alive again, whatever was requested before.
\<close>

theorem disconnect_undone:
  assumes "inject_event io (Disconnect t) h w = Some (h1, w1)" and "handler_poll io h1 w1 = Some (Pending, h2, w2)"
  shows "connection_keep_alive h2 = (if h_substreams h2 = [] then Until (clock io w2 + 20 * 10 ^ 9) else Yes)"
  using assms by (auto simp: handler_poll_def bind_eq_Some_conv connection_keep_alive_def split: option.splits)

theorem disconnect_undone_witness:
  "\<exists>h1 h2. inject_event script_io (Disconnect None) (with_seed_leech_config SeedOnly :: (PeerMessage list, nat) BitTorrentHandler) 3 = Some (h1, 3) \<and>
     connection_keep_alive h1 = No \<and> handler_poll script_io h1 3 = Some (Pending, h2, 3) \<and>
     connection_keep_alive h2 = Until (3 + 20 * 10 ^ 9)"
proof -
  let ?h = "with_seed_leech_config SeedOnly :: (PeerMessage list, nat) BitTorrentHandler"
  have e: "inject_event script_io (Disconnect None) ?h 3 = Some (?h\<lparr>h_keep_alive := No\<rparr>, 3)" by simp
  have p: "handler_poll script_io (?h\<lparr>h_keep_alive := No\<rparr>) 3 = Some (Pending, ?h\<lparr>h_keep_alive := Until (3 + 20 * 10 ^ 9)\<rparr>, 3)"
    by (simp add: script_eval)
  from disconnect_undone [OF e p] e p show ?thesis by (auto simp: connection_keep_alive_def)
qed

end
