(* ===== verification/Behaviour.thy ===== *)
theory Behaviour
  imports Pool DiskManagers ProtocolHandler
begin

text \<open>
  The network behaviour (\<^verbatim>\<open>src/behavior.rs\<close>): the calls of the user, the events of the swarm, the
  events of the protocol handlers, and the poll that drives the pool of torrents and the disk
  manager.

  A \<^verbatim>\<open>Multiaddr\<close> is only stored and returned, so it is a number. The environment holds that of the
  disk manager, the clock of the world and the shuffle of the rand crate, which the pool uses to
  select pieces. The loops of \<^verbatim>\<open>poll\<close> need not end; they take fuel, the outer \<^const>\<open>None\<close> is the lack of
  it and the inner one a panic.
\<close>

section \<open>Data\<close>

type_synonym Multiaddr = nat

datatype TorrentAddedOk = NewSeed TorrentId TorrentState | NewLeech TorrentId TorrentState

datatype TorrentAddedErr = AlreadyExist ShaHash MetaInfo

record BitfieldOk =
  bo_torrent :: TorrentId
  bo_peer :: PeerId

record ChokeOk =
  co_torrent :: TorrentId
  co_peer :: PeerId
  co_old_choke_ty :: ChokeType
  co_new_choke_ty :: ChokeType

record HaveOk =
  ho_peer :: PeerId
  ho_piece :: u32

datatype HaveErr = HaveNotFound PeerId | InvalidIndex u32

record BlockOk =
  bk_peer :: PeerId
  bk_block_metadata :: BlockMetadata
  bk_torrent :: TorrentId

datatype SeedBlockOk = SeedOk BlockOk | CancelledByRemote PeerId BlockMetadata

datatype SeedBlockErr = RemoteNotAllowed PeerId BlockMetadata | SeedNotFound PeerId

datatype BitTorrentEvent =
    HandshakeResult "HandshakeError + HandshakeOk"
  | LeechBlockResult "BlockErr + BlockOk"
  | BitfieldResult "PeerError + BitfieldOk"
  | SeedBlockResult "SeedBlockErr + SeedBlockOk"
  | DiskResult "unit + DiskMessageOut"
  | KeepAliveResult "PeerError + KeepAliveOk"
  | ChokeResult "PeerError + ChokeOk"
  | InterestResult "PeerError + InterestOk"
  | HaveResult "HaveErr + HaveOk"
  | TorrentFinished TorrentId
  | TorrentAddedResult "TorrentAddedErr + TorrentAddedOk"

datatype NetworkBehaviourAction =
    GenerateEvent BitTorrentEvent
  | DialPeer PeerId
  | SendEvent PeerId "TorrentId BitTorrentHandlerIn"

datatype ConnectedPoint = Dialer | Listener Multiaddr

record ('f, 'c) BitTorrent =
  disk_manager :: "('f, 'c) DiskManager"
  pool :: TorrentPool
  connected_peers :: "PeerId set"
  queued_events :: "NetworkBehaviourAction list"
  known_peers :: "(PeerId, Multiaddr \<times> ShaHash set) hash_map"
  pending_handshakes :: "(PeerId, ShaHash) hash_map"

record ('f, 'e, 'w, 'c) bt_env =
  be_disk :: "('f, 'e, 'w, 'c) disk_env"
  be_clock :: "'w \<Rightarrow> Instant"
  be_shuffle :: "'w \<Rightarrow> usize list \<Rightarrow> usize list"

section \<open>Calls of the user\<close>

definition with_config :: "'c \<Rightarrow> ShaHash \<Rightarrow> PeerId \<Rightarrow> BitTorrentConfig \<Rightarrow> ('f, 'c) BitTorrent" where
  "with_config empty_cache random_hash peer_id config =
     \<lparr>disk_manager = with_capacity empty_cache, pool = TorrentPool_new random_hash peer_id config,
      connected_peers = {}, queued_events = [], known_peers = [], pending_handshakes = []\<rparr>"

definition enqueue :: "NetworkBehaviourAction \<Rightarrow> ('f, 'c) BitTorrent \<Rightarrow> ('f, 'c) BitTorrent" where
  "enqueue action b = b\<lparr>queued_events := queued_events b @ [action]\<rparr>"

definition add_address_torrents ::
  "PeerId \<Rightarrow> Multiaddr \<Rightarrow> ShaHash list \<Rightarrow> ('f, 'c) BitTorrent \<Rightarrow> bool \<times> ('f, 'c) BitTorrent" where
  "add_address_torrents peer address hashes b =
     (case hm_get (known_peers b) peer of
        Some (know_address, know_torrents) \<Rightarrow>
          (True, b\<lparr>known_peers := hm_insert peer (address, know_torrents \<union> set hashes) (known_peers b)\<rparr>)
      | None \<Rightarrow> (False, b\<lparr>known_peers := hm_insert peer (address, set hashes) (known_peers b)\<rparr>))"

definition handshake_known_peer ::
  "PeerId \<Rightarrow> ShaHash \<Rightarrow> ('f, 'c) BitTorrent \<Rightarrow> ((PeerId \<times> ShaHash) + unit) \<times> ('f, 'c) BitTorrent" where
  "handshake_known_peer peer torrent b =
     (if hm_contains_key (pending_handshakes b) peer \<or> peer \<in> connected_peers b then (Inl (peer, torrent), b)
      else if hm_contains_key (known_peers b) peer then
        (Inr (), (enqueue (DialPeer peer) b)\<lparr>pending_handshakes := hm_insert peer torrent (pending_handshakes b)\<rparr>)
      else (Inl (peer, torrent), b))"

definition send_handshake :: "ShaHash \<Rightarrow> PeerId \<Rightarrow> ('f, 'c) BitTorrent \<Rightarrow> ('f, 'c) BitTorrent" where
  "send_handshake info_hash peer_id b =
     (case get_for_info_hash (pool b) info_hash of
        Some torrent \<Rightarrow>
          enqueue (SendEvent peer_id
            (BitTorrentHandlerIn.HandshakeReq (Handshake_new info_hash (local_peer_hash (pool b))) (t_id torrent))) b
      | None \<Rightarrow> enqueue (GenerateEvent (HandshakeResult (Inl (InfoHashNotFound peer_id info_hash)))) b)"

definition choke_peer :: "PeerId \<Rightarrow> ('f, 'c) BitTorrent \<Rightarrow> ('f, 'c) BitTorrent" where
  "choke_peer peer_id b =
     (case choke_remote peer_id (pool b) of
        (Inr tid, p) \<Rightarrow> enqueue (SendEvent peer_id (BitTorrentHandlerIn.Choke Choked)) (b\<lparr>pool := p\<rparr>)
      | (Inl _, p) \<Rightarrow> enqueue (GenerateEvent (ChokeResult (Inl (NotFound peer_id)))) (b\<lparr>pool := p\<rparr>))"

definition unchoke_peer :: "PeerId \<Rightarrow> ('f, 'c) BitTorrent \<Rightarrow> ('f, 'c) BitTorrent" where
  "unchoke_peer peer_id b =
     (case unchoke_remote peer_id (pool b) of
        (Inr tid, p) \<Rightarrow> enqueue (SendEvent peer_id (BitTorrentHandlerIn.Choke UnChoked)) (b\<lparr>pool := p\<rparr>)
      | (Inl _, p) \<Rightarrow> enqueue (GenerateEvent (ChokeResult (Inl (NotFound peer_id)))) (b\<lparr>pool := p\<rparr>))"

text \<open>What both ways of adding a torrent do with the answer of the pool; \<open>ok\<close> builds the success event.\<close>

definition add_result ::
  "(TorrentId \<Rightarrow> TorrentState \<Rightarrow> TorrentAddedOk) \<Rightarrow> MetaInfo
    \<Rightarrow> (ShaHash + TorrentId \<times> TorrentState) \<times> TorrentPool \<Rightarrow> ('f, 'c) BitTorrent \<Rightarrow> ('f, 'c) BitTorrent" where
  "add_result ok torrent res b =
     (case res of
        (Inr (tid, actual_state), p) \<Rightarrow>
          (enqueue (GenerateEvent (TorrentAddedResult (Inr (ok tid actual_state)))) (b\<lparr>pool := p\<rparr>))
            \<lparr>disk_manager := dm_add_torrent tid torrent (disk_manager b)\<rparr>
      | (Inl info_hash, p) \<Rightarrow>
          enqueue (GenerateEvent (TorrentAddedResult (Inl (AlreadyExist info_hash torrent)))) (b\<lparr>pool := p\<rparr>))"

definition add_leech :: "bool \<Rightarrow> Instant \<Rightarrow> MetaInfo \<Rightarrow> TorrentState \<Rightarrow> ('f, 'c) BitTorrent \<Rightarrow> ('f, 'c) BitTorrent panics" where
  "add_leech checks t_now torrent state b = do {
     config \<leftarrow> new_leech checks torrent state;
     Some (add_result NewLeech torrent (add_torrent t_now config (pool b)) b)
   }"

definition add_seed :: "bool \<Rightarrow> Instant \<Rightarrow> TorrentSeed \<Rightarrow> TorrentState \<Rightarrow> ('f, 'c) BitTorrent \<Rightarrow> ('f, 'c) BitTorrent panics" where
  "add_seed checks t_now seed state b = do {
     config \<leftarrow> new_seed checks (ts_torrent seed) state;
     Some (add_result NewSeed (ts_torrent seed) (add_torrent t_now config (pool b)) b)
   }"

text \<open>The operations that are not implemented panic.\<close>

definition bt_remove_torrent :: "ShaHash \<Rightarrow> ('f, 'c) BitTorrent \<Rightarrow> ('f, 'c) BitTorrent panics" where
  "bt_remove_torrent info_hash b = None"

definition pause_torrent :: "ShaHash \<Rightarrow> ('f, 'c) BitTorrent \<Rightarrow> ('f, 'c) BitTorrent panics" where
  "pause_torrent info_hash b = None"

definition restart_torrent :: "ShaHash \<Rightarrow> ('f, 'c) BitTorrent \<Rightarrow> ('f, 'c) BitTorrent panics" where
  "restart_torrent info_hash b = None"

definition on_remote_timeout :: "('f, 'c) BitTorrent \<Rightarrow> PeerId \<Rightarrow> BitTorrentEvent option" where
  "on_remote_timeout b peer_id = None"

section \<open>Events of the swarm\<close>

definition new_handler :: "('s, TorrentId) BitTorrentHandler" where
  "new_handler = seed_and_leech"

definition addresses_of_peer :: "PeerId \<Rightarrow> ('f, 'c) BitTorrent \<Rightarrow> Multiaddr list" where
  "addresses_of_peer peer_id b =
     (case hm_get (known_peers b) peer_id of Some (addr, _) \<Rightarrow> [addr] | None \<Rightarrow> [])"

definition inject_connected :: "PeerId \<Rightarrow> ConnectedPoint \<Rightarrow> ('f, 'c) BitTorrent \<Rightarrow> ('f, 'c) BitTorrent" where
  "inject_connected peer_id endpoint b =
     (let b1 =
        (case endpoint of
           Dialer \<Rightarrow>
             (case hm_get (pending_handshakes b) peer_id of
                Some hash \<Rightarrow> send_handshake hash peer_id (b\<lparr>pending_handshakes := hm_remove peer_id (pending_handshakes b)\<rparr>)
              | None \<Rightarrow> b)
         | Listener send_back_addr \<Rightarrow> snd (add_address_torrents peer_id send_back_addr [] b))
      in b1\<lparr>connected_peers := insert peer_id (connected_peers b1)\<rparr>)"

definition inject_disconnected :: "PeerId \<Rightarrow> ('f, 'c) BitTorrent \<Rightarrow> ('f, 'c) BitTorrent" where
  "inject_disconnected peer_id b =
     b\<lparr>pool := snd (remove_peer peer_id (pool b)), connected_peers := connected_peers b - {peer_id}\<rparr>"

section \<open>Events of the handlers\<close>

definition inject_handshake_req ::
  "Instant \<Rightarrow> PeerId \<Rightarrow> Handshake \<Rightarrow> BitTorrentRequestId \<Rightarrow> ('f, 'c) BitTorrent \<Rightarrow> ('f, 'c) BitTorrent" where
  [simp]: "inject_handshake_req t_now peer_id handshake request_id b =
     (case on_handshake_request t_now peer_id handshake (pool b) of
        (Inr handshake', p) \<Rightarrow>
          enqueue (SendEvent peer_id (BitTorrentHandlerIn.HandshakeRes handshake' request_id)) (b\<lparr>pool := p\<rparr>)
      | (Inl err, p) \<Rightarrow>
          enqueue (SendEvent peer_id (Disconnect None))
            (enqueue (GenerateEvent (HandshakeResult (Inl err))) (b\<lparr>pool := p\<rparr>)))"

definition inject_handshake_res ::
  "Instant \<Rightarrow> PeerId \<Rightarrow> Handshake \<Rightarrow> TorrentId \<Rightarrow> ('f, 'c) BitTorrent \<Rightarrow> ('f, 'c) BitTorrent" where
  [simp]: "inject_handshake_res t_now peer_id handshake user_data b =
     (case on_handshake_response t_now peer_id user_data handshake (pool b) of
        (Inr (ok, index_field), p) \<Rightarrow>
          enqueue (GenerateEvent (HandshakeResult (Inr ok)))
            (enqueue (SendEvent peer_id (BitTorrentHandlerIn.BitfieldReq index_field user_data)) (b\<lparr>pool := p\<rparr>))
      | (Inl e, p) \<Rightarrow> enqueue (GenerateEvent (HandshakeResult (Inl e))) (b\<lparr>pool := p\<rparr>))"

definition inject_bitfield_req ::
  "PeerId \<Rightarrow> BitField \<Rightarrow> BitTorrentRequestId \<Rightarrow> ('f, 'c) BitTorrent \<Rightarrow> ('f, 'c) BitTorrent" where
  [simp]: "inject_bitfield_req peer_id index_field request_id b =
     (case on_bitfield_request peer_id index_field (pool b) of
        (Some own_field, p) \<Rightarrow>
          enqueue (SendEvent peer_id (BitTorrentHandlerIn.BitfieldRes own_field request_id)) (b\<lparr>pool := p\<rparr>)
      | (None, p) \<Rightarrow> enqueue (SendEvent peer_id (Disconnect None)) (b\<lparr>pool := p\<rparr>))"

definition inject_bitfield_res ::
  "PeerId \<Rightarrow> BitField \<Rightarrow> TorrentId \<Rightarrow> ('f, 'c) BitTorrent \<Rightarrow> ('f, 'c) BitTorrent panics" where
  [simp]: "inject_bitfield_res peer_id index_field user_data b =
     (case set_peer_bitfield peer_id user_data index_field (pool b) of
        (True, p) \<Rightarrow> do {
          interesting \<leftarrow> is_remote_interesting p user_data peer_id;
          if interesting then
            (case pool_set_client_interest user_data peer_id InterestType.Interested p of (_, p') \<Rightarrow>
               Some (enqueue (SendEvent peer_id (BitTorrentHandlerIn.Interest InterestType.Interested))
                 (enqueue (GenerateEvent (BitfieldResult (Inr \<lparr>bo_torrent = user_data, bo_peer = peer_id\<rparr>)))
                   (b\<lparr>pool := p'\<rparr>))))
          else Some (b\<lparr>pool := p\<rparr>)
        }
      | (False, p) \<Rightarrow> Some (enqueue (GenerateEvent (BitfieldResult (Inl (NotFound peer_id)))) (b\<lparr>pool := p\<rparr>)))"

definition inject_get_piece_req ::
  "PeerId \<Rightarrow> PeerRequest \<Rightarrow> BitTorrentRequestId \<Rightarrow> ('f, 'c) BitTorrent \<Rightarrow> ('f, 'c) BitTorrent" where
  [simp]: "inject_get_piece_req peer_id request request_id b =
     (case on_piece_request peer_id (BlockMetadata_from_request request) request_id (pool b) of
        (Inr (tid, block_metadata), p) \<Rightarrow>
          b\<lparr>pool := p, disk_manager := read_block tid block_metadata (disk_manager b)\<rparr>
      | (Inl (peer_id', block_metadata, request_id'), p) \<Rightarrow>
          enqueue (GenerateEvent (SeedBlockResult (Inl (RemoteNotAllowed peer_id' block_metadata))))
            (enqueue (SendEvent peer_id' (Reset request_id')) (b\<lparr>pool := p\<rparr>)))"

definition inject_get_piece_res ::
  "PeerId \<Rightarrow> Piece \<Rightarrow> TorrentId \<Rightarrow> ('f, 'c) BitTorrent \<Rightarrow> ('f, 'c) BitTorrent" where
  [simp]: "inject_get_piece_res peer_id piece user_data b =
     (case on_block_response user_data peer_id (Block_from_piece piece) (pool b) of
        (Inr block_metadata, p) \<Rightarrow>
          enqueue (GenerateEvent (LeechBlockResult (Inr
            \<lparr>bk_peer = peer_id, bk_block_metadata = block_metadata, bk_torrent = user_data\<rparr>))) (b\<lparr>pool := p\<rparr>)
      | (Inl err, p) \<Rightarrow> enqueue (GenerateEvent (LeechBlockResult (Inl err))) (b\<lparr>pool := p\<rparr>))"

definition inject_cancel_piece ::
  "PeerId \<Rightarrow> PeerRequest \<Rightarrow> BitTorrentRequestId \<Rightarrow> ('f, 'c) BitTorrent \<Rightarrow> ('f, 'c) BitTorrent" where
  [simp]: "inject_cancel_piece peer_id request request_id b =
     (case on_cancel_request request_id (pool b) of
        (Some _, p) \<Rightarrow>
          enqueue (GenerateEvent (SeedBlockResult (Inr
            (CancelledByRemote peer_id (BlockMetadata_from_request request))))) (b\<lparr>pool := p\<rparr>)
      | (None, p) \<Rightarrow> enqueue (GenerateEvent (SeedBlockResult (Inl (SeedNotFound peer_id)))) (b\<lparr>pool := p\<rparr>))"

definition inject_choke ::
  "PeerId \<Rightarrow> ChokeType \<Rightarrow> ('f, 'c) BitTorrent \<Rightarrow> ('f, 'c) BitTorrent" where
  [simp]: "inject_choke peer_id inner b =
     (case on_choke_by_remote peer_id inner (pool b) of
        (Some (torrent_id, old_choke_ty), p) \<Rightarrow>
          enqueue (GenerateEvent (ChokeResult (Inr
            \<lparr>co_torrent = torrent_id, co_peer = peer_id, co_old_choke_ty = old_choke_ty, co_new_choke_ty = inner\<rparr>)))
            (b\<lparr>pool := p\<rparr>)
      | (None, p) \<Rightarrow> enqueue (GenerateEvent (ChokeResult (Inl (NotFound peer_id)))) (b\<lparr>pool := p\<rparr>))"

definition inject_interest ::
  "PeerId \<Rightarrow> InterestType \<Rightarrow> ('f, 'c) BitTorrent \<Rightarrow> ('f, 'c) BitTorrent" where
  [simp]: "inject_interest peer_id inner b =
     (case on_interest_by_remote peer_id inner (pool b) of
        (interest, p) \<Rightarrow> enqueue (GenerateEvent (InterestResult interest)) (b\<lparr>pool := p\<rparr>))"

definition inject_have ::
  "PeerId \<Rightarrow> u32 \<Rightarrow> ('f, 'c) BitTorrent \<Rightarrow> ('f, 'c) BitTorrent" where
  [simp]: "inject_have peer_id index b =
     (case on_remote_have peer_id (unat index) (pool b) of
        (Some True, p) \<Rightarrow>
          enqueue (GenerateEvent (HaveResult (Inr \<lparr>ho_peer = peer_id, ho_piece = index\<rparr>))) (b\<lparr>pool := p\<rparr>)
      | (Some False, p) \<Rightarrow> enqueue (GenerateEvent (HaveResult (Inl (InvalidIndex index)))) (b\<lparr>pool := p\<rparr>)
      | (None, p) \<Rightarrow> enqueue (GenerateEvent (HaveResult (Inl (HaveNotFound peer_id)))) (b\<lparr>pool := p\<rparr>))"

fun inject_node_event ::
  "Instant \<Rightarrow> PeerId \<Rightarrow> TorrentId BitTorrentHandlerEvent \<Rightarrow> ('f, 'c) BitTorrent \<Rightarrow> ('f, 'c) BitTorrent panics" where
  "inject_node_event t_now peer_id (BitTorrentHandlerEvent.HandshakeReq handshake request_id) b =
     Some (inject_handshake_req t_now peer_id handshake request_id b)"
| "inject_node_event t_now peer_id (BitTorrentHandlerEvent.HandshakeRes handshake user_data) b =
     Some (inject_handshake_res t_now peer_id handshake user_data b)"
| "inject_node_event t_now peer_id (BitTorrentHandlerEvent.BitfieldReq index_field request_id) b =
     Some (inject_bitfield_req peer_id index_field request_id b)"
| "inject_node_event t_now peer_id (BitTorrentHandlerEvent.BitfieldRes index_field user_data) b =
     inject_bitfield_res peer_id index_field user_data b"
| "inject_node_event t_now peer_id (BitTorrentHandlerEvent.GetPieceReq request request_id) b =
     Some (inject_get_piece_req peer_id request request_id b)"
| "inject_node_event t_now peer_id (BitTorrentHandlerEvent.GetPieceRes piece user_data) b =
     Some (inject_get_piece_res peer_id piece user_data b)"
| "inject_node_event t_now peer_id (BitTorrentHandlerEvent.CancelPiece request request_id) b =
     Some (inject_cancel_piece peer_id request request_id b)"
| "inject_node_event t_now peer_id (BitTorrentHandlerEvent.Choke inner) b =
     Some (inject_choke peer_id inner b)"
| "inject_node_event t_now peer_id (BitTorrentHandlerEvent.Interest inner) b =
     Some (inject_interest peer_id inner b)"
| "inject_node_event t_now peer_id (BitTorrentHandlerEvent.Have index) b =
     Some (inject_have peer_id index b)"
| "inject_node_event t_now peer_id (BitTorrentHandlerEvent.KeepAlive timestamp) b =
     Some (case on_keep_alive_by_remote peer_id timestamp (pool b) of
        (res, p) \<Rightarrow> enqueue (GenerateEvent (KeepAliveResult res)) (b\<lparr>pool := p\<rparr>))"
| "inject_node_event t_now peer_id (TorrentErr _ _) b = Some b"

section \<open>Polling\<close>

text \<open>The loop that advances the pool; \<^verbatim>\<open>Some\<close> action ends the whole poll.\<close>

fun pool_loop ::
  "('f, 'e, 'w, 'c) bt_env \<Rightarrow> nat \<Rightarrow> Instant \<Rightarrow> ('f, 'c) BitTorrent \<Rightarrow> 'w
    \<Rightarrow> (NetworkBehaviourAction option \<times> ('f, 'c) BitTorrent) panics option" where
  "pool_loop env 0 now b w = None"
| "pool_loop env (Suc fuel) now b w =
     (case pool_poll (be_shuffle env w) now (be_clock env w) (pool b) of
        None \<Rightarrow> Some None
      | Some (st, p) \<Rightarrow>
          let b1 = b\<lparr>pool := p\<rparr> in
          case st of
            Idle \<Rightarrow> Some (Some (None, b1))
          | Timeout _ peer \<Rightarrow>
              (case on_remote_timeout b1 peer of
                 Some event \<Rightarrow> Some (Some (Some (GenerateEvent event), b1))
               | None \<Rightarrow> pool_loop env fuel now b1 w)
          | PieceReady (Inr (torrent_id, piece)) \<Rightarrow>
              pool_loop env fuel now (b1\<lparr>disk_manager := write_block torrent_id piece (disk_manager b1)\<rparr>) w
          | PieceReady (Inl _) \<Rightarrow> pool_loop env fuel now b1 w
          | TorrentPoolState.KeepAlive _ peer_id \<Rightarrow> Some (Some (Some (SendEvent peer_id BitTorrentHandlerIn.KeepAlive), b1))
          | Waiting _ \<Rightarrow> Some (Some (None, b1))
          | TorrentPoolState.Finished torrent_id \<Rightarrow>
              Some (Some (Some (GenerateEvent (TorrentFinished torrent_id)), b1))
          | TorrentPoolState.NextBlock block \<Rightarrow>
              Some (Some (Some (SendEvent (nb_peer_id block)
                (BitTorrentHandlerIn.GetPieceReq (BlockMetadata_into_request (nb_block_metadata block)) (nb_torrent_id block))), b1)))"

text \<open>A piece that was written is acknowledged, and a \<^verbatim>\<open>Have\<close> is queued for every peer of the torrent.\<close>

definition on_piece_written :: "TorrentId \<Rightarrow> Block \<Rightarrow> ('f, 'c) BitTorrent \<Rightarrow> ('f, 'c) BitTorrent" where
  "on_piece_written torrent_id block b =
     (case on_torrent torrent_id (t_set_piece (bm_piece_index (bl_metadata block))) (pool b) of
        (Some _, p) \<Rightarrow>
          (case hm_get (torrents p) torrent_id of
             Some torrent \<Rightarrow>
               b\<lparr>pool := p, queued_events := queued_events b @
                  map (\<lambda>peer. SendEvent peer (BitTorrentHandlerIn.Have (word_of_nat (bm_piece_index (bl_metadata block)))))
                    (iter_peer_ids torrent)\<rparr>
           | None \<Rightarrow> b\<lparr>pool := p\<rparr>)
      | (None, p) \<Rightarrow> b\<lparr>pool := p\<rparr>)"

text \<open>What a message of the disk manager leads to; \<^verbatim>\<open>Some\<close> action ends the whole poll.\<close>

fun on_disk_message ::
  "DiskMessageOut \<Rightarrow> ('f, 'c) BitTorrent \<Rightarrow> NetworkBehaviourAction option \<times> ('f, 'c) BitTorrent" where
  "on_disk_message (TorrentAdded _) b = (None, b)"
| "on_disk_message (TorrentRemoved _ _) b = (None, b)"
| "on_disk_message (TorrentSynced tid) b =
     (None, enqueue (GenerateEvent (DiskResult (Inr (TorrentSynced tid)))) b)"
| "on_disk_message (BlockRead torrent block) b =
     (case on_block_read torrent (bl_metadata block) (pool b) of
        (Some (peer_id, request_id), p) \<Rightarrow>
          (None, enqueue (SendEvent peer_id (BitTorrentHandlerIn.GetPieceRes (Block_into_piece block) request_id)) (b\<lparr>pool := p\<rparr>))
      | (None, p) \<Rightarrow> (None, b\<lparr>pool := p\<rparr>))"
| "on_disk_message (PieceWritten torrent_id block) b = (None, on_piece_written torrent_id block b)"
| "on_disk_message (TorrentError _ _) b = (None, b)"
| "on_disk_message (ReadBlockError tid err) b =
     (Some (GenerateEvent (DiskResult (Inr (ReadBlockError tid err)))), b)"
| "on_disk_message (WriteBlockError _ _) b = (None, b)"
| "on_disk_message (MovedTorrent _ _) b = (None, b)"

text \<open>The loop that drains the disk manager.\<close>

fun disk_loop ::
  "('f, 'e, 'w, 'c) bt_env \<Rightarrow> nat \<Rightarrow> ('f, 'c) BitTorrent \<Rightarrow> 'w
    \<Rightarrow> (NetworkBehaviourAction option \<times> ('f, 'c) BitTorrent \<times> 'w) panics option" where
  "disk_loop env 0 b w = None"
| "disk_loop env (Suc fuel) b w =
     (case dm_poll (be_disk env) (Suc fuel) (disk_manager b) w of
        None \<Rightarrow> None
      | Some None \<Rightarrow> Some None
      | Some (Some (Pending, dm, w1)) \<Rightarrow> Some (Some (None, b\<lparr>disk_manager := dm\<rparr>, w1))
      | Some (Some (poll.Ready event, dm, w1)) \<Rightarrow>
          (case on_disk_message event (b\<lparr>disk_manager := dm\<rparr>) of
             (Some action, b1) \<Rightarrow> Some (Some (Some action, b1, w1))
           | (None, b1) \<Rightarrow> disk_loop env fuel b1 w1))"

fun poll_rounds ::
  "('f, 'e, 'w, 'c) bt_env \<Rightarrow> nat \<Rightarrow> Instant \<Rightarrow> ('f, 'c) BitTorrent \<Rightarrow> 'w
    \<Rightarrow> (NetworkBehaviourAction poll \<times> ('f, 'c) BitTorrent \<times> 'w) panics option" where
  "poll_rounds env 0 now b w = None"
| "poll_rounds env (Suc fuel) now b w =
     (case queued_events b of
        event # rest \<Rightarrow> Some (Some (poll.Ready event, b\<lparr>queued_events := rest\<rparr>, w))
      | [] \<Rightarrow>
          (case pool_loop env (Suc fuel) now b w of
             None \<Rightarrow> None
           | Some None \<Rightarrow> Some None
           | Some (Some (Some action, b1)) \<Rightarrow> Some (Some (poll.Ready action, b1, w))
           | Some (Some (None, b1)) \<Rightarrow>
               (case disk_loop env (Suc fuel) b1 w of
                  None \<Rightarrow> None
                | Some None \<Rightarrow> Some None
                | Some (Some (Some action, b2, w2)) \<Rightarrow> Some (Some (poll.Ready action, b2, w2))
                | Some (Some (None, b2, w2)) \<Rightarrow>
                    if queued_events b2 = [] then Some (Some (Pending, b2, w2))
                    else poll_rounds env fuel now b2 w2)))"

definition bt_poll ::
  "('f, 'e, 'w, 'c) bt_env \<Rightarrow> nat \<Rightarrow> ('f, 'c) BitTorrent \<Rightarrow> 'w
    \<Rightarrow> (NetworkBehaviourAction poll \<times> ('f, 'c) BitTorrent \<times> 'w) panics option" where
  "bt_poll env fuel b w = poll_rounds env fuel (be_clock env w) b w"

section \<open>Specification\<close>

text \<open>
  The states of a behaviour: calls of the user, events of the swarm and of the handlers, polls
  that return, and a change of the order in which the table of torrents is iterated.
\<close>

inductive bt_reachable :: "('f, 'e, 'w, 'c) bt_env \<Rightarrow> ('f, 'c) BitTorrent \<Rightarrow> bool" for env where
  bt_start: "bt_reachable env (with_config empty_cache random_hash peer_id config)"
| bt_address: "bt_reachable env b \<Longrightarrow> bt_reachable env (snd (add_address_torrents peer addr hashes b))"
| bt_dial: "bt_reachable env b \<Longrightarrow> bt_reachable env (snd (handshake_known_peer peer hash b))"
| bt_choke: "bt_reachable env b \<Longrightarrow> bt_reachable env (choke_peer peer b)"
| bt_unchoke: "bt_reachable env b \<Longrightarrow> bt_reachable env (unchoke_peer peer b)"
| bt_leech: "bt_reachable env b \<Longrightarrow> add_leech checks t_now mi st b = Some b' \<Longrightarrow> bt_reachable env b'"
| bt_seed: "bt_reachable env b \<Longrightarrow> add_seed checks t_now seed st b = Some b' \<Longrightarrow> bt_reachable env b'"
| bt_connected: "bt_reachable env b \<Longrightarrow> bt_reachable env (inject_connected peer endpoint b)"
| bt_disconnected: "bt_reachable env b \<Longrightarrow> bt_reachable env (inject_disconnected peer b)"
| bt_event: "bt_reachable env b \<Longrightarrow> inject_node_event t_now peer ev b = Some b' \<Longrightarrow> bt_reachable env b'"
| bt_polled: "bt_reachable env b \<Longrightarrow> bt_poll env fuel b w = Some (Some (res, b', w')) \<Longrightarrow> bt_reachable env b'"
| bt_rehash: "bt_reachable env b \<Longrightarrow> mset ts = mset (torrents (pool b)) \<Longrightarrow>
    bt_reachable env (b\<lparr>pool := (pool b)\<lparr>torrents := ts\<rparr>\<rparr>)"

text \<open>A file system whose files hold the content, and the environment over it.\<close>

definition served_files :: "(MemFile, unit, nat list) FileSystem" where
  "served_files = mem_fs\<lparr>poll_open_file := \<lambda>p w. (poll.Ready (Inr \<lparr>mf_bytes = [1, 2, 3, 4], mf_pos = 0\<rparr>), w)\<rparr>"

definition bt_demo :: "(MemFile, unit, nat list, (TorrentFileId \<times> MemFile FileState) list) bt_env" where
  "bt_demo = \<lparr>be_disk = (disk_demo (lru_of 100))\<lparr>de_fs := served_files\<rparr>, be_clock = (\<lambda>_. 0), be_shuffle = (\<lambda>_ xs. xs)\<rparr>"

text \<open>
  A client that seeds one file over a file system whose files hold the content, with its peers, its
  disk jobs and its queue.
\<close>

definition demo_peer :: "ChokeType \<Rightarrow> InterestType \<Rightarrow> BitTorrentPeer" where
  "demo_peer ch i = (BitTorrentPeer_new 0 [2])\<lparr>client_choke := ch, remote_interest := i\<rparr>"

definition seeder :: "(PeerId, BitTorrentPeer) hash_map \<Rightarrow> TorrentFile list \<Rightarrow> DiskMessageIn list
    \<Rightarrow> NetworkBehaviourAction list \<Rightarrow> (MemFile, (TorrentFileId \<times> MemFile FileState) list) BitTorrent" where
  "seeder peers ts jobs q =
     (with_config [] [] 0 BitTorrentConfig_default)
       \<lparr>pool := (TorrentPool_new [] 0 BitTorrentConfig_default)
          \<lparr>torrents := [(TorrentId 0, Torrent_new 0 (TorrentId 0) []
             ((TorrentPieceHandler_new (TorrentId 0) Random [True, True] 2 2)\<lparr>ph_peers := peers\<rparr>) SeedOnly Active)],
           next_unique_torrent := 1\<rparr>,
        disk_manager := (with_capacity [])\<lparr>dm_torrents := ts, dm_queued_events := jobs\<rparr>, queued_events := q\<rparr>"

definition served_file :: TorrentFile where
 "served_file = \<lparr>tfl_id = TorrentId 0, tfl_meta_info = one_file,
      tfl_files = [\<lparr>fe_path = [[99]], fe_id = TorrentFileId_new (TorrentId 0) (FileId 0), fe_offset = 0, fe_size = 4\<rparr>]\<rparr>"

text \<open>A pool that has nothing to do: polling it changes nothing.\<close>

definition pool_quiet :: "('f, 'e, 'w, 'c) bt_env \<Rightarrow> 'w \<Rightarrow> TorrentPool \<Rightarrow> bool" where
  "pool_quiet env w p \<longleftrightarrow> pool_poll (be_shuffle env w) (be_clock env w) (be_clock env w) p = Some (Idle, p)"

definition disk_idle :: "('f, 'c) DiskManager \<Rightarrow> bool" where
  "disk_idle dm \<longleftrightarrow> dm_active_blocks dm = [] \<and> dm_queued_events dm = []"

text \<open>The piece counts as owned: its bit is set wherever the bitfield has one.\<close>

definition marked_owned :: "Torrent \<Rightarrow> usize \<Rightarrow> bool" where
  "marked_owned t i \<longleftrightarrow> (i < length (t_bitfield t) \<longrightarrow> t_bitfield t ! i)"

text \<open>The pool reports a finished piece and is quiet after it.\<close>

definition piece_finishes :: "('f, 'e, 'w, 'c) bt_env \<Rightarrow> 'w \<Rightarrow> TorrentPool \<Rightarrow> TorrentId \<Rightarrow> Block \<Rightarrow> TorrentPool \<Rightarrow> bool" where
  "piece_finishes env w p tid piece p1 \<longleftrightarrow>
     pool_poll (be_shuffle env w) (be_clock env w) (be_clock env w) p = Some (PieceReady (Inr (tid, piece)), p1) \<and>
     pool_quiet env w p1"

text \<open>A client that has received all of the first piece of the file, and what its pool becomes.\<close>

definition leech_pool :: "PieceBuffer option \<Rightarrow> BitField \<Rightarrow> TorrentPool" where
  "leech_pool buf bits = (TorrentPool_new [] 0 BitTorrentConfig_default)
     \<lparr>torrents := [(TorrentId 0, Torrent_new 0 (TorrentId 0) []
        ((TorrentPieceHandler_new (TorrentId 0) Random bits 2 2)
           \<lparr>ph_peers := [(1, (demo_peer UnChoked InterestType.Interested)\<lparr>bp_bitfield := Some [True, False]\<rparr>)],
            ph_piece_buffer := buf\<rparr>) SeedAndLeech Active)],
      next_unique_torrent := 1\<rparr>"

definition leecher :: "u8 list \<Rightarrow> (MemFile, (TorrentFileId \<times> MemFile FileState) list) BitTorrent" where
  "leecher data = (seeder [] [served_file] [] [])\<lparr>pool := leech_pool (Some
     ((PieceBuffer_new 0 2 (TorrentId 0) [1])\<lparr>pb_missing_blocks := [], 
        pb_blocks := [(0, Block_new (BlockMetadata_new 0 0 2) data)]\<rparr>)) [False, False]\<rparr>"

section \<open>The components under the behaviour\<close>

text \<open>
  What a property of the pool and the disk manager together has to satisfy to hold in every state
  of the behaviour: it survives every step of the pool that adds no torrent, adding a torrent to
  both, queueing a read or a write, and polling the disk.
\<close>

locale behaviour_invariant =
  fixes env :: "('f, 'e, 'w, 'c) bt_env" and P :: "TorrentPool \<Rightarrow> ('f, 'c) DiskManager \<Rightarrow> bool"
  assumes start_ok: "P (TorrentPool_new random_hash peer_id config) (with_capacity c)"
    and pool_ok: "P p d \<Longrightarrow> pool_step p p' \<Longrightarrow> next_unique_torrent p' = next_unique_torrent p \<Longrightarrow> P p' d"
    and add_ok: "P p d \<Longrightarrow> add_torrent t_now cfg p = (Inr (tid, st), p') \<Longrightarrow> P p' (dm_add_torrent tid mi d)"
    and read_ok: "P p d \<Longrightarrow> P p (read_block tid m d)"
    and write_ok: "P p d \<Longrightarrow> P p (write_block tid block d)"
    and disk_ok: "P p d \<Longrightarrow> dm_poll (be_disk env) fuel d w = Some (Some (out, d', w')) \<Longrightarrow> P p d'"

lemma next_unique_keep [simp]:
  "next_unique_torrent (snd (on_first f p)) = next_unique_torrent p"
  "next_unique_torrent (snd (on_torrent tid g p)) = next_unique_torrent p"
  by (auto simp: on_first_def on_torrent_def split: prod.splits option.splits)

text \<open>The remaining operations of the pool as one visit of a torrent.\<close>

lemma more_pool_states:
  "snd (on_handshake_request t_now peer hs p) =
     (if is_associated p peer then p
      else snd (on_first (\<lambda>t. if t_info_hash t = hs_info_hash hs
             then (case on_handler (insert_peer peer (BitTorrentPeer_new t_now (hs_peer_id hs))) t of (_, t') \<Rightarrow> (Some (), t'))
             else (None, t)) p))"
  "snd (on_handshake_response t_now peer tid hs p) =
     snd (on_torrent tid (\<lambda>t. if t_info_hash t = hs_info_hash hs
             then (case on_handler (insert_peer peer (BitTorrentPeer_new t_now (hs_peer_id hs))) t of
                     (_, t') \<Rightarrow> (Inr (HandshakeOk peer, t_bitfield t') :: HandshakeError + HandshakeOk \<times> BitField, t'))
             else (Inl (InfoHashMismatch peer (Some tid)), t)) p)"
  "snd (on_piece_request peer m rid p) =
     snd (on_first (\<lambda>t. if can_seed_piece_to t peer (bm_piece_index m)
             then (Some (), t\<lparr>t_piece_handler := insert_block_seed peer m rid (t_piece_handler t)\<rparr>)
             else (None, t)) p)"
  by (auto simp: on_handshake_request_def on_handshake_response_def on_piece_request_def
      split: prod.splits option.splits)

lemma pool_poll_next: "pool_poll shuffle now t_now p = Some (st, p') \<Longrightarrow> next_unique_torrent p' = next_unique_torrent p"
  by (auto simp: pool_poll_def bind_eq_Some_conv)

lemma enqueue_frame [simp]:
  "pool (enqueue a b) = pool b" "disk_manager (enqueue a b) = disk_manager b"
  "queued_events (enqueue a b) = queued_events b @ [a]" "connected_peers (enqueue a b) = connected_peers b"
  by (simp_all add: enqueue_def)

context behaviour_invariant
begin

lemma pool_ops:
  assumes "P p d"
  shows "P (snd (unchoke_remote peer p)) d" "P (snd (choke_remote peer p)) d"
    "P (snd (pool_set_client_interest tid peer i p)) d" "P (snd (on_handshake_request t_now peer hs p)) d"
    "P (snd (on_handshake_response t_now peer tid hs p)) d" "P (snd (on_choke_by_remote peer ch p)) d"
    "P (snd (on_keep_alive_by_remote peer hb p)) d" "P (snd (on_interest_by_remote peer i p)) d"
    "P (snd (on_piece_request peer m rid p)) d" "P (snd (on_block_response tid peer blk p)) d"
    "P (snd (on_cancel_request rid p)) d" "P (snd (on_block_read tid m p)) d"
    "P (snd (on_remote_have peer n p)) d" "P (snd (set_peer_bitfield peer tid bf p)) d"
    "P (snd (on_bitfield_request peer bf p)) d" "P (snd (remove_peer peer p)) d"
    "P (snd (on_torrent tid (t_set_piece n) p)) d"
  by (rule pool_ok [OF assms], rule pool_step.intros, simp add: pool_states more_pool_states)+

lemma add_result_ok:
  assumes "P (pool b) (disk_manager b)"
  shows "P (pool (add_result ok mi (add_torrent t_now cfg (pool b)) b))
    (disk_manager (add_result ok mi (add_torrent t_now cfg (pool b)) b))"
proof (cases "add_torrent t_now cfg (pool b)")
  case (Pair r p)
  show ?thesis
  proof (cases r)
    case (Inl h)
    with Pair have "p = pool b" by (auto simp: add_torrent_def Let_def split: if_splits)
    with assms Pair Inl show ?thesis by (simp add: add_result_def)
  next
    case (Inr q)
    obtain tid st where "q = (tid, st)" by (cases q)
    with Pair Inr add_ok [OF assms, of t_now cfg tid st p mi] show ?thesis by (simp add: add_result_def)
  qed
qed

lemma event_ok:
  assumes "P (pool b) (disk_manager b)" and "inject_node_event t_now peer ev b = Some b'"
  shows "P (pool b') (disk_manager b')"
proof -
  note ops = pool_ops [OF assms(1)]
  show ?thesis
  proof (cases ev)
    case (HandshakeReq hs r)
    with assms(2) ops(4) [of t_now peer hs] show ?thesis by (auto split: prod.splits sum.splits)
  next
    case (HandshakeRes hs u)
    with assms(2) ops(5) [of t_now peer u hs] show ?thesis by (auto split: prod.splits sum.splits)
  next
    case (BitfieldReq bf r)
    with assms(2) ops(15) [of peer bf] show ?thesis by (auto split: prod.splits option.splits)
  next
    case (BitfieldRes bf u)
    obtain ok p where s: "set_peer_bitfield peer u bf (pool b) = (ok, p)" by fastforce
    with ops(14) [of peer u bf] have p: "P p (disk_manager b)" by simp
    from BitfieldRes assms(2) s p pool_ops(3) [OF p, of u peer InterestType.Interested] show ?thesis
      by (auto simp: bind_eq_Some_conv split: bool.splits if_splits prod.splits)
  next
    case (GetPieceReq req r)
    with assms(2) ops(9) [of peer "BlockMetadata_from_request req" r] read_ok show ?thesis
      by (auto split: prod.splits sum.splits)
  next
    case (GetPieceRes pc u)
    with assms(2) ops(10) [of u peer "Block_from_piece pc"] show ?thesis by (auto split: prod.splits sum.splits)
  next
    case (CancelPiece req r)
    with assms(2) ops(11) [of r] show ?thesis by (auto split: prod.splits option.splits)
  next
    case (Choke c)
    with assms(2) ops(6) [of peer c] show ?thesis by (auto split: prod.splits option.splits)
  next
    case (Interest i)
    with assms(2) ops(8) [of peer i] show ?thesis by (auto split: prod.splits)
  next
    case (Have n)
    with assms(2) ops(13) [of peer "unat n"] show ?thesis by (auto split: prod.splits option.splits bool.splits)
  next
    case (KeepAlive ts)
    with assms(2) ops(7) [of peer ts] show ?thesis by (auto split: prod.splits)
  qed (use assms in simp)
qed

lemma disk_message_ok:
  assumes "P (pool b) (disk_manager b)" and "on_disk_message msg b = (a, b')"
  shows "P (pool b') (disk_manager b')"
proof (cases msg)
  case (BlockRead tid block)
  with assms pool_ops(12) [OF assms(1), of tid "bl_metadata block"] show ?thesis
    by (auto split: prod.splits option.splits)
next
  case (PieceWritten tid block)
  with assms pool_ops(17) [OF assms(1), of tid "bm_piece_index (bl_metadata block)"] show ?thesis
    by (auto simp: on_piece_written_def split: prod.splits option.splits)
qed (use assms in auto)

lemma pool_loop_ok:
  "P (pool b) (disk_manager b) \<Longrightarrow> pool_loop env fuel now b w = Some (Some (a, b')) \<Longrightarrow> P (pool b') (disk_manager b')"
proof (induction fuel arbitrary: b)
  case (Suc fuel)
  from Suc.prems(2) obtain st p where
    pl: "pool_poll (be_shuffle env w) now (be_clock env w) (pool b) = Some (st, p)"
    by (auto split: option.splits)
  have ok: "P p (disk_manager b)"
    by (rule pool_ok [OF Suc.prems(1) p_poll [OF pl] pool_poll_next [OF pl]])
  show ?case
  proof (cases st)
    case (PieceReady r)
    show ?thesis
    proof (cases r)
      case (Inl e)
      with PieceReady pl ok Suc.prems(2) Suc.IH [of "b\<lparr>pool := p\<rparr>"] show ?thesis by (simp add: Let_def)
    next
      case (Inr tp)
      obtain tid piece where tp: "tp = (tid, piece)" by (cases tp)
      with Inr PieceReady pl ok Suc.prems(2) write_ok [OF ok, of tid piece]
        Suc.IH [of "b\<lparr>pool := p, disk_manager := write_block tid piece (disk_manager b)\<rparr>"]
      show ?thesis by (simp add: Let_def)
    qed
  next
    case (Timeout tid peer)
    with pl ok Suc.prems(2) Suc.IH [of "b\<lparr>pool := p\<rparr>"] show ?thesis
      by (simp add: Let_def on_remote_timeout_def)
  qed (use pl ok Suc.prems(2) in \<open>auto simp: Let_def\<close>)
qed simp

lemma disk_loop_ok:
  "P (pool b) (disk_manager b) \<Longrightarrow> disk_loop env fuel b w = Some (Some (a, b', w')) \<Longrightarrow> P (pool b') (disk_manager b')"
proof (induction fuel arbitrary: b w)
  case (Suc fuel)
  from Suc.prems(2) obtain out dm w1 where
    d: "dm_poll (be_disk env) (Suc fuel) (disk_manager b) w = Some (Some (out, dm, w1))"
    by (auto split: option.splits simp del: dm_poll.simps)
  note ok = disk_ok [OF Suc.prems(1) d]
  show ?case
  proof (cases out)
    case Pending
    with d ok Suc.prems(2) show ?thesis by (auto simp del: dm_poll.simps)
  next
    case (Ready msg)
    obtain a1 b1 where m: "on_disk_message msg (b\<lparr>disk_manager := dm\<rparr>) = (a1, b1)" by fastforce
    have b1: "P (pool b1) (disk_manager b1)" by (rule disk_message_ok [OF _ m]) (simp add: ok)
    from Ready m d Suc.prems(2) b1 Suc.IH [OF b1] show ?thesis
      by (cases a1) (simp_all del: dm_poll.simps)
  qed
qed simp

lemma poll_ok:
  "P (pool b) (disk_manager b) \<Longrightarrow> poll_rounds env fuel now b w = Some (Some (r, b', w')) \<Longrightarrow>
   P (pool b') (disk_manager b')"
proof (induction fuel arbitrary: b w)
  case (Suc fuel)
  show ?case
  proof (cases "queued_events b")
    case (Cons ev rest)
    with Suc.prems show ?thesis by auto
  next
    case Nil
    with Suc.prems(2) obtain a1 b1 where pl: "pool_loop env (Suc fuel) now b w = Some (Some (a1, b1))"
      by (auto split: option.splits simp del: pool_loop.simps)
    note ok1 = pool_loop_ok [OF Suc.prems(1) pl]
    show ?thesis
    proof (cases a1)
      case None
      with Nil pl Suc.prems(2) obtain a2 b2 w2 where dl: "disk_loop env (Suc fuel) b1 w = Some (Some (a2, b2, w2))"
        by (auto split: option.splits simp del: pool_loop.simps disk_loop.simps)
      note ok2 = disk_loop_ok [OF ok1 dl]
      from Nil None pl dl Suc.prems(2) ok2 Suc.IH [OF ok2] show ?thesis
        by (cases a2) (auto split: if_splits simp del: pool_loop.simps disk_loop.simps)
    qed (use Nil pl ok1 Suc.prems(2) in \<open>simp del: pool_loop.simps\<close>)
  qed
qed simp

lemma reachable_ok: "bt_reachable env b \<Longrightarrow> P (pool b) (disk_manager b)"
proof (induction rule: bt_reachable.induct)
  case (bt_choke b peer)
  with pool_ops(2) [of "pool b" "disk_manager b" peer] show ?case
    by (auto simp: choke_peer_def split: prod.splits sum.splits)
next
  case (bt_unchoke b peer)
  with pool_ops(1) [of "pool b" "disk_manager b" peer] show ?case
    by (auto simp: unchoke_peer_def split: prod.splits sum.splits)
next
  case (bt_leech b checks t_now mi st b')
  with add_result_ok show ?case by (auto simp: add_leech_def bind_eq_Some_conv)
next
  case (bt_seed b checks t_now seed st b')
  with add_result_ok show ?case by (auto simp: add_seed_def bind_eq_Some_conv)
next
  case (bt_event b t_now peer ev b')
  with event_ok show ?case by blast
next
  case (bt_polled b fuel w res b' w')
  with poll_ok show ?case by (auto simp: bt_poll_def)
next
  case (bt_rehash b ts)
  with pool_ok [OF _ p_rehash] show ?case by simp
next
  case (bt_disconnected b peer)
  with pool_ops(16) [of "pool b" "disk_manager b" peer] show ?case by (simp add: inject_disconnected_def)
next
  case (bt_connected b peer endpoint)
  then show ?case
    by (auto simp: inject_connected_def send_handshake_def add_address_torrents_def Let_def
        split: ConnectedPoint.splits option.splits prod.splits)
qed (auto simp: with_config_def start_ok add_address_torrents_def handshake_known_peer_def
    split: option.splits prod.splits)

end

text \<open>Steps of the pool that add no torrent keep the identifiers.\<close>

lemma first_hit_keys: "keys (snd (first_hit f ts)) = keys ts"
  by (induction ts) (auto split: prod.splits option.splits)

lemma on_first_keys [simp]: "keys (torrents (snd (on_first f p))) = keys (torrents p)"
  using first_hit_keys [of f "torrents p"] by (cases "first_hit f (torrents p)") (simp add: on_first_def)

lemma on_torrent_keys [simp]: "set (keys (torrents (snd (on_torrent tid f p)))) = set (keys (torrents p))"
proof (cases "hm_get (torrents p) tid")
  case (Some t)
  then have "insert tid (set (keys (torrents p))) = set (keys (torrents p))"
    by (metis hm_get_None insert_absorb option.distinct(1))
  with Some show ?thesis
    by (cases "f t") (simp add: on_torrent_def keys_hm_insert del: set_map)
qed (simp add: on_torrent_def)

lemma pool_step_keys:
  "pool_step p p' \<Longrightarrow> next_unique_torrent p' = next_unique_torrent p \<Longrightarrow>
   set (keys (torrents p')) = set (keys (torrents p))"
proof (induction rule: pool_step.induct)
  case (p_add p t_now cfg)
  then show ?case by (auto simp: add_torrent_def Let_def split: if_splits)
next
  case (p_poll shuffle now t_now p st p')
  then obtain ts where "pool_poll_loop shuffle now t_now (torrents p) = Some (st, ts)"
    and "p' = p\<lparr>torrents := ts\<rparr>" by (auto simp: pool_poll_def bind_eq_Some_conv)
  with pool_poll_loop_ok [of shuffle now t_now "torrents p" st ts] show ?case by (simp del: set_map)
next
  case (p_rehash ts p)
  then have "set ts = set (torrents p)" using mset_eq_setD by blast
  then show ?case by simp
qed (simp_all add: pool_states more_pool_states del: set_map)

text \<open>Both components add a torrent under the same new identifier.\<close>

lemma add_torrent_new:
  assumes "add_torrent t_now cfg p = (Inr (tid, st), p')"
  shows "\<exists>t. torrents p' = hm_insert tid t (torrents p)" and "tid = TorrentId (next_unique_torrent p)"
  using assms by (auto simp: add_torrent_def Let_def split: if_splits)

lemma sync_add:
  assumes pinv: "pool_inv p" and dinv: "disk_ids_inv (set (keys (torrents p))) d"
    and add: "add_torrent t_now cfg p = (Inr (tid, st), p')"
  shows "disk_ids_inv (set (keys (torrents p'))) (dm_add_torrent tid mi d)"
proof -
  from add_torrent_new(1) [OF add] obtain t where p': "torrents p' = hm_insert tid t (torrents p)" ..
  from pinv add_torrent_new(2) [OF add] have new: "tid \<notin> set (keys (torrents p))"
    by (fastforce simp: pool_inv_def)
  have k: "set (keys (torrents p')) = insert tid (set (keys (torrents p)))"
    unfolding p' by (rule keys_hm_insert)
  have ids: "disk_ids (dm_add_torrent tid mi d) = disk_ids d @ [tid]"
    "dm_queued_events (dm_add_torrent tid mi d) = dm_queued_events d @ [AddTorrent tid mi]"
    by (simp_all add: disk_ids_def dm_add_torrent_def push_event_def)
  from dinv new show ?thesis unfolding disk_ids_inv_def k ids by auto
qed

lemma sync_step:
  assumes "pool_step p p'" and "next_unique_torrent p' = next_unique_torrent p"
    and "disk_ids_inv (set (keys (torrents p))) d"
  shows "disk_ids_inv (set (keys (torrents p'))) d"
  unfolding pool_step_keys [OF assms(1,2)] by (rule assms(3))

lemma sync_start:
  "disk_ids_inv (set (keys (torrents (TorrentPool_new random_hash peer_id config)))) (with_capacity c)"
  by (simp add: TorrentPool_new_def with_capacity_def disk_ids_inv_def disk_ids_def)

interpretation sync: behaviour_invariant env "\<lambda>p d. pool_inv p \<and> disk_ids_inv (set (keys (torrents p))) d"
  for env :: "('f, 'e, 'w, 'c) bt_env"
proof unfold_locales
  show "pool_inv (TorrentPool_new random_hash peer_id config) \<and>
    disk_ids_inv (set (keys (torrents (TorrentPool_new random_hash peer_id config)))) (with_capacity c :: ('f, 'c) DiskManager)"
    for random_hash peer_id config c
    by (rule conjI [OF pool_inv_new sync_start])
next
  fix p p' and d :: "('f, 'c) DiskManager"
  assume a: "pool_inv p \<and> disk_ids_inv (set (keys (torrents p))) d" "pool_step p p'"
    "next_unique_torrent p' = next_unique_torrent p"
  show "pool_inv p' \<and> disk_ids_inv (set (keys (torrents p'))) d"
    by (rule conjI [OF pool_inv_step [OF a(2) conjunct1 [OF a(1)]] sync_step [OF a(2,3) conjunct2 [OF a(1)]]])
next
  fix p p' t_now cfg tid st mi and d :: "('f, 'c) DiskManager"
  assume a: "pool_inv p \<and> disk_ids_inv (set (keys (torrents p))) d" "add_torrent t_now cfg p = (Inr (tid, st), p')"
  have "pool_inv p'" using pool_inv_add [OF conjunct1 [OF a(1)], of t_now cfg] a(2) by simp
  with sync_add [OF conjunct1 [OF a(1)] conjunct2 [OF a(1)] a(2)]
  show "pool_inv p' \<and> disk_ids_inv (set (keys (torrents p'))) (dm_add_torrent tid mi d)" by blast
next
  fix p fuel w out d' w' and d :: "('f, 'c) DiskManager"
  assume a: "pool_inv p \<and> disk_ids_inv (set (keys (torrents p))) d"
    "dm_poll (be_disk env) fuel d w = Some (Some (out, d', w'))"
  from torrent_ids.dm_poll_inv [OF conjunct2 [OF a(1)] a(2)] a(1)
  show "pool_inv p \<and> disk_ids_inv (set (keys (torrents p))) d'" by blast
qed (simp_all only: read_block_def write_block_def disk_ids_push)

section \<open>Whole polls\<close>

lemmas pool_eval = add_torrent_def
      TorrentPool_new_def BitTorrentConfig_default_def Torrent_new_def TorrentPieceHandler_new_def
      hm_insert_def hm_get_def hm_contains_key_def on_handshake_request_def is_associated_def
      contains_peer_def on_first_def on_handler_def insert_peer_def Handshake_new_def
      BitTorrentPeer_new_def unchoke_remote_def t_unchoke_remote_def t_set_choke_for_remote_def
      with_peer_def on_interest_by_remote_def t_remote_interested_def set_interest_on_remote_def
      on_piece_request_def can_seed_piece_to_def ph_has_piece_def bv_get_def remote_can_leech_def
      peer_flags is_ready_to_seed_block_def BlockMetadata_new_def Let_def MAX_ACTIVE_TORRENTS_def iter_active_def
  insert_block_seed_def

lemmas bt_eval = add_seed_def new_seed_def last_piece_length_def into_seed_def TorrentConfigBuilder_default_def
  TorrentConfigBuilder_build_def
  new_all_set_def add_result_def enqueue_def with_config_def dm_add_torrent_def push_event_def with_capacity_def
  pool_poll_def t_poll_def ph_poll_def seeder_def demo_peer_def served_file_def dm_torrent_def bt_demo_def served_files_def bt_poll_def unchoke_peer_def
  demo_defs bv_all_def pool_eval

lemma seeder_added:
 "add_seed False 0 \<lparr>ts_path = [], ts_torrent = one_file\<rparr> Active (with_config [] [] 0 BitTorrentConfig_default) =
   Some (seeder [] [] [AddTorrent (TorrentId 0) one_file]
     [GenerateEvent (TorrentAddedResult (Inr (NewSeed (TorrentId 0) Active)))])"
  by (simp add: bt_eval)

lemma seeder_queue:
  "bt_poll bt_demo 1 (seeder peers ts jobs (ev # q)) w = Some (Some (poll.Ready ev, seeder peers ts jobs q, w))"
  by (simp add: bt_eval)

lemma seeder_disk:
  "bt_poll bt_demo 2 (seeder [] [] [AddTorrent (TorrentId 0) one_file] []) w =
     Some (Some (Pending, seeder [] [served_file] [] [], w))"
  by (simp add: bt_eval numeral_2_eq_2)

lemma seeder_handshake:
  "inject_node_event 0 1 (BitTorrentHandlerEvent.HandshakeReq (Handshake_new [] [2]) 5) (seeder [] ts jobs []) =
     Some (seeder [(1, demo_peer Choked NotInterested)] ts jobs
       [SendEvent 1 (BitTorrentHandlerIn.HandshakeRes (Handshake_new [] []) 5)])"
  by (simp add: bt_eval)

lemma seeder_unchoke:
  "unchoke_peer 1 (seeder [(1, demo_peer Choked NotInterested)] ts jobs []) =
     seeder [(1, demo_peer UnChoked NotInterested)] ts jobs [SendEvent 1 (BitTorrentHandlerIn.Choke UnChoked)]"
  by (simp add: bt_eval)

lemma seeder_interest:
  "inject_node_event 0 1 (BitTorrentHandlerEvent.Interest InterestType.Interested)
     (seeder [(1, demo_peer UnChoked NotInterested)] ts jobs []) =
     Some (seeder [(1, demo_peer UnChoked InterestType.Interested)] ts jobs [GenerateEvent (InterestResult (Inr (InterestedOk 1)))])"
  by (simp add: bt_eval)

lemma seeder_reachable:
  "bt_reachable bt_demo (seeder [] [served_file] [] [])"
  "bt_reachable bt_demo (seeder [(1, demo_peer UnChoked InterestType.Interested)] [served_file] [] [])"
proof -
  have q: "bt_reachable bt_demo (seeder peers ts jobs [ev]) \<Longrightarrow> bt_reachable bt_demo (seeder peers ts jobs [])"
    for peers ts jobs ev by (rule bt_polled [OF _ seeder_queue [of _ _ _ _ "[]" "[]"]])
  show r: "bt_reachable bt_demo (seeder [] [served_file] [] [])"
    by (rule bt_polled [OF q [OF bt_seed [OF bt_start seeder_added]] seeder_disk [of "[]"]])
  show "bt_reachable bt_demo (seeder [(1, demo_peer UnChoked InterestType.Interested)] [served_file] [] [])"
    by (rule q [OF bt_event [OF q [OF bt_unchoke [OF q [OF bt_event [OF r seeder_handshake]], of 1, unfolded seeder_unchoke]]
          seeder_interest]])
qed

lemma poll_one_message:
  assumes "queued_events b = []" and "pool_loop env (Suc (Suc n)) now b w = Some (Some (None, b1))"
    and "dm_poll (be_disk env) (Suc (Suc n)) (disk_manager b1) w = Some (Some (poll.Ready msg, dm, w1))"
    and "on_disk_message msg (b1\<lparr>disk_manager := dm\<rparr>) = (None, b2)"
    and "dm_active_blocks (disk_manager b2) = []" and "dm_queued_events (disk_manager b2) = []"
  shows "poll_rounds env (Suc (Suc n)) now b w =
    (case queued_events b2 of
       [] \<Rightarrow> Some (Some (Pending, b2, w1))
     | event # rest \<Rightarrow> Some (Some (poll.Ready event, b2\<lparr>queued_events := rest\<rparr>, w1)))"
proof -
  have "dm_poll (be_disk env) (Suc n) (disk_manager b2) w1 = Some (Some (Pending, disk_manager b2, w1))"
    using assms(5,6) by (cases "disk_manager b2") simp
  then have "disk_loop env (Suc (Suc n)) b1 w = Some (Some (None, b2, w1))"
    using assms(3,4) by (cases b2) (simp del: dm_poll.simps)
  with assms(1,2) show ?thesis by (simp del: pool_loop.simps disk_loop.simps split: list.split)
qed

lemma seeder_granted:
  "on_piece_request 1 (BlockMetadata_from_request \<lparr>pr_index = 1, pr_begin = 0, pr_length = 2\<rparr>) 9
      (pool (seeder [(1, demo_peer UnChoked InterestType.Interested)] [served_file] [] [])) =
    (Inr (TorrentId 0, BlockMetadata_new 1 0 2), (pool (seeder [(1, demo_peer UnChoked InterestType.Interested)] [served_file] [] []))
      \<lparr>torrents := [(TorrentId 0, Torrent_new 0 (TorrentId 0) []
             ((TorrentPieceHandler_new (TorrentId 0) Random [True, True] 2 2)
               \<lparr>ph_peers := [(1, demo_peer UnChoked InterestType.Interested)],
                ph_pending_seed_blocks := [(1, 9, BlockMetadata_new 1 0 2)]\<rparr>) SeedOnly Active)]\<rparr>)"
  by (simp add: bt_eval BlockMetadata_from_request_def)

lemma heartbeat_loop_states:
  "heartbeat_loop tid now t_now ps = Some (Some st, ps') \<Longrightarrow> \<exists>p. st = TorrentPoolState.KeepAlive tid p \<or> st = Timeout tid p"
  by (induction tid now t_now ps arbitrary: ps' rule: heartbeat_loop.induct)
    (auto split: if_splits simp: bind_eq_Some_conv)

lemma piece_ready_t_poll:
  assumes "t_poll shuffle now t_now t = Some (PieceReady (Inr (tid, piece)), t')"
  shows "tid = t_id t' \<and> marked_owned t' (bm_piece_index (bl_metadata piece))"
proof -
  from assms obtain hb ps where
    l: "heartbeat_loop (t_id t) now t_now (ph_peers (t_piece_handler t)) = Some (hb, ps)"
    by (auto simp: t_poll_def bind_eq_Some_conv)
  let ?h = "(t_piece_handler t)\<lparr>ph_peers := ps\<rparr>"
  obtain pst h' where p: "ph_poll shuffle ?h = (pst, h')" by fastforce
  have hb: "hb = Some st \<Longrightarrow> st \<noteq> PieceReady (Inr (tid, piece))" for st
    using heartbeat_loop_states [of "t_id t" now t_now] l by blast
  from assms l p hb have pst: "pst = PieceFinished (Inr piece)" "tid = t_id t'" "h' = t_piece_handler t'"
    by (cases pst; cases hb; auto simp: t_poll_def Let_def split: option.splits sum.splits)+
  from p [unfolded pst(1)] have "h' = snd (set_piece (bm_piece_index (bl_metadata piece)) (?h\<lparr>ph_piece_buffer := None\<rparr>))"
    by (auto simp: ph_poll_def Let_def split: option.splits if_splits sum.splits prod.splits)
  with pst(2) show ?thesis by (auto simp: set_piece_def marked_owned_def t_bitfield_def pst(3) [symmetric])
qed

lemma piece_ready_loop:
  "pool_poll_loop shuffle now t_now ts = Some (PieceReady (Inr (tid, piece)), ts') \<Longrightarrow>
   \<exists>e \<in> set ts'. tid = t_id (snd e) \<and> marked_owned (snd e) (bm_piece_index (bl_metadata piece))"
proof (induction ts arbitrary: ts')
  case (Cons e rest)
  obtain k t where e: "e = (k, t)" by fastforce
  show ?case
  proof (cases "is_active (t_state t)")
    case True
    with Cons.prems e obtain st t' where p: "t_poll shuffle now t_now t = Some (st, t')"
      by (auto simp: bind_eq_Some_conv)
    show ?thesis
    proof (cases st)
      case (PieceReady r)
      with Cons.prems e True p piece_ready_t_poll [of shuffle now t_now t tid piece t'] show ?thesis by auto
    qed (use Cons.prems Cons.IH e True p in \<open>auto simp: bind_eq_Some_conv\<close>)
  next
    case False
    with Cons.prems Cons.IH e show ?thesis by (auto simp: bind_eq_Some_conv)
  qed
qed simp

lemma piece_ready_owned:
  assumes "pool_inv p" and "pool_poll shuffle now t_now p = Some (PieceReady (Inr (tid, piece)), p1)"
  shows "\<exists>t. hm_get (torrents p1) tid = Some t \<and> marked_owned t (bm_piece_index (bl_metadata piece))"
proof -
  have inv: "pool_inv p1" by (rule pool_inv_step [OF p_poll [OF assms(2)] assms(1)])
  from assms(2) have "pool_poll_loop shuffle now t_now (torrents p) = Some (PieceReady (Inr (tid, piece)), torrents p1)"
    by (auto simp: pool_poll_def bind_eq_Some_conv)
  from piece_ready_loop [OF this] inv show ?thesis
    by (fastforce simp: pool_inv_def torrent_ok_def hm_get_distinct)
qed

lemma piece_finishes_loop:
  assumes "piece_finishes env w (pool b) tid piece p1"
  shows "pool_loop env (Suc (Suc n)) (be_clock env w) b w =
    Some (Some (None, b\<lparr>pool := p1, disk_manager := write_block tid piece (disk_manager b)\<rparr>))"
  using assms by (simp add: piece_finishes_def pool_quiet_def)

lemma timeout_loop:
  assumes "\<forall>(q, peer) \<in> set ps. client_heartbeat peer \<le> now \<and> remote_heartbeat peer \<le> now \<and>
      \<not> overdue now (client_heartbeat peer) \<and> \<not> overdue now (remote_heartbeat peer)"
    and "client_heartbeat peer \<le> now" and "\<not> overdue now (client_heartbeat peer)"
    and "remote_heartbeat peer \<le> now" and "overdue now (remote_heartbeat peer)"
  shows "heartbeat_loop tid now t_now (ps @ (p, peer) # qs) = Some (Some (Timeout tid p), ps @ (p, peer) # qs)"
  using assms by (induction ps) auto

lemma timeout_pool:
  assumes "\<forall>(k, t) \<in> set xs. \<not> is_active (t_state t)" and "is_active (t_state t)"
    and "heartbeat_loop (t_id t) now t_now (ph_peers (t_piece_handler t)) = Some (Some (Timeout tid p), ph_peers (t_piece_handler t))"
  shows "pool_poll_loop shuffle now t_now (xs @ (k, t) # ys) = Some (Timeout tid p, xs @ (k, t) # ys)"
  using assms by (induction xs) (auto simp: t_poll_def)

lemma leecher_inv: "pool_inv (pool (leecher data))"
  by (simp add: leecher_def leech_pool_def pool_inv_def torrent_ok_def handler_ok_def Torrent_new_def TorrentPieceHandler_new_def)

lemma leecher_finishes:
  "length data = 2 \<Longrightarrow> piece_finishes bt_demo w (pool (leecher data)) (TorrentId 0)
     (Block_new (BlockMetadata_new 0 0 2) data) (leech_pool None [True, False])"
  by (simp add: piece_finishes_def pool_quiet_def leecher_def leech_pool_def bt_eval is_client_timeout_def is_remote_timeout_def
      secs_since_def is_full_piece_def PieceBuffer_new_def BLOCK_SIZE_def try_finalize_piece_def is_correct_len_def Block_new_def
      set_piece_def next_piece_buffer_def next_random_piece_def missing_piece_indices_def seeding_peers_def
      remote_can_seed_piece_def remote_can_seed_def peer_has_piece_def)

lemma leecher_idle: "queued_events (leecher data) = []" "disk_idle (disk_manager (leecher data))"
  by (simp_all add: leecher_def seeder_def with_capacity_def disk_idle_def)

lemma leecher_file: "dm_torrent (disk_manager (leecher data)) (TorrentId 0) = Some served_file"
  by (simp add: leecher_def seeder_def dm_torrent_def served_file_def)

section \<open>Properties\<close>

text \<open>
  C8. The pool and the disk manager agree on the torrents: in every state of the behaviour, the
  torrents that the disk manager has or is about to add are exactly those of the pool, each once,
  and the disk manager never reports that a torrent already exists.
\<close>

theorem torrents_in_sync:
  fixes env :: "('f, 'e, 'w, 'c) bt_env"
  assumes "bt_reachable env b"
  shows "distinct (disk_ids (disk_manager b)) \<and> set (disk_ids (disk_manager b)) = set (keys (torrents (pool b))) \<and>
    (\<forall>fuel w tid meta dm w'. dm_poll (be_disk env) fuel (disk_manager b) w
       \<noteq> Some (Some (poll.Ready (TorrentError tid (ExistingTorrent meta)), dm, w')))"
proof -
  let ?I = "disk_ids_inv (set (keys (torrents (pool b)))) :: ('f, 'c) DiskManager \<Rightarrow> bool"
  from sync.reachable_ok [OF assms] have inv: "?I (disk_manager b)" ..
  have "\<not> existing_justified ?I (Some (poll.Ready (TorrentError tid (ExistingTorrent meta))))" for tid meta
    by (auto simp: existing_justified_def disk_ids_inv_def disk_ids_def dm_torrent_def find_Some_iff)
  then have "dm_poll (be_disk env) fuel (disk_manager b) w
      \<noteq> Some (Some (poll.Ready (TorrentError tid (ExistingTorrent meta)), dm, w'))" for fuel w tid meta dm w'
    by (metis torrent_ids.dm_poll_inv [OF inv])
  with inv show ?thesis by (simp add: disk_ids_inv_def)
qed

theorem torrents_in_sync_witness:
  "set (disk_ids (disk_manager (seeder [] [served_file] [] []))) = {TorrentId 0} \<and>
   (\<forall>fuel w tid meta dm w'. dm_poll (be_disk bt_demo) fuel (disk_manager (seeder [] [served_file] [] [])) w
       \<noteq> Some (Some (poll.Ready (TorrentError tid (ExistingTorrent meta)), dm, w')))"
  using torrents_in_sync [OF seeder_reachable(1)] by (simp add: seeder_def)

text \<open>
  C10. A granted block request is answered, under these conditions: no event is queued and the disk manager
  is idle, the pool has nothing else to report, nobody else waits for the block, the block lies in one
  file, and the file system opens, seeks and reads that file at once and in full. The cache of open
  files may have any capacity. Then the poll after the request sends the requesting peer the bytes of
  the requested window under the identifier of its request, the pool is as before the request and the
  disk manager is idle again.
\<close>

theorem seed_request_answered:
  fixes env :: "('f, 'e, 'w, 'c) bt_env"
  assumes "bt_reachable env b" and "queued_events b = []" and "disk_idle (disk_manager b)"
    and "on_piece_request peer (BlockMetadata_from_request request) rid (pool b) = (Inr (tid, m), p1)"
    and "\<forall>t. hm_get (torrents (pool b)) tid = Some t \<longrightarrow>
      BlockMetadata_from_request request \<notin> (snd \<circ> snd) ` set (ph_pending_seed_blocks (t_piece_handler t))"
    and "pool_quiet env w p1"
    and "fs_laws (de_fs (be_disk env)) bytes pos" and "lru_laws (de_lru (be_disk env)) look cap"
    and "TorrentFile_new (de_checks (be_disk env)) tid mi = Some t" and "dm_torrent (disk_manager b) tid = Some t"
    and "files_for_block (de_checks (be_disk env)) t m = Some (Inr [(entry, win)])"
    and "available (be_disk env) look (dm_file_cache (disk_manager b)) entry w f w1"
    and "fw_offset win + fw_length win \<le> length (bytes f)"
    and "prompt_read (de_fs (be_disk env)) f (fw_offset win) (fw_length win) w1 f2 w2"
  shows "\<exists>b1 b2. inject_node_event t_now peer (BitTorrentHandlerEvent.GetPieceReq request rid) b = Some b1 \<and>
    bt_poll env (Suc (Suc n)) b1 w = Some (Some (poll.Ready (SendEvent peer (BitTorrentHandlerIn.GetPieceRes
        (Block_into_piece (Block_new m (take (fw_length win) (drop (fw_offset win) (bytes f))))) rid)), b2, w2)) \<and>
    pool b2 = pool b \<and> queued_events b2 = [] \<and> disk_idle (disk_manager b2)"
proof -
  from sync.reachable_ok [OF assms(1)] have inv: "pool_inv (pool b)" ..
  note granted = granted_block_read [OF inv assms(4,5)]
  let ?data = "take (fw_length win) (drop (fw_offset win) (bytes f))"
  let ?b1 = "b\<lparr>pool := p1, disk_manager := read_block tid m (disk_manager b)\<rparr>"
  from files_for_block_entries [OF assms(11)] TorrentFile_new_entries [OF assms(9)]
  have tid: "tf_torrent (fe_id entry) = tid" by auto
  have "\<exists>c. dm_poll (be_disk env) (Suc (Suc n)) (disk_manager ?b1) w = Some (Some (poll.Ready (BlockRead (tf_torrent (fe_id entry))
      (Block_new m ?data)), (disk_manager ?b1)\<lparr>dm_queued_events := [], dm_file_cache := c\<rparr>, w2)) \<and>
      look c (fe_id entry) = Some (FileReady f2)"
    by (rule poll_read_single [where tid = tid and t = t and ?w1.0 = w1 and pos = pos])
      (use assms in \<open>simp_all add: read_block_def push_event_def dm_torrent_def disk_idle_def\<close>)
  then obtain c where c: "dm_poll (be_disk env) (Suc (Suc n)) (disk_manager ?b1) w = Some (Some (poll.Ready (BlockRead tid
      (Block_new m ?data)), (disk_manager ?b1)\<lparr>dm_queued_events := [], dm_file_cache := c\<rparr>, w2))" unfolding tid by blast
  define ans where "ans = SendEvent peer (BitTorrentHandlerIn.GetPieceRes (Block_into_piece (Block_new m ?data)) rid)"
  define b2 where "b2 = b\<lparr>disk_manager := (disk_manager b)\<lparr>dm_file_cache := c\<rparr>, queued_events := [ans]\<rparr>"
  have dm: "(disk_manager ?b1)\<lparr>dm_queued_events := [], dm_file_cache := c\<rparr> = (disk_manager b)\<lparr>dm_file_cache := c\<rparr>"
    using assms(3) by (cases "disk_manager b") (simp add: read_block_def push_event_def disk_idle_def)
  have loop: "pool_loop env (Suc (Suc n)) (be_clock env w) ?b1 w = Some (Some (None, ?b1))"
    using assms(6) by (simp add: pool_quiet_def)
  have msg: "on_disk_message (BlockRead tid (Block_new m ?data))
      (?b1\<lparr>disk_manager := (disk_manager ?b1)\<lparr>dm_queued_events := [], dm_file_cache := c\<rparr>\<rparr>) = (None, b2)"
    unfolding dm using granted assms(2) by (simp add: b2_def ans_def Block_new_def enqueue_def)
  have "bt_poll env (Suc (Suc n)) ?b1 w = Some (Some (poll.Ready ans, b2\<lparr>queued_events := []\<rparr>, w2))"
    unfolding bt_poll_def using poll_one_message [OF _ loop c msg] assms(2,3) by (simp add: b2_def disk_idle_def)
  then show ?thesis using assms(2-4)
    by (intro exI [of _ ?b1] exI [of _ "b2\<lparr>queued_events := []\<rparr>"]) (simp add: ans_def b2_def disk_idle_def)
qed

theorem seed_request_answered_witness:
  "\<exists>b1 b2. inject_node_event 0 1 (BitTorrentHandlerEvent.GetPieceReq \<lparr>pr_index = 1, pr_begin = 0, pr_length = 2\<rparr> 9)
      (seeder [(1, demo_peer UnChoked InterestType.Interested)] [served_file] [] []) = Some b1 \<and>
    bt_poll bt_demo 2 b1 [2] = Some (Some (poll.Ready (SendEvent 1 (BitTorrentHandlerIn.GetPieceRes
        (Block_into_piece (Block_new (BlockMetadata_new 1 0 2) [3, 4])) 9)), b2, [])) \<and>
    pool b2 = pool (seeder [(1, demo_peer UnChoked InterestType.Interested)] [served_file] [] [])"
proof -
  let ?entry = "\<lparr>fe_path = [[99]], fe_id = TorrentFileId_new (TorrentId 0) (FileId 0), fe_offset = 0, fe_size = 4\<rparr>"
  let ?file = "\<lparr>mf_bytes = [1, 2, 3, 4], mf_pos = 0\<rparr>"
  let ?win = "FileWindow_new 2 2"
  let ?b = "seeder [(1, demo_peer UnChoked InterestType.Interested)] [served_file] [] []"
  let ?m = "BlockMetadata_new 1 0 2"
  have "\<exists>b1 b2. inject_node_event 0 1 (BitTorrentHandlerEvent.GetPieceReq \<lparr>pr_index = 1, pr_begin = 0, pr_length = 2\<rparr> 9) ?b = Some b1 \<and>
    bt_poll bt_demo (Suc (Suc 0)) b1 [2] = Some (Some (poll.Ready (SendEvent 1 (BitTorrentHandlerIn.GetPieceRes
        (Block_into_piece (Block_new ?m (take (fw_length ?win) (drop (fw_offset ?win) (mf_bytes ?file))))) 9)), b2, [])) \<and>
    pool b2 = pool ?b \<and> queued_events b2 = [] \<and> disk_idle (disk_manager b2)"
  proof (rule seed_request_answered [OF seeder_reachable(2) _ _ seeder_granted, where look = map_of and cap = 100 and bytes = mf_bytes
        and pos = mf_pos and mi = one_file and t = served_file and entry = ?entry and win = ?win and f = ?file and ?w1.0 = "[2]"
        and ?f2.0 = "\<lparr>mf_bytes = [1, 2, 3, 4], mf_pos = 4\<rparr>"])
    show "fs_laws (de_fs (be_disk bt_demo)) mf_bytes mf_pos"
      using mem_fs_laws by (simp add: bt_demo_def served_files_def fs_laws_def)
    show "lru_laws (de_lru (be_disk bt_demo)) map_of 100" by (simp add: bt_demo_def disk_demo_def lru_of_laws)
  qed (simp_all add: bt_eval disk_idle_def pool_quiet_def is_client_timeout_def is_remote_timeout_def secs_since_def
      prompt_read_def available_def lru_of_def BlockMetadata_from_request_def)
  then show ?thesis unfolding numeral_2_eq_2 by (simp add: FileWindow_new_def) blast
qed

text \<open>
  C11. A finished piece with the right hash is written at its place in its file and announced, under these
  conditions: no event is queued and the disk manager is idle, the pool is quiet once it has handed
  over the piece, the piece lies in one file, and the file system opens, seeks and writes that file
  at once and in full. The cache of open files may have any capacity. Then the same poll queues
  exactly one \<^verbatim>\<open>Have\<close> of the piece for every peer of the torrent, and reports the first of them.
\<close>

theorem good_piece_announced:
  assumes "pool_inv (pool b)" and "queued_events b = []" and "disk_idle (disk_manager b)"
    and "piece_finishes env w (pool b) tid piece p1"
    and "lru_laws (de_lru (be_disk env)) look cap"
    and "TorrentFile_new (de_checks (be_disk env)) tid mi = Some t" and "dm_torrent (disk_manager b) tid = Some t"
    and "files_for_block (de_checks (be_disk env)) t (bl_metadata piece) = Some (Inr [(entry, win)])"
    and "is_good_piece (de_sha1 (be_disk env)) t piece" and "length (bl_data piece) = fw_length win"
    and "available (be_disk env) look (dm_file_cache (disk_manager b)) entry w f w1"
    and "prompt_write (de_fs (be_disk env)) f (fw_offset win) (bl_data piece) w1 f2 w2"
  shows "\<exists>res b' t'. bt_poll env (Suc (Suc n)) b w = Some (Some (res, b', w2)) \<and>
    hm_get (torrents p1) tid = Some t' \<and>
    (case res of Pending \<Rightarrow> [] | poll.Ready a \<Rightarrow> [a]) @ queued_events b' =
      map (\<lambda>peer. SendEvent peer (BitTorrentHandlerIn.Have (word_of_nat (bm_piece_index (bl_metadata piece)))))
        (iter_peer_ids t') \<and>
    (res = Pending \<longrightarrow> queued_events b' = []) \<and>
    disk_idle (disk_manager b') \<and> look (dm_file_cache (disk_manager b')) (fe_id entry) = Some (FileReady f2)"
proof -
  from piece_ready_owned [OF assms(1)] assms(4) obtain t' where t': "hm_get (torrents p1) tid = Some t'"
    unfolding piece_finishes_def by blast
  let ?i = "bm_piece_index (bl_metadata piece)"
  let ?b1 = "b\<lparr>pool := p1, disk_manager := write_block tid piece (disk_manager b)\<rparr>"
  let ?haves = "map (\<lambda>peer. SendEvent peer (BitTorrentHandlerIn.Have (word_of_nat ?i))) (iter_peer_ids t')"
  from files_for_block_entries [OF assms(8)] TorrentFile_new_entries [OF assms(6)]
  have tid: "tf_torrent (fe_id entry) = tid" by auto
  have "\<exists>c. dm_poll (be_disk env) (Suc (Suc n)) (disk_manager ?b1) w = Some (Some (poll.Ready (PieceWritten (tf_torrent (fe_id entry)) piece),
      (disk_manager ?b1)\<lparr>dm_queued_events := [], dm_file_cache := c\<rparr>, w2)) \<and> look c (fe_id entry) = Some (FileReady f2)"
    by (rule poll_write_single [where t = t and win = win and f = f and ?w1.0 = w1 and tid = tid])
      (use assms in \<open>simp_all add: write_block_def push_event_def dm_torrent_def disk_idle_def\<close>)
  then obtain c where c: "dm_poll (be_disk env) (Suc (Suc n)) (disk_manager ?b1) w = Some (Some (poll.Ready (PieceWritten tid piece),
      (disk_manager ?b1)\<lparr>dm_queued_events := [], dm_file_cache := c\<rparr>, w2))" "look c (fe_id entry) = Some (FileReady f2)"
    unfolding tid by blast
  define p2 where "p2 = snd (on_torrent tid (t_set_piece ?i) p1)"
  define b2 where "b2 = b\<lparr>pool := p2, disk_manager := (disk_manager ?b1)\<lparr>dm_queued_events := [], dm_file_cache := c\<rparr>,
     queued_events := ?haves\<rparr>"
  obtain r t2 where ts: "t_set_piece ?i t' = (r, t2)" by fastforce
  then have peers: "iter_peer_ids t2 = iter_peer_ids t'"
    by (auto simp: t_set_piece_def on_handler_def set_piece_def iter_peer_ids_def split: if_splits)
  have m: "on_disk_message (PieceWritten tid piece) (?b1\<lparr>disk_manager := (disk_manager ?b1)\<lparr>dm_queued_events := [], dm_file_cache := c\<rparr>\<rparr>)
      = (None, b2)"
    using t' ts peers assms(2)
    by (simp add: on_piece_written_def on_torrent_def p2_def b2_def hm_get_def hm_insert_def update_conv')
  have idle: "disk_idle (disk_manager b2)" using assms(3) by (simp add: b2_def disk_idle_def write_block_def push_event_def)
  from poll_one_message [OF assms(2) piece_finishes_loop [OF assms(4)] c(1) m] idle
  have "bt_poll env (Suc (Suc n)) b w = (case queued_events b2 of
       [] \<Rightarrow> Some (Some (Pending, b2, w2))
     | event # rest \<Rightarrow> Some (Some (poll.Ready event, b2\<lparr>queued_events := rest\<rparr>, w2)))"
    by (simp add: bt_poll_def disk_idle_def)
  with t' idle c(2) show ?thesis
    by (cases "iter_peer_ids t'") (auto simp: b2_def)
qed

theorem good_piece_announced_witness:
  "\<exists>b'. bt_poll bt_demo 2 (leecher [1, 2]) [2] = Some (Some (poll.Ready (SendEvent 1 (BitTorrentHandlerIn.Have 0)), b', []))"
proof -
  let ?entry = "\<lparr>fe_path = [[99]], fe_id = TorrentFileId_new (TorrentId 0) (FileId 0), fe_offset = 0, fe_size = 4\<rparr>"
  let ?file = "\<lparr>mf_bytes = [1, 2, 3, 4], mf_pos = 0\<rparr>"
  let ?piece = "Block_new (BlockMetadata_new 0 0 2) [1, 2]"
  have f: "piece_finishes bt_demo [2] (pool (leecher [1, 2])) (TorrentId 0) ?piece (leech_pool None [True, False])"
    by (rule leecher_finishes) simp
  have "\<exists>res b' t'. bt_poll bt_demo (Suc (Suc 0)) (leecher [1, 2]) [2] = Some (Some (res, b', [])) \<and>
    hm_get (torrents (leech_pool None [True, False])) (TorrentId 0) = Some t' \<and>
    (case res of Pending \<Rightarrow> [] | poll.Ready a \<Rightarrow> [a]) @ queued_events b' =
      map (\<lambda>peer. SendEvent peer (BitTorrentHandlerIn.Have (word_of_nat (bm_piece_index (bl_metadata ?piece))))) (iter_peer_ids t') \<and>
    (res = Pending \<longrightarrow> queued_events b' = []) \<and>
    disk_idle (disk_manager b') \<and> map_of (dm_file_cache (disk_manager b')) (fe_id ?entry) = Some (FileReady \<lparr>mf_bytes = [1, 2, 3, 4], mf_pos = 2\<rparr>)"
    by (rule good_piece_announced [OF leecher_inv leecher_idle f _ _ leecher_file, where look = map_of and cap = 100 and mi = one_file
          and entry = ?entry and win = "FileWindow_new 0 2" and f = ?file and ?w1.0 = "[2]"])
      (simp_all add: bt_demo_def disk_demo_def lru_of_laws one_file_new served_file_def one_file_def files_for_block_def
        demo_defs is_good_piece_def available_def leecher_def seeder_def with_capacity_def served_files_def prompt_write_def
        mem_fs_def overwrite_def Block_new_def BlockMetadata_new_def Let_def)
  then obtain res b' t' where p: "bt_poll bt_demo 2 (leecher [1, 2]) [2] = Some (Some (res, b', []))"
    and t: "hm_get (torrents (leech_pool None [True, False])) (TorrentId 0) = Some t'"
    and q: "(case res of Pending \<Rightarrow> [] | poll.Ready a \<Rightarrow> [a]) @ queued_events b' =
      map (\<lambda>peer. SendEvent peer (BitTorrentHandlerIn.Have (word_of_nat (bm_piece_index (bl_metadata ?piece))))) (iter_peer_ids t')"
    and r: "res = Pending \<longrightarrow> queued_events b' = []"
    unfolding numeral_2_eq_2 by blast
  from t have "iter_peer_ids t' = [1]"
    by (auto simp: leech_pool_def hm_get_def iter_peer_ids_def Torrent_new_def)
  with q have "(case res of Pending \<Rightarrow> [] | poll.Ready a \<Rightarrow> [a]) @ queued_events b' = [SendEvent 1 (BitTorrentHandlerIn.Have 0)]"
    by (simp add: Block_new_def BlockMetadata_new_def)
  with p r show ?thesis by (cases res) auto
qed

text \<open>
  C35. A finished piece with a wrong hash is refused by the disk manager, but the refusal is dropped: the
  poll reports nothing, and the pool goes on with the piece marked as owned, so it is neither
  requested again nor withheld from other peers.
\<close>

theorem bad_piece_kept:
  assumes "pool_inv (pool b)" and "queued_events b = []" and "disk_idle (disk_manager b)"
    and "piece_finishes env w (pool b) tid piece p1"
    and "\<not> dm_is_good_piece (de_sha1 (be_disk env)) (disk_manager b) tid piece"
  shows "bt_poll env (Suc (Suc n)) b w = Some (Some (Pending, b\<lparr>pool := p1\<rparr>, w)) \<and>
    (\<exists>t. hm_get (torrents p1) tid = Some t \<and> marked_owned t (bm_piece_index (bl_metadata piece)))"
proof -
  let ?b1 = "b\<lparr>pool := p1, disk_manager := write_block tid piece (disk_manager b)\<rparr>"
  let ?msg = "WriteBlockError tid (BadPiece (bm_piece_index (bl_metadata piece)))"
  have "(write_block tid piece (disk_manager b))\<lparr>dm_queued_events := []\<rparr> = disk_manager b"
    using assms(3) by (cases "disk_manager b") (simp add: write_block_def push_event_def disk_idle_def)
  moreover have "dm_active_blocks (write_block tid piece (disk_manager b)) = []"
    "dm_queued_events (write_block tid piece (disk_manager b)) = [WriteBlock tid piece]"
    using assms(3) by (simp_all add: write_block_def push_event_def disk_idle_def)
  ultimately have d: "dm_poll (be_disk env) (Suc (Suc n)) (disk_manager ?b1) w = Some (Some (poll.Ready ?msg, disk_manager b, w))"
    using assms(5) by (simp add: poll_create_block_write_def Let_def)
  have m: "on_disk_message ?msg (?b1\<lparr>disk_manager := disk_manager b\<rparr>) = (None, b\<lparr>pool := p1\<rparr>)" by simp
  have "bt_poll env (Suc (Suc n)) b w = Some (Some (Pending, b\<lparr>pool := p1\<rparr>, w))"
    unfolding bt_poll_def using poll_one_message [OF assms(2) piece_finishes_loop [OF assms(4)] d m] assms(2,3)
    by (simp add: disk_idle_def)
  with piece_ready_owned [OF assms(1)] assms(4) show ?thesis unfolding piece_finishes_def by blast
qed

theorem bad_piece_kept_witness:
  "bt_poll bt_demo 2 (leecher [9, 9]) [] = Some (Some (Pending, (leecher [9, 9])\<lparr>pool := leech_pool None [True, False]\<rparr>, []))"
proof -
  have f: "piece_finishes bt_demo [] (pool (leecher [9, 9])) (TorrentId 0) (Block_new (BlockMetadata_new 0 0 2) [9, 9])
      (leech_pool None [True, False])" by (rule leecher_finishes) simp
  have "\<not> dm_is_good_piece (de_sha1 (be_disk bt_demo)) (disk_manager (leecher [9, 9])) (TorrentId 0)
      (Block_new (BlockMetadata_new 0 0 2) [9, 9])"
    by (simp add: dm_is_good_piece_def leecher_file is_good_piece_def served_file_def one_file_def bt_demo_def
        disk_demo_def Block_new_def BlockMetadata_new_def)
  from bad_piece_kept [OF leecher_inv leecher_idle f this, of 0] show ?thesis unfolding numeral_2_eq_2 by blast
qed

text \<open>
  C40. A remote that is silent for more than two minutes hangs the client: when the first active torrent
  has a timed-out peer (and no keep-alive is due before it), the loop over the pool never ends,
  whatever the fuel.
\<close>

theorem timeout_hangs:
  assumes "queued_events b = []"
    and "torrents (pool b) = xs @ (k, t) # ys"
    and "\<forall>(k, t) \<in> set xs. \<not> is_active (t_state t)" and "is_active (t_state t)"
    and "ph_peers (t_piece_handler t) = ps @ (p, peer) # qs"
    and "\<forall>(q, peer) \<in> set ps. client_heartbeat peer \<le> be_clock env w \<and> remote_heartbeat peer \<le> be_clock env w \<and>
      \<not> overdue (be_clock env w) (client_heartbeat peer) \<and> \<not> overdue (be_clock env w) (remote_heartbeat peer)"
    and "client_heartbeat peer \<le> be_clock env w" and "\<not> overdue (be_clock env w) (client_heartbeat peer)"
    and "remote_heartbeat peer \<le> be_clock env w" and "overdue (be_clock env w) (remote_heartbeat peer)"
  shows "bt_poll env fuel b w = None"
proof -
  have "pool_poll_loop shuffle (be_clock env w) (be_clock env w) (torrents (pool b)) =
      Some (Timeout (t_id t) p, torrents (pool b))" for shuffle
    unfolding assms(2) by (rule timeout_pool [OF assms(3,4)]) (simp only: assms(5) timeout_loop [OF assms(6-10)])
  then have poll: "pool_poll (be_shuffle env w) (be_clock env w) (be_clock env w) (pool b) = Some (Timeout (t_id t) p, pool b)"
    by (simp add: pool_poll_def)
  have "pool_loop env n (be_clock env w) b w = None" for n
    by (induction n) (simp_all add: poll on_remote_timeout_def)
  with assms(1) show ?thesis by (cases fuel) (simp_all add: bt_poll_def del: pool_loop.simps)
qed

theorem timeout_hangs_witness:
  "\<forall>fuel. bt_poll (bt_demo\<lparr>be_clock := \<lambda>_. 200000000000\<rparr>) fuel
     (seeder [(1, (demo_peer Choked InterestType.NotInterested)\<lparr>client_heartbeat := 100000000000\<rparr>)] [served_file] [] []) [] = None"
proof
  fix fuel
  show "bt_poll (bt_demo\<lparr>be_clock := \<lambda>_. 200000000000\<rparr>) fuel
     (seeder [(1, (demo_peer Choked InterestType.NotInterested)\<lparr>client_heartbeat := 100000000000\<rparr>)] [served_file] [] []) [] = None"
    by (rule timeout_hangs [where xs = "[]" and ys = "[]" and ps = "[]" and qs = "[]" and k = "TorrentId 0"
        and p = 1 and peer = "(demo_peer Choked InterestType.NotInterested)\<lparr>client_heartbeat := 100000000000\<rparr>"
        and t = "Torrent_new 0 (TorrentId 0) [] ((TorrentPieceHandler_new (TorrentId 0) Random [True, True] 2 2)
          \<lparr>ph_peers := [(1, (demo_peer Choked InterestType.NotInterested)\<lparr>client_heartbeat := 100000000000\<rparr>)]\<rparr>) SeedOnly Active"])
      (simp_all add: bt_eval overdue_def)
qed

end
