(* ===== verification/Downloads.thy ===== *)
theory Downloads
  imports PieceHandlers
begin

text \<open>
  A whole download at the level of the piece handler: as long as the tracked peers answer every
  request with the right bytes, polling the handler finishes every missing piece with its
  content and ends in \<^verbatim>\<open>Finished\<close>. The number of polls needed is given exactly.
\<close>

section \<open>Polling with honest peers\<close>

text \<open>One poll, followed by the answer to the request it made, if it made one.\<close>

definition handler_round ::
  "(usize list \<Rightarrow> usize list) \<Rightarrow> (usize \<Rightarrow> u8 list) \<Rightarrow> TorrentPieceHandler
    \<Rightarrow> TorrentPieceHandlerState \<times> TorrentPieceHandler" where
  "handler_round shuffle content h =
     (case ph_poll shuffle h of
        (LeechBlock (Some nb), h') \<Rightarrow>
          (LeechBlock (Some nb),
           snd (ph_add_block (nb_peer_id nb)
                  (served_block (content (bm_piece_index (nb_block_metadata nb))) nb) h'))
      | r \<Rightarrow> r)"

fun download ::
  "(usize list \<Rightarrow> usize list) \<Rightarrow> (usize \<Rightarrow> u8 list) \<Rightarrow> nat \<Rightarrow> TorrentPieceHandler
    \<Rightarrow> TorrentPieceHandlerState list \<times> TorrentPieceHandler" where
  "download shuffle content 0 h = ([], h)"
| "download shuffle content (Suc n) h =
     (case handler_round shuffle content h of (st, h') \<Rightarrow>
        (case download shuffle content n h' of (sts, h'') \<Rightarrow> (st # sts, h'')))"

fun finished_pieces :: "TorrentPieceHandlerState list \<Rightarrow> (TorrentError + Block) list" where
  "finished_pieces [] = []"
| "finished_pieces (PieceFinished res # sts) = res # finished_pieces sts"
| "finished_pieces (_ # sts) = finished_pieces sts"

text \<open>Every tracked peer can seed every piece, and the content has the lengths of the pieces.\<close>

definition all_seed :: "TorrentPieceHandler \<Rightarrow> (usize \<Rightarrow> u8 list) \<Rightarrow> bool" where
  "all_seed h content \<longleftrightarrow>
     ph_peers h \<noteq> [] \<and>
     (\<forall>i < length (ph_bitfield h).
        (\<forall>(p, peer) \<in> set (ph_peers h). remote_can_seed_piece peer i) \<and>
        length (content i) = piece_length_of h i \<and> content i \<noteq> [])"

definition rounds_for :: "TorrentPieceHandler \<Rightarrow> usize \<Rightarrow> nat" where
  "rounds_for h i = Suc (num_blocks (piece_length_of h i))"

definition whole_piece :: "TorrentPieceHandler \<Rightarrow> (usize \<Rightarrow> u8 list) \<Rightarrow> usize \<Rightarrow> Block" where
  "whole_piece h content i =
     Block_new (BlockMetadata_new i 0 (piece_length_of h i)) (content i)"

section \<open>Lemmas\<close>

lemma download_add:
  "download sh c (m + n) h =
     (case download sh c m h of (sts, h') \<Rightarrow>
        (case download sh c n h' of (sts', h'') \<Rightarrow> (sts @ sts', h'')))"
  by (induction m arbitrary: h) (auto simp: split_beta)

lemma finished_pieces_append [simp]:
  "finished_pieces (xs @ ys) = finished_pieces xs @ finished_pieces ys"
  by (induction xs rule: finished_pieces.induct) auto

text \<open>A round while a buffer is in progress serves its next block.\<close>

lemma round_current:
  assumes b: "ph_piece_buffer h = Some b" and nf: "\<not> is_full_piece b"
    and ne: "pb_peers b \<noteq> []" "pb_missing_blocks b \<noteq> []"
    and idx: "\<forall>m \<in> set (pb_missing_blocks b). bm_piece_index m = i"
  shows "\<exists>nb. handler_round sh c h =
    (LeechBlock (Some nb), h\<lparr>ph_piece_buffer := Some (serve_round (c i) b)\<rparr>)"
proof (cases b rule: next_cases)
  case (request ps p ms m)
  then have "bm_piece_index m = i" using idx by simp
  with request b nf show ?thesis
    by (simp add: handler_round_def ph_poll_def ph_add_block_def serve_round_def split_beta Let_def)
qed (use ne in auto)

lemma not_full_if_missing:
  assumes "pb_inv b" and "pb_missing_blocks b \<noteq> []"
  shows "\<not> is_full_piece b"
  using full_blocks_layout [OF pb_inv_safe [OF assms(1)]] assms(2) by blast

lemma missing_index:
  "pb_inv b \<Longrightarrow> \<forall>m \<in> set (pb_missing_blocks b). bm_piece_index m = pb_piece_index b"
  using missing_in_layout [OF pb_inv_safe] by (fastforce simp: piece_layout_def)

lemma rounds_current:
  assumes "pb_inv b" and "length (c (pb_piece_index b)) = pb_piece_length b"
    and "pb_peers b \<noteq> []" and "pb_pending_blocks b = []" and "all_from (c (pb_piece_index b)) b"
    and "length (pb_missing_blocks b) = n" and "ph_piece_buffer h = Some b"
  shows "\<exists>sts. download sh c n h =
      (sts, h\<lparr>ph_piece_buffer := Some ((serve_round (c (pb_piece_index b)) ^^ n) b)\<rparr>) \<and>
    finished_pieces sts = []"
  using assms
proof (induction n arbitrary: b h)
  case 0
  then show ?case by simp
next
  case (Suc n)
  let ?c = "c (pb_piece_index b)"
  from Suc.prems(6) have ne: "pb_missing_blocks b \<noteq> []" by auto
  note step = serve_round_step [OF Suc.prems(1,2,3) ne Suc.prems(4,5)]
  define b' h' where "b' = serve_round ?c b" and "h' = h\<lparr>ph_piece_buffer := Some b'\<rparr>"
  from round_current [OF Suc.prems(7) not_full_if_missing [OF Suc.prems(1) ne] Suc.prems(3) ne
      missing_index [OF Suc.prems(1)]]
  obtain nb where r: "handler_round sh c h = (LeechBlock (Some nb), h')"
    by (auto simp: h'_def b'_def)
  have idx: "pb_piece_index b' = pb_piece_index b" using step by (simp add: b'_def)
  have "\<exists>sts. download sh c n h' =
      (sts, h'\<lparr>ph_piece_buffer := Some ((serve_round (c (pb_piece_index b')) ^^ n) b')\<rparr>) \<and>
    finished_pieces sts = []"
    using step Suc.prems(2,6) idx by (intro Suc.IH) (simp_all add: b'_def h'_def)
  with r idx show ?case
    by (auto simp: h'_def b'_def funpow_Suc_right simp del: funpow.simps)
qed

text \<open>A fresh buffer starts like a buffer in progress.\<close>

lemma round_fresh:
  assumes "ph_piece_buffer h = None" and "\<not> ph_finished h" and "\<not> bv_all (ph_bitfield h)"
    and "next_piece_buffer sh h = Some b" and "\<not> is_full_piece b"
  shows "handler_round sh c h = handler_round sh c (h\<lparr>ph_piece_buffer := Some b\<rparr>)"
  using assms by (simp add: handler_round_def ph_poll_def Let_def split_beta)

lemma num_blocks_pos: "0 < plen \<Longrightarrow> 0 < num_blocks plen"
  using layout_covers [of plen] by (cases "num_blocks plen") simp_all

lemma next_piece_exists:
  assumes "permutes sh" and "ph_piece_buffer h = None" and "\<not> bv_all (ph_bitfield h)"
    and "all_seed h c"
  obtains i where "next_piece_buffer sh h = Some (new_buffer_for h i (keys (ph_peers h)))"
    "i \<in> set (missing_piece_indices h)" "i < length (ph_bitfield h)"
proof -
  from assms(2,3) obtain j where j: "j \<in> set (missing_piece_indices h)"
    by (auto simp: bv_all_iff missing_piece_indices_set)
  then have "eligible h j"
    using assms(4) by (auto simp: all_seed_def eligible_def missing_piece_indices_set)
  moreover from this assms(4) have "strategy_ready h"
    by (cases "ph_peers h") (auto simp: strategy_ready_def eligible_def all_seed_def
        remote_can_seed_piece_def)
  ultimately have "next_piece_buffer sh h \<noteq> None"
    using j next_piece_buffer_None [OF assms(1), of h] by blast
  then obtain b where b: "next_piece_buffer sh h = Some b" by blast
  from next_piece_buffer_Some [OF assms(1) b] that b show thesis
    by (auto simp: missing_piece_indices_set)
qed

text \<open>
  A handler with no piece in progress starts one: polling it is polling the handler with the new
  buffer, and once all blocks were served the next poll hands out the whole piece.
\<close>

lemma fresh_piece:
  assumes inv: "ph_inv h" and sh: "permutes sh" and none: "ph_piece_buffer h = None"
    and nf: "\<not> bv_all (ph_bitfield h)" and seed: "all_seed h c"
  obtains i buf where "i \<in> set (missing_piece_indices h)" "i < length (ph_bitfield h)" "length (c i) = piece_length_of h i"
    "0 < num_blocks (piece_length_of h i)" "ph_poll sh h = ph_poll sh (h\<lparr>ph_piece_buffer := Some buf\<rparr>)"
    "next_piece_buffer sh h = Some buf" "\<not> is_full_piece buf"
    "pb_inv buf" "pb_piece_index buf = i" "pb_piece_length buf = piece_length_of h i" "pb_torrent_id buf = ph_id h"
    "pb_pending_blocks buf = []" "pb_missing_blocks buf = piece_layout i (piece_length_of h i)" "pb_peers buf \<noteq> []"
    "all_from (c i) buf"
    "ph_poll sh (h\<lparr>ph_piece_buffer := Some ((serve_round (c i) ^^ num_blocks (piece_length_of h i)) buf)\<rparr>) =
      (PieceFinished (Inr (whole_piece h c i)), h\<lparr>ph_bitfield := (ph_bitfield h)[i := True]\<rparr>)"
proof -
  from next_piece_exists [OF sh none nf seed] obtain i where
    b: "next_piece_buffer sh h = Some (new_buffer_for h i (keys (ph_peers h)))"
    and i: "i \<in> set (missing_piece_indices h)" and len: "i < length (ph_bitfield h)" .
  let ?b = "new_buffer_for h i (keys (ph_peers h))"
  let ?n = "num_blocks (piece_length_of h i)"
  let ?full = "(serve_round (c i) ^^ ?n) ?b"
  from inv have d: "distinct (keys (ph_peers h))" and fin: "\<not> ph_finished h"
    using nf by (auto simp: ph_inv_def)
  from seed len have c1: "length (c i) = piece_length_of h i" "c i \<noteq> []" and ne: "keys (ph_peers h) \<noteq> []"
    by (auto simp: all_seed_def)
  then have "0 < piece_length_of h i" by (metis length_greater_0_conv)
  then have n: "0 < ?n" by (rule num_blocks_pos)
  have pb: "pb_inv ?b" using d unfolding new_buffer_for_def by (rule pb_inv_new)
  have fields: "pb_piece_index ?b = i" "pb_piece_length ?b = piece_length_of h i" "pb_torrent_id ?b = ph_id h" "pb_pending_blocks ?b = []"
    "pb_missing_blocks ?b = piece_layout i (piece_length_of h i)" "pb_peers ?b \<noteq> []" "all_from (c i) ?b"
    using ne by (simp_all add: new_buffer_for_def new_missing_blocks all_from_def)
  then have "pb_missing_blocks ?b \<noteq> []" using n by (simp add: piece_layout_def)
  then have nfull: "\<not> is_full_piece ?b" by (rule not_full_if_missing [OF pb])
  have "ph_poll sh h = ph_poll sh (h\<lparr>ph_piece_buffer := Some ?b\<rparr>)"
    using none fin nf b nfull by (simp add: ph_poll_def Let_def split_beta)
  moreover from serve_rounds_complete [OF ne d c1(1)] have "is_full_piece ?full" "try_finalize_piece ?full = Inr (whole_piece h c i)"
    by (simp_all add: new_buffer_for_def whole_piece_def)
  then have "ph_poll sh (h\<lparr>ph_piece_buffer := Some ?full\<rparr>) =
      (PieceFinished (Inr (whole_piece h c i)), h\<lparr>ph_bitfield := (ph_bitfield h)[i := True]\<rparr>)"
    using none len by (simp add: ph_poll_def set_piece_def whole_piece_def Block_new_def BlockMetadata_new_def Let_def)
  ultimately show thesis using i len c1(1) n b nfull pb fields by (intro that)
qed

lemma piece_phase:
  assumes inv: "ph_inv h" and sh: "permutes sh" and none: "ph_piece_buffer h = None"
    and nf: "\<not> bv_all (ph_bitfield h)" and seed: "all_seed h c"
  obtains i sts where "i \<in> set (missing_piece_indices h)"
    "download sh c (rounds_for h i) h = (sts, h\<lparr>ph_bitfield := (ph_bitfield h)[i := True]\<rparr>)"
    "finished_pieces sts = [Inr (whole_piece h c i)]"
proof -
  obtain i buf where i: "i \<in> set (missing_piece_indices h)" and c: "length (c i) = piece_length_of h i"
    and n: "0 < num_blocks (piece_length_of h i)" and next_buf: "next_piece_buffer sh h = Some buf" and nfull: "\<not> is_full_piece buf"
    and buf: "pb_inv buf" "pb_piece_index buf = i" "pb_piece_length buf = piece_length_of h i" "pb_pending_blocks buf = []"
    "pb_missing_blocks buf = piece_layout i (piece_length_of h i)" "pb_peers buf \<noteq> []" "all_from (c i) buf"
    and full: "ph_poll sh (h\<lparr>ph_piece_buffer := Some ((serve_round (c i) ^^ num_blocks (piece_length_of h i)) buf)\<rparr>) =
      (PieceFinished (Inr (whole_piece h c i)), h\<lparr>ph_bitfield := (ph_bitfield h)[i := True]\<rparr>)"
    by (rule fresh_piece [OF assms])
  let ?n = "num_blocks (piece_length_of h i)"
  let ?h = "h\<lparr>ph_piece_buffer := Some buf\<rparr>"
  from rounds_current [of buf c ?n ?h sh] buf c obtain sts where
    sts: "download sh c ?n ?h = (sts, h\<lparr>ph_piece_buffer := Some ((serve_round (c i) ^^ ?n) buf)\<rparr>)" "finished_pieces sts = []"
    by (auto simp: piece_layout_def)
  have "\<not> ph_finished h" using inv nf by (auto simp: ph_inv_def)
  from round_fresh [OF none this nf next_buf nfull, of c] n
  have "download sh c ?n h = download sh c ?n ?h" by (cases ?n) simp_all
  with sts full have "download sh c (?n + 1) h = (sts @ [PieceFinished (Inr (whole_piece h c i))],
      h\<lparr>ph_bitfield := (ph_bitfield h)[i := True]\<rparr>)"
    by (simp only: download_add) (simp add: handler_round_def)
  then show thesis using that i sts(2) by (simp add: rounds_for_def)
qed

lemma missing_empty:
  assumes "ph_piece_buffer h = None"
  shows "missing_piece_indices h = [] \<longleftrightarrow> bv_all (ph_bitfield h)"
proof -
  have "missing_piece_indices h = [] \<longleftrightarrow> set (missing_piece_indices h) = {}" by simp
  also have "\<dots> \<longleftrightarrow> bv_all (ph_bitfield h)"
    using assms by (auto simp: missing_piece_indices_set bv_all_iff)
  finally show ?thesis .
qed

lemma missing_after_piece:
  assumes "ph_piece_buffer h = None" and "i \<in> set (missing_piece_indices h)"
  shows "mset (missing_piece_indices h)
    = add_mset i (mset (missing_piece_indices (h\<lparr>ph_bitfield := (ph_bitfield h)[i := True]\<rparr>)))"
proof -
  let ?h' = "h\<lparr>ph_bitfield := (ph_bitfield h)[i := True]\<rparr>"
  have d: "distinct (missing_piece_indices h)" for h
    by (simp add: missing_piece_indices_def Let_def distinct_map_filter)
  have "set (missing_piece_indices h) = set (i # missing_piece_indices ?h')"
    using assms by (auto simp: missing_piece_indices_set nth_list_update)
  moreover have "i \<notin> set (missing_piece_indices ?h')"
    using assms by (simp add: missing_piece_indices_set)
  ultimately have "mset (missing_piece_indices h) = mset (i # missing_piece_indices ?h')"
    using d by (subst set_eq_iff_mset_eq_distinct [symmetric]) auto
  then show ?thesis by simp
qed

lemma download_completes:
  assumes "ph_inv h" and "permutes sh" and "ph_piece_buffer h = None" and "\<not> ph_finished h"
    and "all_seed h c"
  shows "\<exists>sts h'. download sh c (Suc (sum_list (map (rounds_for h) (missing_piece_indices h)))) h
      = (sts, h') \<and> last sts = Finished \<and> ph_finished h' \<and> bv_all (ph_bitfield h') \<and>
    mset (finished_pieces sts) = image_mset (Inr \<circ> whole_piece h c) (mset (missing_piece_indices h))"
  using assms
proof (induction "length (missing_piece_indices h)" arbitrary: h)
  case 0
  then have "bv_all (ph_bitfield h)" using missing_empty by simp
  with 0 show ?case by (simp add: handler_round_def ph_poll_def)
next
  case (Suc n)
  then have nf: "\<not> bv_all (ph_bitfield h)"
    using missing_empty [of h] by auto
  from piece_phase [OF Suc.prems(1,2,3) nf Suc.prems(5)] obtain i sts where
    i: "i \<in> set (missing_piece_indices h)" and
    phase: "download sh c (rounds_for h i) h = (sts, h\<lparr>ph_bitfield := (ph_bitfield h)[i := True]\<rparr>)"
    and fin: "finished_pieces sts = [Inr (whole_piece h c i)]" .
  define h' where "h' = h\<lparr>ph_bitfield := (ph_bitfield h)[i := True]\<rparr>"
  have plen: "piece_length_of h' = piece_length_of h" by (auto simp: h'_def piece_length_of_def)
  have miss: "mset (missing_piece_indices h) = add_mset i (mset (missing_piece_indices h'))"
    unfolding h'_def by (rule missing_after_piece [OF Suc.prems(3) i])
  then have "n = length (missing_piece_indices h')"
    using Suc.hyps(2) by (metis nat.inject size_add_mset size_mset)
  moreover have "ph_inv h'" "ph_piece_buffer h' = None" "\<not> ph_finished h'"
    using Suc.prems by (auto simp: ph_inv_def h'_def)
  moreover have "all_seed h' c" using Suc.prems(5) by (simp add: all_seed_def h'_def plen [unfolded h'_def])
  ultimately obtain sts' h'' where rest:
    "download sh c (Suc (sum_list (map (rounds_for h') (missing_piece_indices h')))) h' = (sts', h'')"
    "last sts' = Finished" "ph_finished h''" "bv_all (ph_bitfield h'')"
    "mset (finished_pieces sts') = image_mset (Inr \<circ> whole_piece h' c) (mset (missing_piece_indices h'))"
    using Suc.hyps(1) [of h'] Suc.prems(2) by blast
  have same: "rounds_for h' = rounds_for h" "whole_piece h' c = whole_piece h c"
    by (auto simp: rounds_for_def whole_piece_def plen)
  have "sum_list (map (rounds_for h) (missing_piece_indices h))
      = rounds_for h i + sum_list (map (rounds_for h) (missing_piece_indices h'))"
    using arg_cong [OF miss, of "\<lambda>M. sum_mset (image_mset (rounds_for h) M)"]
    by (simp flip: sum_mset_sum_list)
  then have "download sh c (Suc (sum_list (map (rounds_for h) (missing_piece_indices h)))) h
      = download sh c (rounds_for h i
          + Suc (sum_list (map (rounds_for h') (missing_piece_indices h')))) h"
    by (simp add: same)
  also have "\<dots> = (sts @ sts', h'')"
    by (simp only: download_add phase h'_def [symmetric] prod.case rest(1))
  finally show ?case
    using rest(2-5) fin miss same by (cases "sts' = []") (use rest(1) in \<open>auto simp: split_beta\<close>)
qed

section \<open>Properties\<close>

text \<open>
  C5. A download completes. Start from any reachable handler that is not finished and has no
  piece in progress, whose tracked peers (at least one) can all seed every piece and answer
  every request with the bytes of the content. Then after exactly one poll per block of every
  missing piece, one more per missing piece and a last one, the handler answers \<^verbatim>\<open>Finished\<close>;
  every missing piece was reported exactly once, with exactly its content, no piece failed,
  and the client owns every piece. This holds for every shuffle and both selection strategies.
\<close>

theorem honest_download_completes:
  assumes "ph_reachable h" and "\<forall>xs. mset (shuffle xs) = mset xs"
    and "ph_piece_buffer h = None" and "\<not> ph_finished h" and "all_seed h content"
  shows "\<exists>sts h'.
    download shuffle content
      (Suc (sum_list (map (\<lambda>i. Suc (num_blocks (piece_length_of h i))) (missing_piece_indices h)))) h
      = (sts, h') \<and>
    last sts = Finished \<and> ph_finished h' \<and> False \<notin> set (ph_bitfield h') \<and>
    mset (finished_pieces sts) =
      mset (map (\<lambda>i. Inr (Block_new (BlockMetadata_new i 0 (piece_length_of h i)) (content i)))
        (missing_piece_indices h))"
proof -
  have all: "bv_all bf \<Longrightarrow> False \<notin> set bf" for bf by (metis (full_types) bv_all_def list_all_iff)
  have r: "rounds_for h = (\<lambda>i. Suc (num_blocks (piece_length_of h i)))"
    by (simp add: rounds_for_def fun_eq_iff)
  have w: "Inr \<circ> whole_piece h content
      = (\<lambda>i. Inr (Block_new (BlockMetadata_new i 0 (piece_length_of h i)) (content i)))"
    by (simp add: whole_piece_def fun_eq_iff)
  from download_completes [OF ph_run_idle_inv [OF assms(1,3)] assms(2-5), unfolded r w] all
  show ?thesis unfolding mset_map by blast
qed

theorem honest_download_completes_witness:
  "let peer = (new_with_bitfield 0 [] [True, True])\<lparr>client_interest := Interested, remote_choke := UnChoked\<rparr>;
       h = snd (insert_peer 1 peer (TorrentPieceHandler_new (TorrentId 0) Rarest [False, False] 5 2))
   in \<exists>sts h'. download rev (\<lambda>i. if i = 1 then [8, 9] else [1, 2, 3, 4, 5])
          (Suc (sum_list (map (\<lambda>i. Suc (num_blocks (piece_length_of h i))) (missing_piece_indices h)))) h
          = (sts, h') \<and> last sts = Finished"
proof -
  let ?peer = "(new_with_bitfield 0 [] [True, True])\<lparr>client_interest := Interested, remote_choke := UnChoked\<rparr>"
  let ?new = "TorrentPieceHandler_new (TorrentId 0) Rarest [False, False] 5 2"
  let ?h = "snd (insert_peer 1 ?peer ?new)"
  have r: "ph_reachable ?h" by (rule ph_more [OF ph_start s_insert]) simp
  have "ph_piece_buffer ?h = None" "\<not> ph_finished ?h"
    by (simp_all add: insert_peer_def TorrentPieceHandler_new_def bv_all_def Let_def)
  moreover have "all_seed ?h (\<lambda>i. if i = 1 then [8, 9] else [1, 2, 3, 4, 5])"
    by (auto simp: all_seed_def insert_peer_def TorrentPieceHandler_new_def Let_def hm_insert_def
        remote_can_seed_piece_iff new_with_bitfield_def piece_length_of_def less_Suc_eq)
  ultimately show ?thesis
    using honest_download_completes [OF r, of rev] unfolding Let_def by (simp only: mset_rev) blast
qed

end
