(* ===== verification/Native.thy ===== *)
theory Native
  imports DiskManagers
begin

text \<open>
  The file system of the operating system (\<^verbatim>\<open>src/disk/native.rs\<close>) as an instance of the \<^verbatim>\<open>FileSystem\<close>
  trait, and the disk manager over it. The files of tokio are a parameter: every operation makes a
  future and polls it once, so a field of \<open>tokio_files\<close> is one poll of a fresh future.

  The theorem says which paths are opened: below the directory of the file system, unless the
  metainfo of the torrent names an absolute path.
\<close>

section \<open>The file system\<close>

record OpenOptions =
  oo_read :: bool
  oo_write :: bool
  oo_create :: bool

record Metadata =
  md_len :: u64

record ('f, 'e, 'w) tokio_files =
  tk_open :: "OpenOptions \<Rightarrow> path \<Rightarrow> 'w \<Rightarrow> ('e + 'f) poll \<times> 'w"
  tk_sync_all :: "'f \<Rightarrow> 'w \<Rightarrow> ('e + unit) poll \<times> 'f \<times> 'w"
  tk_metadata :: "'f \<Rightarrow> 'w \<Rightarrow> ('e + Metadata) poll \<times> 'f \<times> 'w"
  tk_seek :: "'f \<Rightarrow> u64 \<Rightarrow> 'w \<Rightarrow> ('e + u64) poll \<times> 'f \<times> 'w"
  tk_read_buf :: "'f \<Rightarrow> u8 list \<Rightarrow> 'w \<Rightarrow> ('e + usize) poll \<times> 'f \<times> u8 list \<times> 'w"
  tk_write :: "'f \<Rightarrow> u8 list \<Rightarrow> 'w \<Rightarrow> ('e + usize) poll \<times> 'f \<times> 'w"

record NativeFileSystem =
  target_dir :: path
  file_ops :: OpenOptions

definition NativeFileSystem_from :: "path \<Rightarrow> NativeFileSystem" where
  "NativeFileSystem_from dir =
     \<lparr>target_dir = dir, file_ops = \<lparr>oo_read = True, oo_write = True, oo_create = True\<rparr>\<rparr>"

definition native_poll_open_file ::
  "('f, 'e, 'w) tokio_files \<Rightarrow> NativeFileSystem \<Rightarrow> path \<Rightarrow> 'w \<Rightarrow> ('e + 'f) poll \<times> 'w" where
  "native_poll_open_file tk fs p = tk_open tk (file_ops fs) (path_join (target_dir fs) p)"

definition native_sync_file :: "('f, 'e, 'w) tokio_files \<Rightarrow> 'f \<Rightarrow> 'w \<Rightarrow> ('e + unit) poll \<times> 'f \<times> 'w" where
  "native_sync_file tk file = tk_sync_all tk file"

definition native_poll_file_size :: "('f, 'e, 'w) tokio_files \<Rightarrow> 'f \<Rightarrow> 'w \<Rightarrow> ('e + u64) poll \<times> 'f \<times> 'w" where
  "native_poll_file_size tk file w =
     (case tk_metadata tk file w of
        (Pending, file', w') \<Rightarrow> (Pending, file', w')
      | (poll.Ready (Inl e), file', w') \<Rightarrow> (poll.Ready (Inl e), file', w')
      | (poll.Ready (Inr meta), file', w') \<Rightarrow> (poll.Ready (Inr (md_len meta)), file', w'))"

definition native_poll_seek :: "('f, 'e, 'w) tokio_files \<Rightarrow> 'f \<Rightarrow> u64 \<Rightarrow> 'w \<Rightarrow> ('e + u64) poll \<times> 'f \<times> 'w" where
  "native_poll_seek tk file seek = tk_seek tk file seek"

definition native_poll_read_block ::
  "('f, 'e, 'w) tokio_files \<Rightarrow> 'f \<Rightarrow> u8 list \<Rightarrow> 'w \<Rightarrow> ('e + usize) poll \<times> 'f \<times> u8 list \<times> 'w" where
  "native_poll_read_block tk file block = tk_read_buf tk file block"

definition native_poll_write_block ::
  "('f, 'e, 'w) tokio_files \<Rightarrow> 'f \<Rightarrow> u8 list \<Rightarrow> 'w \<Rightarrow> ('e + usize) poll \<times> 'f \<times> 'w" where
  "native_poll_write_block tk file buf = tk_write tk file buf"

definition native_fs :: "('f, 'e, 'w) tokio_files \<Rightarrow> NativeFileSystem \<Rightarrow> ('f, 'e, 'w) FileSystem" where
  "native_fs tk fs =
     \<lparr>poll_open_file = native_poll_open_file tk fs, sync_file = native_sync_file tk,
      poll_file_size = native_poll_file_size tk, poll_seek = native_poll_seek tk,
      poll_read_block = native_poll_read_block tk, poll_write_block = native_poll_write_block tk\<rparr>"

text \<open>
  \<^verbatim>\<open>DiskManager::with_native_fs\<close>: the file system of the manager and the manager with an empty cache;
  \<open>new_cache\<close> makes a cache of the given capacity.
\<close>

definition with_native_fs ::
  "('f, 'e, 'w) tokio_files \<Rightarrow> (nat \<Rightarrow> 'c) \<Rightarrow> path \<Rightarrow> ('f, 'e, 'w) FileSystem \<times> ('f, 'c) DiskManager" where
  "with_native_fs tk new_cache dir = (native_fs tk (NativeFileSystem_from dir), with_capacity (new_cache 100))"

section \<open>Specification\<close>

text \<open>What is left of a sequence of joins: everything before the last absolute string is replaced.\<close>

fun rooted :: "path \<Rightarrow> path" where
  "rooted [] = []"
| "rooted (p # ps) = (if \<exists>q \<in> set ps. is_absolute [q] then rooted ps else p # ps)"

text \<open>The strings of the metainfo that make the path of a file: the name and the path below it.\<close>

definition named_paths :: "TorrentInfo \<Rightarrow> path list" where
  "named_paths ti =
     (case ti_content ti of Single _ \<Rightarrow> [[ti_name ti]] | Multi files \<Rightarrow> map (\<lambda>f. ti_name ti # sf_paths f) files)"

text \<open>Files that can only be opened, for the witness: the path is the file.\<close>

definition demo_tokio :: "(path, unit, unit) tokio_files" where
  "demo_tokio = \<lparr>tk_open = (\<lambda>_ p w. (poll.Ready (Inr p), w)), tk_sync_all = (\<lambda>f w. (Pending, f, w)),
     tk_metadata = (\<lambda>f w. (Pending, f, w)), tk_seek = (\<lambda>f n w. (Pending, f, w)),
     tk_read_buf = (\<lambda>f b w. (Pending, f, b, w)), tk_write = (\<lambda>f b w. (Pending, f, w))\<rparr>"

section \<open>Lemmas\<close>

lemma absolute_Cons: "is_absolute (p # ps) = (case p of [] \<Rightarrow> False | c # _ \<Rightarrow> c = 47)"
  by (cases p) simp_all

lemma rooted_snoc: "rooted (ps @ [p]) = (if is_absolute [p] then [p] else rooted ps @ [p])"
  by (induction ps) auto

lemma rooted_plain: "\<not> (\<exists>p \<in> set ps. is_absolute [p]) \<Longrightarrow> rooted ps = ps"
  by (cases ps) auto

lemma rooted_absolute: "is_absolute (rooted ps) \<longleftrightarrow> (\<exists>p \<in> set ps. is_absolute [p])"
  by (induction ps) (auto simp: absolute_Cons)

lemma relative_rooted: "relative_file_path f = rooted (sf_paths f)"
proof -
  have "fold (\<lambda>p buf. path_join buf [p]) ps [] = rooted ps" for ps
    by (induction ps rule: rev_induct) (simp_all add: path_join_def rooted_snoc)
  then show ?thesis by (simp add: relative_file_path_def)
qed

lemma join_rooted: "path_join [n] (rooted ps) = rooted (n # ps)"
  by (auto simp: path_join_def rooted_absolute rooted_plain)

lemma multi_entries_paths:
  "multi_entries checks tid [n] k off files = Some entries \<Longrightarrow>
   map fe_path entries = map (\<lambda>f. rooted (n # sf_paths f)) files"
  by (induction checks tid "[n]" k off files arbitrary: entries rule: multi_entries.induct)
    (auto simp: bind_eq_Some_conv relative_rooted join_rooted simp del: rooted.simps)

lemma torrent_paths:
  assumes "TorrentFile_new checks tid mi = Some t"
  shows "map fe_path (tfl_files t) = map rooted (named_paths (mi_info mi))"
  using assms
  by (auto simp: TorrentFile_new_def named_paths_def bind_eq_Some_conv Let_def dest: multi_entries_paths
      split: InfoContent.splits simp del: rooted.simps(2)) simp_all

section \<open>Properties\<close>

text \<open>
  C36. Where the files of a torrent are opened. The path of every file is made of strings of the metainfo:
  the name of the torrent and the path below it. When none of them is absolute, the file is opened at
  the directory of the file system followed by exactly these strings. When one of them is absolute,
  the directory is ignored: the path that is opened starts with the last absolute string, whatever
  the directory is. The strings are handed to the operating system as they are: one that is
  \<^verbatim>\<open>..\<close> is resolved there and leads out of the directory too. So a torrent chooses where in the file
  system of the client it is written.
\<close>

theorem opened_paths:
  assumes "TorrentFile_new checks tid mi = Some t" and "i < length (tfl_files t)"
  shows "i < length (named_paths (mi_info mi)) \<and>
    poll_open_file (native_fs tk (NativeFileSystem_from dir)) (fe_path (tfl_files t ! i)) w =
      tk_open tk \<lparr>oo_read = True, oo_write = True, oo_create = True\<rparr>
        (if \<exists>s \<in> set (named_paths (mi_info mi) ! i). is_absolute [s]
         then rooted (named_paths (mi_info mi) ! i) else dir @ named_paths (mi_info mi) ! i) w"
proof -
  note ps = torrent_paths [OF assms(1)]
  from arg_cong [OF ps, of length] assms(2) have i: "i < length (named_paths (mi_info mi))" by simp
  with arg_cong [OF ps, of "\<lambda>xs. xs ! i"] assms(2)
  have "fe_path (tfl_files t ! i) = rooted (named_paths (mi_info mi) ! i)" by simp
  with i show ?thesis
    by (simp add: native_fs_def native_poll_open_file_def NativeFileSystem_from_def path_join_def rooted_absolute rooted_plain)
qed

theorem opened_paths_witness:
  "poll_open_file (native_fs demo_tokio (NativeFileSystem_from [[100]])) (fe_path
     \<lparr>fe_path = [[99]], fe_id = TorrentFileId_new (TorrentId 0) (FileId 0), fe_offset = 0, fe_size = 4\<rparr>) () =
     (poll.Ready (Inr [[100], [99]]), ())"
  using opened_paths [OF one_file_new, where i = 0 and tk = demo_tokio and dir = "[[100]]" and w = "()"]
  by (simp add: demo_tokio_def named_paths_def one_file_def)

end
