(* ===== verification/Writes.thy ===== *)
theory Writes
  imports DiskManagers
begin

text \<open>
  How the disk manager works through a queue of pieces for one file. Only one job can hold the file,
  so a poll starts the first piece and queues the second one again at the end; the next poll finishes
  the first piece. The pieces are written one after the other, but not in the order of the queue.
\<close>

section \<open>Specification\<close>

text \<open>A file system whose operations on an open file complete at once.\<close>

definition prompt_fs :: "('f, 'e, 'w) FileSystem \<Rightarrow> ('f \<Rightarrow> u8 list) \<Rightarrow> ('f \<Rightarrow> nat) \<Rightarrow> bool" where
  "prompt_fs fs bytes pos \<longleftrightarrow> fs_laws fs bytes pos \<and> (\<forall>f off buf w. \<exists>f2 w2. prompt_write fs f off buf w f2 w2)"

text \<open>A piece with the hash of its torrent that belongs at the offset \<open>off\<close> of the file.\<close>

definition fits :: "('f, 'e, 'w, 'c) disk_env \<Rightarrow> TorrentFile \<Rightarrow> FileEntry \<Rightarrow> (Block \<Rightarrow> nat) \<Rightarrow> Block \<Rightarrow> bool" where
  "fits env t entry off piece \<longleftrightarrow> is_good_piece (de_sha1 env) t piece \<and>
     files_for_block (de_checks env) t (bl_metadata piece) =
       Some (Inr [(entry, FileWindow_new (off piece) (length (bl_data piece)))])"

definition write_job :: "FileEntry \<Rightarrow> 'f \<Rightarrow> (Block \<Rightarrow> nat) \<Rightarrow> Block \<Rightarrow> 'f BlockJob" where
  "write_job entry f off piece = Write (WriteSingle (bl_metadata piece)
     (BlockFileWrite_new (BlockFile_new (fe_id entry) f) (bl_data piece) (FileWindow_new (off piece) (length (bl_data piece)))))"

text \<open>
  The manager with the pieces that are still to be written after a poll: the first of them is being
  written, the others are queued. It differs from \<open>d\<close> in nothing else but its cache.
\<close>

abbreviation disk_with ::
  "('f, 'c) DiskManager \<Rightarrow> DiskMessageIn list \<Rightarrow> 'f BlockJob list \<Rightarrow> 'c \<Rightarrow> ('f, 'c) DiskManager" where
  "disk_with d q jobs c \<equiv>
     \<lparr>dm_active_blocks = jobs, dm_file_cache = c, dm_torrents = dm_torrents d, dm_queued_events = q\<rparr>"

definition writing ::
  "('c \<Rightarrow> TorrentFileId \<Rightarrow> 'f FileState option) \<Rightarrow> TorrentId \<Rightarrow> FileEntry \<Rightarrow> (Block \<Rightarrow> nat) \<Rightarrow> ('f, 'c) DiskManager
    \<Rightarrow> 'f \<Rightarrow> Block list \<Rightarrow> ('f, 'c) DiskManager \<Rightarrow> bool" where
  "writing look tid entry off d f pieces dm \<longleftrightarrow>
     (\<exists>c. dm = disk_with d (map (WriteBlock tid) (tl pieces)) (case pieces of [] \<Rightarrow> [] | p # _ \<Rightarrow> [write_job entry f off p]) c \<and>
        (if pieces = [] then look c (fe_id entry) = Some (FileReady f) else is_busy (look c (fe_id entry))))"

text \<open>The manager with the pieces queued and nothing begun, over a file that is at hand.\<close>

definition waiting ::
  "('f, 'e, 'w, 'c) disk_env \<Rightarrow> ('c \<Rightarrow> TorrentFileId \<Rightarrow> 'f FileState option) \<Rightarrow> TorrentId \<Rightarrow> FileEntry
    \<Rightarrow> ('f, 'c) DiskManager \<Rightarrow> 'f \<Rightarrow> 'w \<Rightarrow> 'w \<Rightarrow> Block list \<Rightarrow> ('f, 'c) DiskManager \<Rightarrow> bool" where
  "waiting env look tid entry d f w w' pieces dm \<longleftrightarrow>
     (\<exists>c. dm = disk_with d (map (WriteBlock tid) pieces) [] c \<and>
        available env look c entry w f w')"

text \<open>What the writes of some pieces leave of the bytes of a file.\<close>

definition put :: "(Block \<Rightarrow> nat) \<Rightarrow> Block list \<Rightarrow> u8 list \<Rightarrow> u8 list" where
  "put off pieces = fold (\<lambda>p. overwrite (off p) (bl_data p)) pieces"

section \<open>Polls\<close>

lemma create_write_single:
  assumes "dm_torrent dm tid = Some t" and "fits env t entry off piece" and "lru_laws (de_lru env) look cap"
    and "available env look (dm_file_cache dm) entry w f w'"
  obtains c where "poll_create_block_write env tid piece dm w =
      Some (poll.Ready (Inr (write_job entry f off piece)), dm\<lparr>dm_file_cache := c\<rparr>, w')" "is_busy (look c (fe_id entry))"
proof -
  from assms(2) have g: "is_good_piece (de_sha1 env) t piece" and ff: "files_for_block (de_checks env) t (bl_metadata piece) =
       Some (Inr [(entry, FileWindow_new (off piece) (length (bl_data piece)))])" by (simp_all add: fits_def)
  from poll_files_single [OF assms(1) ff assms(3,4)] obtain c where
    "poll_files env tid (bl_metadata piece) dm w =
      Some (poll.Ready (Inr [(FileWindow_new (off piece) (length (bl_data piece)), BlockFile_new (fe_id entry) f)]),
        dm\<lparr>dm_file_cache := c\<rparr>, w')" "is_busy (look c (fe_id entry))" by blast
  then show thesis using that g assms(1)
    by (simp add: poll_create_block_write_def dm_is_good_piece_def write_job_def)
qed

lemma create_write_busy:
  assumes "dm_torrent dm tid = Some t" and "fits env t entry off piece" and "lru_laws (de_lru env) look cap"
    and "is_busy (look (dm_file_cache dm) (fe_id entry))"
  obtains c where "poll_create_block_write env tid piece dm w =
      Some (Pending, push_event (WriteBlock tid piece) (dm\<lparr>dm_file_cache := c\<rparr>), w)" "is_busy (look c (fe_id entry))"
proof -
  from assms(2) have g: "is_good_piece (de_sha1 env) t piece" and ff: "files_for_block (de_checks env) t (bl_metadata piece) =
       Some (Inr [(entry, FileWindow_new (off piece) (length (bl_data piece)))])" by (simp_all add: fits_def)
  obtain st c where r: "lru_remove (de_lru env) (fe_id entry) (dm_file_cache dm) = (st, c)"
    by (cases "lru_remove (de_lru env) (fe_id entry) (dm_file_cache dm)")
  with lru_remove_look [OF assms(3), of "fe_id entry" "dm_file_cache dm"] assms(4) obtain win where st: "st = Some (Busy win)"
    by (auto simp: is_busy_def)
  have "poll_create_block_write env tid piece dm w = Some (Pending, push_event (WriteBlock tid piece)
      (dm\<lparr>dm_file_cache := lru_insert (de_lru env) (fe_id entry) (Busy win) c\<rparr>), w)"
    using assms(1) g ff r st by (simp add: poll_create_block_write_def dm_is_good_piece_def poll_files_def)
  then show thesis by (rule that) (simp add: lru_insert_look [OF assms(3)])
qed

text \<open>The job of a piece, polled once.\<close>

lemma job_poll:
  assumes "prompt_write fs f (off piece) (bl_data piece) w f2 w2"
  shows "BlockJob_poll fs (write_job entry f off piece) w = Some (poll.Ready (Inr ()), Write (WriteSingle (bl_metadata piece)
      \<lparr>bw_file = BlockFile_new (fe_id entry) f2, bw_written = length (bl_data piece), bw_block = bl_data piece,
       bw_window = FileWindow_new (off piece) (length (bl_data piece)), bw_state = BlockState.Ready\<rparr>), w2)"
proof -
  have "prompt_write fs f (fw_offset (FileWindow_new (off piece) (length (bl_data piece)))) (bl_data piece) w f2 w2"
    "length (bl_data piece) = fw_length (FileWindow_new (off piece) (length (bl_data piece)))"
    using assms by (simp_all add: FileWindow_new_def)
  from prompt_write_poll [OF this, of "fe_id entry"] show ?thesis by (simp add: write_job_def)
qed

lemma writing_done:
  assumes "writing look tid entry off d f [] dm"
  shows "dm_poll env (Suc n) dm w = Some (Some (Pending, dm, w))"
  using assms by (auto simp: writing_def)

lemma writing_poll:
  assumes "writing look tid entry off d f (p # ps) dm" and "lru_laws (de_lru env) look cap" and "tf_torrent (fe_id entry) = tid"
    and "prompt_write (de_fs env) f (off p) (bl_data p) w f2 w2"
  obtains dm' where "dm_poll env (Suc n) dm w = Some (Some (poll.Ready (PieceWritten tid p), dm', w2))"
    "waiting env look tid entry d f2 w2 w2 ps dm'" "ps = [] \<Longrightarrow> writing look tid entry off d f2 [] dm'"
proof -
  from assms(1) obtain c where dm: "dm = disk_with d (map (WriteBlock tid) ps) [write_job entry f off p] c" by (auto simp: writing_def)
  let ?dm' = "disk_with d (map (WriteBlock tid) ps) [] (lru_insert (de_lru env) (fe_id entry) (FileReady f2) c)"
  have "dm_poll env (Suc n) dm w = Some (Some (poll.Ready (PieceWritten tid p), ?dm', w2))"
    using job_poll [where off = off and piece = p and entry = entry, OF assms(4)] assms(3)
    by (simp add: dm swap_remove_def finalize_block_def release_files_def BlockFile_new_def Block_new_def FileWindow_new_def)
  moreover have "waiting env look tid entry d f2 w2 w2 ps ?dm'"
    unfolding waiting_def by (rule exI) (auto simp: available_def lru_insert_look [OF assms(2)])
  moreover have "writing look tid entry off d f2 [] ?dm'" if "ps = []"
    using that by (auto simp: writing_def lru_insert_look [OF assms(2)])
  ultimately show thesis by (rule that)
qed

lemma waiting_done:
  assumes "waiting env look tid entry d f w w' [] dm"
  shows "dm_poll env (Suc n) dm v = Some (Some (Pending, dm, v))"
  using assms by (auto simp: waiting_def)

lemma waiting_one:
  assumes "waiting env look tid entry d f w w1 [p] dm" and "dm_torrent d tid = Some t" and "fits env t entry off p"
    and "lru_laws (de_lru env) look cap" and "tf_torrent (fe_id entry) = tid"
    and "prompt_write (de_fs env) f (off p) (bl_data p) w1 f2 w2"
  obtains dm' where "dm_poll env (Suc (Suc n)) dm w = Some (Some (poll.Ready (PieceWritten tid p), dm', w2))"
    "writing look tid entry off d f2 [] dm'"
proof -
  from assms(1) obtain c where dm: "dm = disk_with d [WriteBlock tid p] [] c"
    and av: "available env look c entry w f w1" by (auto simp: waiting_def)
  let ?dm = "disk_with d [] [] c"
  have "dm_torrent ?dm tid = Some t" using assms(2) by (simp add: dm_torrent_def)
  from create_write_single [OF this assms(3,4), of w f w1] av obtain c1 where
    c1: "poll_create_block_write env tid p ?dm w = Some (poll.Ready (Inr (write_job entry f off p)), ?dm\<lparr>dm_file_cache := c1\<rparr>, w1)"
    by auto
  then have "queue_loop env (dm_queued_events dm) dm w = Some (None, ?dm\<lparr>dm_active_blocks := [write_job entry f off p], dm_file_cache := c1\<rparr>, w1)"
    by (simp add: dm Let_def)
  from dm_poll_one_job [OF _ this _ job_poll [where off = off and piece = p and entry = entry, OF assms(6)], of n] assms(5)
  have "dm_poll env (Suc (Suc n)) dm w = Some (Some (poll.Ready (PieceWritten tid p),
      ?dm\<lparr>dm_file_cache := lru_insert (de_lru env) (fe_id entry) (FileReady f2) c1\<rparr>, w2))"
    by (simp add: dm finalize_block_def release_files_def BlockFile_new_def Block_new_def FileWindow_new_def
        del: dm_poll.simps)
  moreover have "writing look tid entry off d f2 [] (?dm\<lparr>dm_file_cache := lru_insert (de_lru env) (fe_id entry) (FileReady f2) c1\<rparr>)"
    by (auto simp: writing_def lru_insert_look [OF assms(4)])
  ultimately show thesis by (rule that)
qed

text \<open>With two pieces for the file the poll is pending: the first is begun and the second goes to the end of the queue.\<close>

lemma waiting_two:
  assumes "waiting env look tid entry d f w w1 (p # q # ps) dm" and "dm_torrent d tid = Some t"
    and "fits env t entry off p" and "fits env t entry off q" and "lru_laws (de_lru env) look cap"
  obtains dm' where "dm_poll env (Suc n) dm w = Some (Some (Pending, dm', w1))"
    "writing look tid entry off d f (p # ps @ [q]) dm'"
proof -
  let ?rest = "map (WriteBlock tid) ps"
  from assms(1) obtain c where dm: "dm = disk_with d (WriteBlock tid p # WriteBlock tid q # ?rest) [] c"
    and av: "available env look c entry w f w1" by (auto simp: waiting_def)
  let ?dm = "disk_with d (WriteBlock tid q # ?rest) [] c"
  have "dm_torrent ?dm tid = Some t" using assms(2) by (simp add: dm_torrent_def)
  from create_write_single [OF this assms(3,5), of w f w1] av obtain c1 where
    c1: "poll_create_block_write env tid p ?dm w = Some (poll.Ready (Inr (write_job entry f off p)), ?dm\<lparr>dm_file_cache := c1\<rparr>, w1)"
    and busy: "is_busy (look c1 (fe_id entry))" by auto
  let ?dm1 = "disk_with d ?rest [write_job entry f off p] c1"
  have "dm_torrent ?dm1 tid = Some t" using assms(2) by (simp add: dm_torrent_def)
  from create_write_busy [OF this assms(4,5), of w1] busy obtain c2 where
    c2: "poll_create_block_write env tid q ?dm1 w1 = Some (Pending, push_event (WriteBlock tid q) (?dm1\<lparr>dm_file_cache := c2\<rparr>), w1)"
    "is_busy (look c2 (fe_id entry))" by auto
  have "dm_poll env (Suc n) dm w = Some (Some (Pending, push_event (WriteBlock tid q) (?dm1\<lparr>dm_file_cache := c2\<rparr>), w1))"
    using c1 c2(1) by (simp add: dm Let_def)
  moreover have "writing look tid entry off d f (p # ps @ [q]) (push_event (WriteBlock tid q) (?dm1\<lparr>dm_file_cache := c2\<rparr>))"
    using c2(2) by (auto simp: writing_def push_event_def)
  ultimately show thesis by (rule that)
qed

section \<open>The bytes of the file\<close>

text \<open>A file holds a piece when the bytes at its place are the bytes of the piece.\<close>

definition has_piece :: "nat \<Rightarrow> (usize \<Rightarrow> u8 list) \<Rightarrow> u8 list \<Rightarrow> usize \<Rightarrow> bool" where
  "has_piece plen content bytes i \<longleftrightarrow> take (length (content i)) (drop (plen * i) bytes) = content i"

definition piece_place :: "nat \<Rightarrow> Block \<Rightarrow> nat" where
  "piece_place plen piece = plen * bm_piece_index (bl_metadata piece)"

lemma overwrite_before:
  assumes "k + n \<le> off" and "k + n \<le> length bytes"
  shows "take n (drop k (overwrite off xs bytes)) = take n (drop k bytes)"
proof -
  have "take n (drop k (take off (bytes @ replicate (off - length bytes) 0) @ ys)) = take n (drop k bytes)" for ys
    using assms by (cases "off \<le> length bytes") (simp_all add: take_drop min_def)
  then show ?thesis by (simp only: overwrite_def split: if_split) blast
qed

lemma overwrite_after:
  assumes "off + length xs \<le> k"
  shows "drop k (overwrite off xs bytes) = drop k bytes"
proof (cases "xs = []")
  case False
  have "length (take off (bytes @ replicate (off - length bytes) 0)) = off" by simp
  then show ?thesis using assms False by (simp add: overwrite_def drop_drop)
qed (simp add: overwrite_def)

lemma has_piece_length:
  assumes "has_piece plen content bytes i" and "content i \<noteq> []"
  shows "plen * i + length (content i) \<le> length bytes"
proof -
  from assms(1) have "length (take (length (content i)) (drop (plen * i) bytes)) = length (content i)" by (simp add: has_piece_def)
  then have "length (content i) \<le> length bytes - plen * i" by simp
  moreover have "0 < length (content i)" using assms(2) by simp
  ultimately show ?thesis by linarith
qed

lemma overwrite_piece:
  assumes "length (content i) \<le> plen" and "length (content j) \<le> plen" and "content j \<noteq> []" and "j = i \<or> has_piece plen content bytes j"
  shows "has_piece plen content (overwrite (plen * i) (content i) bytes) j"
proof (cases "i = j")
  case True
  then show ?thesis by (simp add: has_piece_def overwrite_window)
next
  case False
  with assms(4) have hp: "has_piece plen content bytes j" by simp
  note len = has_piece_length [OF hp assms(3)]
  from False consider "Suc i \<le> j" | "Suc j \<le> i" by linarith
  then show ?thesis
  proof cases
    case 1
    have "plen * i + length (content i) \<le> plen * j" using assms(1) mult_le_mono2 [OF 1, of plen] by simp
    from overwrite_after [OF this] hp show ?thesis by (simp add: has_piece_def)
  next
    case 2
    have "plen * j + length (content j) \<le> plen * i" using assms(2) mult_le_mono2 [OF 2, of plen] by simp
    from overwrite_before [OF this len] hp show ?thesis by (simp add: has_piece_def)
  qed
qed

lemma put_pieces:
  assumes "\<forall>p \<in> set pieces. bl_data p = content (bm_piece_index (bl_metadata p)) \<and> length (bl_data p) \<le> plen"
    and "\<forall>i \<in> I. length (content i) \<le> plen \<and> content i \<noteq> []"
    and "\<forall>i \<in> I. i \<in> (\<lambda>p. bm_piece_index (bl_metadata p)) ` set pieces \<or> has_piece plen content bytes i"
  shows "\<forall>i \<in> I. has_piece plen content (put (piece_place plen) pieces bytes) i"
  using assms(1,3)
proof (induction pieces arbitrary: bytes)
  case (Cons p ps)
  let ?bytes = "overwrite (piece_place plen p) (bl_data p) bytes"
  have "\<forall>i \<in> I. i \<in> (\<lambda>p. bm_piece_index (bl_metadata p)) ` set ps \<or> has_piece plen content ?bytes i"
  proof
    fix i assume "i \<in> I"
    with Cons.prems assms(2) overwrite_piece [of content "bm_piece_index (bl_metadata p)" plen i bytes]
    show "i \<in> (\<lambda>p. bm_piece_index (bl_metadata p)) ` set ps \<or> has_piece plen content ?bytes i"
      by (auto simp: piece_place_def)
  qed
  moreover have "\<forall>p \<in> set ps. bl_data p = content (bm_piece_index (bl_metadata p)) \<and> length (bl_data p) \<le> plen"
    using Cons.prems(1) by auto
  ultimately show ?case using Cons.IH unfolding put_def fold_Cons comp_def by blast
qed (simp add: put_def)

text \<open>A file that holds all the pieces starts with the whole content.\<close>

lemma whole_content:
  assumes "\<forall>i < n. has_piece plen content bytes i" and "\<forall>i < n. Suc i < n \<longrightarrow> length (content i) = plen"
    and "\<forall>i < n. content i \<noteq> []"
  shows "take (length (concat (map content [0..<n]))) bytes = concat (map content [0..<n])"
  using assms
proof (induction n)
  case (Suc n)
  have full: "\<forall>i < n. length (content i) = plen" using Suc.prems(2) by simp
  have "map length (map content [0..<n]) = replicate n plen" using full by (intro replicate_eqI) auto
  then have len: "length (concat (map content [0..<n])) = plen * n" by (simp add: length_concat sum_list_replicate)
  have "take (plen * n) bytes = concat (map content [0..<n])"
    using Suc.IH Suc.prems full len by simp
  moreover have "take (length (content n)) (drop (plen * n) bytes) = content n"
    using Suc.prems(1) by (simp add: has_piece_def)
  ultimately show ?case by (simp add: len take_add)
qed simp

end
