(* ===== verification/Transfers.thy ===== *)
theory Transfers
  imports Behaviour Downloads Native Writes
begin

text \<open>
  A download through all the layers of the client: the behaviour polls its pool, the pool its torrent,
  the torrent its piece handler; requests leave as events for the protocol handlers, the answers of
  honest peers come back as events, and finished pieces go to the disk manager and to the files.
\<close>

section \<open>The client among honest peers\<close>

text \<open>The piece message with which an honest peer answers a request.\<close>

definition honest_piece :: "(usize \<Rightarrow> u8 list) \<Rightarrow> PeerRequest \<Rightarrow> Piece" where
  "honest_piece content r =
     \<lparr>pc_index = pr_index r, pc_begin = pr_begin r,
      pc_block = take (unat (pr_length r)) (drop (unat (pr_begin r)) (content (unat (pr_index r))))\<rparr>"

text \<open>One poll of the behaviour, followed by the answer to the request it sent, if it sent one.\<close>

definition client_round ::
  "('f, 'e, 'w, 'c) bt_env \<Rightarrow> nat \<Rightarrow> (usize \<Rightarrow> u8 list) \<Rightarrow> ('f, 'c) BitTorrent \<Rightarrow> 'w
    \<Rightarrow> (NetworkBehaviourAction poll \<times> ('f, 'c) BitTorrent \<times> 'w) option" where
  "client_round env fuel content b w =
     (case bt_poll env fuel b w of
        Some (Some (poll.Ready (SendEvent p (BitTorrentHandlerIn.GetPieceReq r tid)), b1, w1)) \<Rightarrow> do {
          b2 \<leftarrow> inject_node_event (be_clock env w1) p (BitTorrentHandlerEvent.GetPieceRes (honest_piece content r) tid) b1;
          Some (poll.Ready (SendEvent p (BitTorrentHandlerIn.GetPieceReq r tid)), b2, w1)
        }
      | Some (Some r) \<Rightarrow> Some r
      | _ \<Rightarrow> None)"

text \<open>A number of rounds, with the actions that the polls returned; \<open>None\<close> is a panic or a lack of fuel.\<close>

fun client_run ::
  "('f, 'e, 'w, 'c) bt_env \<Rightarrow> nat \<Rightarrow> (usize \<Rightarrow> u8 list) \<Rightarrow> nat \<Rightarrow> ('f, 'c) BitTorrent \<Rightarrow> 'w
    \<Rightarrow> (NetworkBehaviourAction list \<times> ('f, 'c) BitTorrent \<times> 'w) option" where
  "client_run env fuel content 0 b w = Some ([], b, w)"
| "client_run env fuel content (Suc n) b w = do {
     (res, b1, w1) \<leftarrow> client_round env fuel content b w;
     (acts, b2, w2) \<leftarrow> client_run env fuel content n b1 w1;
     Some ((case res of Pending \<Rightarrow> acts | poll.Ready a \<Rightarrow> a # acts), b2, w2)
   }"

fun requested :: "NetworkBehaviourAction list \<Rightarrow> PeerRequest list" where
  "requested [] = []"
| "requested (SendEvent p (BitTorrentHandlerIn.GetPieceReq r tid) # acts) = r # requested acts"
| "requested (_ # acts) = requested acts"

text \<open>The client with one torrent: what changes during a download.\<close>

definition client ::
  "('f, 'c) BitTorrent \<Rightarrow> TorrentId \<Rightarrow> Torrent \<Rightarrow> TorrentPieceHandler \<Rightarrow> DiskMessageIn list
    \<Rightarrow> NetworkBehaviourAction list \<Rightarrow> ('f, 'c) BitTorrent" where
  "client b tid t h jobs q =
     b\<lparr>pool := (pool b)\<lparr>torrents := [(tid, t\<lparr>t_piece_handler := h\<rparr>)]\<rparr>,
       disk_manager := (disk_manager b)\<lparr>dm_queued_events := jobs\<rparr>, queued_events := q\<rparr>"

text \<open>No heartbeat lies in the future or is overdue.\<close>

definition alive :: "Instant \<Rightarrow> (PeerId, BitTorrentPeer) hash_map \<Rightarrow> bool" where
  "alive now peers \<longleftrightarrow>
     (\<forall>(p, peer) \<in> set peers. client_heartbeat peer \<le> now \<and> remote_heartbeat peer \<le> now \<and>
        \<not> overdue now (client_heartbeat peer) \<and> \<not> overdue now (remote_heartbeat peer))"

section \<open>Polls of the pool\<close>

lemma alive_loop: "alive now ps \<Longrightarrow> heartbeat_loop tid now t_now ps = Some (None, ps)"
  by (induction ps) (auto simp: alive_def)

lemma client_simps [simp]:
  "queued_events (client b tid t h jobs q) = q"
  "pool (client b tid t h jobs q) = (pool b)\<lparr>torrents := [(tid, t\<lparr>t_piece_handler := h\<rparr>)]\<rparr>"
  "disk_manager (client b tid t h jobs q) = (disk_manager b)\<lparr>dm_queued_events := jobs\<rparr>"
  by (simp_all add: client_def)

lemma client_upd [simp]:
  "(client b tid t h jobs q)\<lparr>queued_events := q'\<rparr> = client b tid t h jobs q'"
  "client b tid t h jobs q\<lparr>pool := (pool b)\<lparr>torrents := [(tid, t'\<lparr>t_piece_handler := h'\<rparr>)]\<rparr>\<rparr> = client b tid t' h' jobs q"
  "client b tid t h jobs q\<lparr>disk_manager := (disk_manager b)\<lparr>dm_queued_events := jobs'\<rparr>\<rparr> = client b tid t h jobs' q"
  by (simp_all add: client_def)

text \<open>What a poll of the pool asks of the torrent: it is active and its peers are alive.\<close>

definition lively :: "('f, 'e, 'w, 'c) bt_env \<Rightarrow> 'w \<Rightarrow> TorrentId \<Rightarrow> Torrent \<Rightarrow> TorrentPieceHandler \<Rightarrow> bool" where
  "lively env w tid t h \<longleftrightarrow> t_id t = tid \<and> is_active (t_state t) \<and> alive (be_clock env w) (ph_peers h)"

lemma lively_handler [simp]:
  "lively env w tid t (h\<lparr>ph_piece_buffer := buf\<rparr>) = lively env w tid t h"
  "lively env w tid t (h\<lparr>ph_bitfield := bf\<rparr>) = lively env w tid t h"
  "lively env w tid t (h\<lparr>ph_finished := fin\<rparr>) = lively env w tid t h"
  "lively env w tid (t\<lparr>t_seed_leech := sl\<rparr>) h = lively env w tid t h"
  by (simp_all add: lively_def)

lemma lively_poll:
  assumes "lively env w tid t h"
  shows "t_poll shuffle (be_clock env w) (be_clock env w) (t\<lparr>t_piece_handler := h\<rparr>) =
    (case ph_poll shuffle h of (st, h') \<Rightarrow>
       (case st of
          WaitingPeers \<Rightarrow> Some (Waiting tid, t\<lparr>t_piece_handler := h'\<rparr>)
        | LeechBlock (Some nb) \<Rightarrow> Some (TorrentPoolState.NextBlock nb, t\<lparr>t_piece_handler := h'\<rparr>)
        | LeechBlock None \<Rightarrow> Some (Waiting tid, t\<lparr>t_piece_handler := h'\<rparr>)
        | PieceFinished res \<Rightarrow> Some (PieceReady (case res of Inr x \<Rightarrow> Inr (tid, x) | Inl e \<Rightarrow> Inl e), t\<lparr>t_piece_handler := h'\<rparr>)
        | TorrentPieceHandlerState.Finished \<Rightarrow>
            Some (TorrentPoolState.Finished tid, t\<lparr>t_seed_leech := SeedOnly, t_piece_handler := h'\<rparr>)
        | Endgame \<Rightarrow> None
        | Seed \<Rightarrow> Some (Idle, t\<lparr>t_piece_handler := h'\<rparr>)))"
proof -
  have "h\<lparr>ph_peers := ph_peers h\<rparr> = h" by (cases h) simp
  moreover obtain st h' where "ph_poll shuffle h = (st, h')" by fastforce
  moreover have "t\<lparr>t_piece_handler := h', t_seed_leech := SeedOnly\<rparr> = t\<lparr>t_seed_leech := SeedOnly, t_piece_handler := h'\<rparr>"
    by (cases t) simp
  ultimately show ?thesis
    using assms by (auto simp: t_poll_def lively_def alive_loop Let_def split: TorrentPieceHandlerState.split option.split sum.split)
qed

text \<open>The three ways in which the loop over the pool goes on.\<close>

lemma loop_request:
  assumes "lively env w tid t h" and "ph_poll (be_shuffle env w) h = (LeechBlock (Some nb), h1)"
  shows "pool_loop env (Suc n) (be_clock env w) (client b tid t h jobs q) w = Some (Some (Some (SendEvent (nb_peer_id nb)
    (BitTorrentHandlerIn.GetPieceReq (BlockMetadata_into_request (nb_block_metadata nb)) (nb_torrent_id nb))), client b tid t h1 jobs q))"
  using assms lively_poll [OF assms(1), of "be_shuffle env w"] by (simp add: pool_poll_def lively_def Let_def)

lemma loop_piece:
  assumes "lively env w tid t h" and "ph_poll (be_shuffle env w) h = (PieceFinished (Inr blk), h1)"
  shows "pool_loop env (Suc n) (be_clock env w) (client b tid t h jobs q) w =
    pool_loop env n (be_clock env w) (client b tid t h1 (jobs @ [WriteBlock tid blk]) q) w"
  using assms lively_poll [OF assms(1), of "be_shuffle env w"]
  by (simp add: pool_poll_def lively_def write_block_def push_event_def Let_def)

lemma loop_finished:
  assumes "lively env w tid t h" and "ph_poll (be_shuffle env w) h = (TorrentPieceHandlerState.Finished, h1)"
  shows "pool_loop env (Suc n) (be_clock env w) (client b tid t h jobs q) w = Some (Some (Some (GenerateEvent (TorrentFinished tid)),
    client b tid (t\<lparr>t_seed_leech := SeedOnly\<rparr>) h1 jobs q))"
  using assms lively_poll [OF assms(1), of "be_shuffle env w"] by (simp add: pool_poll_def lively_def Let_def)

lemma loop_idle:
  assumes "lively env w tid t h" and "ph_poll (be_shuffle env w) h = (Seed, h)"
  shows "pool_loop env (Suc n) (be_clock env w) (client b tid t h jobs q) w = Some (Some (None, client b tid t h jobs q))"
  using assms lively_poll [OF assms(1), of "be_shuffle env w"] by (simp add: pool_poll_def lively_def Let_def)

text \<open>More fuel does not change the result of the loop.\<close>

lemma pool_loop_mono: "pool_loop env n now b w = Some r \<Longrightarrow> pool_loop env (Suc n) now b w = Some r"
proof (induction n arbitrary: b)
  case (Suc n)
  then show ?case
    by (subst pool_loop.simps, subst (asm) pool_loop.simps)
      (auto simp: Let_def on_remote_timeout_def simp del: pool_loop.simps split: option.split_asm prod.split_asm TorrentPoolState.split_asm sum.split_asm)
qed simp

text \<open>
  A state settles to another one when the loop over the pool, started in the first, comes to the
  second: it is the same state, or it has a full piece to hand to the disk manager first.
\<close>

definition settles :: "('f, 'e, 'w, 'c) bt_env \<Rightarrow> 'w \<Rightarrow> ('f, 'c) BitTorrent \<Rightarrow> ('f, 'c) BitTorrent \<Rightarrow> bool" where
  "settles env w b b' \<longleftrightarrow> queued_events b = [] \<and> queued_events b' = [] \<and>
     (\<forall>n r. pool_loop env n (be_clock env w) b' w = Some r \<longrightarrow> pool_loop env (Suc n) (be_clock env w) b w = Some r)"

lemma settles_self: "queued_events b = [] \<Longrightarrow> settles env w b b"
  by (simp add: settles_def pool_loop_mono del: pool_loop.simps)

lemma settles_piece:
  assumes "lively env w tid t h" and "ph_poll (be_shuffle env w) h = (PieceFinished (Inr blk), h1)"
  shows "settles env w (client b tid t h jobs []) (client b tid t h1 (jobs @ [WriteBlock tid blk]) [])"
  by (simp add: settles_def loop_piece [OF assms] del: pool_loop.simps)

lemma settled_poll:
  assumes "settles env w b b'" and "pool_loop env (Suc n) (be_clock env w) b' w = Some (Some (Some action, b1))"
  shows "bt_poll env (Suc (Suc n)) b w = Some (Some (poll.Ready action, b1, w))"
proof -
  from assms have "queued_events b = []" "pool_loop env (Suc (Suc n)) (be_clock env w) b w = Some (Some (Some action, b1))"
    by (simp_all add: settles_def del: pool_loop.simps)
  then show ?thesis by (simp add: bt_poll_def del: pool_loop.simps)
qed

section \<open>Blocks\<close>

text \<open>The numbers of a request fit in the fields of the wire message.\<close>

definition on_wire :: "(usize \<Rightarrow> u8 list) \<Rightarrow> usize \<Rightarrow> bool" where
  "on_wire content i \<longleftrightarrow> i < 2 ^ 32 \<and> length (content i) \<le> 2 ^ 32"

lemma honest_answer:
  assumes "m \<in> set (piece_layout i (length (content i)))" and "on_wire content i" and "nb_block_metadata nb = m"
  shows "Block_from_piece (honest_piece content (BlockMetadata_into_request m)) = served_block (content i) nb"
proof -
  from assms(1) obtain k where k: "k < num_blocks (length (content i))" and m: "m = layout_block i (length (content i)) k"
    by (auto simp: piece_layout_def)
  have "k * BLOCK_SIZE < length (content i)"
  proof -
    from k have "Suc k \<le> num_blocks (length (content i))" by simp
    then show ?thesis by (auto simp: num_blocks_def BLOCK_SIZE_def split: if_splits)
  qed
  moreover have "i < 2 ^ 32" "length (content i) \<le> 2 ^ 32" using assms(2) by (simp_all add: on_wire_def)
  ultimately have r: "bm_piece_index m = i" "bm_piece_index m < 2 ^ 32" "bm_block_offset m < 2 ^ 32" "bm_block_length m < 2 ^ 32"
    by (auto simp: m layout_block_def BlockMetadata_new_def BLOCK_SIZE_def min_def)
  then have "pc_block (honest_piece content (BlockMetadata_into_request m)) =
      take (bm_block_length m) (drop (bm_block_offset m) (content i))"
    by (simp add: honest_piece_def BlockMetadata_into_request_def unat_word_of_nat_u32)
  moreover from layout_block_in_content [OF assms(1) refl]
  have "length (take (bm_block_length m) (drop (bm_block_offset m) (content i))) = bm_block_length m" .
  ultimately show ?thesis
    using r assms(3) by (simp add: Block_from_piece_def honest_piece_def BlockMetadata_into_request_def unat_word_of_nat_u32
        served_block_def Block_new_def BlockMetadata_new_def Let_def)
qed

text \<open>The request of a buffer in progress, and what its answer does.\<close>

lemma current_request:
  assumes "ph_piece_buffer h = Some buf" and "\<not> is_full_piece buf" and "pb_peers buf \<noteq> []" and "pb_missing_blocks buf \<noteq> []"
    and "pb_pending_blocks buf = []"
  obtains nb h1 where "ph_poll shuffle h = (LeechBlock (Some nb), h1)"
    "nb_block_metadata nb = last (pb_missing_blocks buf)" "nb_torrent_id nb = pb_torrent_id buf"
    "\<And>c. ph_add_block (nb_peer_id nb) (served_block c nb) h1 =
      (Inr (nb_block_metadata nb), h\<lparr>ph_piece_buffer := Some (serve_round c buf)\<rparr>)"
proof (cases buf rule: next_cases)
  case (request ps p ms m)
  let ?nb = "\<lparr>nb_torrent_id = pb_torrent_id buf, nb_block_metadata = m, nb_peer_id = p\<rparr>"
  show ?thesis
  proof (rule that [of ?nb "h\<lparr>ph_piece_buffer := Some (snd (PieceBuffer_next buf))\<rparr>"])
    show "ph_poll shuffle h = (LeechBlock (Some ?nb), h\<lparr>ph_piece_buffer := Some (snd (PieceBuffer_next buf))\<rparr>)"
      using request assms(1,2) by (simp add: ph_poll_def Let_def)
    show "ph_add_block (nb_peer_id ?nb) (served_block c ?nb) (h\<lparr>ph_piece_buffer := Some (snd (PieceBuffer_next buf))\<rparr>) =
      (Inr (nb_block_metadata ?nb), h\<lparr>ph_piece_buffer := Some (serve_round c buf)\<rparr>)" for c
      using request assms(5)
      by (simp add: ph_add_block_def serve_round_def PieceBuffer_add_block_def served_block_def Block_new_def hm_insert_def
          hm_get_def Let_def split_beta)
  qed (use request in simp_all)
qed (use assms in auto)

text \<open>The event for a block that was asked for.\<close>

definition block_taken :: "TorrentId \<Rightarrow> NextBlock \<Rightarrow> NetworkBehaviourAction" where
  "block_taken tid nb = GenerateEvent (LeechBlockResult (Inr
     \<lparr>bk_peer = nb_peer_id nb, bk_block_metadata = nb_block_metadata nb, bk_torrent = tid\<rparr>))"

lemma round_pop:
  "queued_events b = a # q \<Longrightarrow> \<forall>p r tid. a \<noteq> SendEvent p (BitTorrentHandlerIn.GetPieceReq r tid) \<Longrightarrow>
   client_round env (Suc n) content b w = Some (poll.Ready a, b\<lparr>queued_events := q\<rparr>, w)"
  by (cases a) (auto simp: client_round_def bt_poll_def split: BitTorrentHandlerIn.split)

lemma client_run_add:
  "client_run env fuel c (m + n) b w = do {
     (acts, b1, w1) \<leftarrow> client_run env fuel c m b w;
     (acts', b2, w2) \<leftarrow> client_run env fuel c n b1 w1;
     Some (acts @ acts', b2, w2)
   }"
proof (induction m arbitrary: b w)
  case 0
  then show ?case by (cases "client_run env fuel c n b w") auto
next
  case (Suc m)
  then show ?case
    by (cases "client_round env fuel c b w") (auto simp: split_beta split: poll.split Option.bind_split)
qed

text \<open>Two polls take one block: the first sends the request, the second reports the answer.\<close>

lemma block_rounds:
  assumes "settles env w s (client b tid t h0 jobs [])" and "lively env w tid t h0"
    and "ph_poll (be_shuffle env w) h0 = (LeechBlock (Some nb), h1)" and "nb_torrent_id nb = tid"
    and "nb_block_metadata nb \<in> set (piece_layout i (length (content i)))" and "on_wire content i"
    and "ph_add_block (nb_peer_id nb) (served_block (content i) nb) h1 = (Inr (nb_block_metadata nb), h2)"
  shows "client_run env (Suc (Suc n)) content 2 s w =
    Some ([SendEvent (nb_peer_id nb) (BitTorrentHandlerIn.GetPieceReq (BlockMetadata_into_request (nb_block_metadata nb)) tid),
      block_taken tid nb], client b tid t h2 jobs [], w)"
proof -
  let ?m = "nb_block_metadata nb"
  let ?req = "SendEvent (nb_peer_id nb) (BitTorrentHandlerIn.GetPieceReq (BlockMetadata_into_request ?m) tid)"
  from settled_poll [OF assms(1) loop_request [OF assms(2,3)], unfolded assms(4)]
  have "bt_poll env (Suc (Suc n)) s w = Some (Some (poll.Ready ?req, client b tid t h1 jobs [], w))" .
  moreover have "inject_node_event (be_clock env w) (nb_peer_id nb) (BitTorrentHandlerEvent.GetPieceRes
      (honest_piece content (BlockMetadata_into_request ?m)) tid) (client b tid t h1 jobs []) =
      Some (client b tid t h2 jobs [block_taken tid nb])"
    using assms(7) by (simp add: honest_answer [OF assms(5,6) refl] on_block_response_def on_torrent_def t_add_block_def
        on_handler_def hm_get_def hm_insert_def enqueue_def block_taken_def)
  ultimately have "client_round env (Suc (Suc n)) content s w = Some (poll.Ready ?req, client b tid t h2 jobs [block_taken tid nb], w)"
    by (simp add: client_round_def del: inject_node_event.simps)
  moreover have "client_round env (Suc (Suc n)) content (client b tid t h2 jobs [block_taken tid nb]) w =
      Some (poll.Ready (block_taken tid nb), client b tid t h2 jobs [], w)"
    by (subst round_pop) (simp_all add: block_taken_def)
  ultimately show ?thesis by (simp add: numeral_2_eq_2)
qed

section \<open>Pieces\<close>

text \<open>The actions of a download: requests and taken blocks.\<close>

definition transfer :: "TorrentId \<Rightarrow> NetworkBehaviourAction \<Rightarrow> bool" where
  "transfer tid a \<longleftrightarrow> (\<exists>p r. a = SendEvent p (BitTorrentHandlerIn.GetPieceReq r tid)) \<or> (\<exists>nb. a = block_taken tid nb)"

lemma transfer_simps [simp]:
  "transfer tid (SendEvent p (BitTorrentHandlerIn.GetPieceReq r tid))" "transfer tid (block_taken tid nb)"
  by (auto simp: transfer_def)

lemma requested_append [simp]: "requested (xs @ ys) = requested xs @ requested ys"
  by (induction xs rule: requested.induct) simp_all

lemma requested_taken [simp]: "requested (block_taken tid nb # acts) = requested acts"
  by (simp add: block_taken_def)

lemma block_rounds_current:
  assumes "pb_inv buf" and "length (content (pb_piece_index buf)) = pb_piece_length buf" and "pb_peers buf \<noteq> []"
    and "pb_missing_blocks buf \<noteq> []" and "pb_pending_blocks buf = []" and "pb_torrent_id buf = tid"
    and "on_wire content (pb_piece_index buf)" and "settles env w s (client b tid t h0 jobs [])" and "lively env w tid t h0"
    and "ph_poll (be_shuffle env w) h0 = ph_poll (be_shuffle env w) (h\<lparr>ph_piece_buffer := Some buf\<rparr>)"
  shows "\<exists>p nb. client_run env (Suc (Suc f)) content 2 s w = Some
    ([SendEvent p (BitTorrentHandlerIn.GetPieceReq (BlockMetadata_into_request (last (pb_missing_blocks buf))) tid), block_taken tid nb],
     client b tid t (h\<lparr>ph_piece_buffer := Some (serve_round (content (pb_piece_index buf)) buf)\<rparr>) jobs [], w)"
proof -
  let ?h = "h\<lparr>ph_piece_buffer := Some buf\<rparr>"
  obtain nb h1 where nb: "ph_poll (be_shuffle env w) ?h = (LeechBlock (Some nb), h1)"
    "nb_block_metadata nb = last (pb_missing_blocks buf)" "nb_torrent_id nb = pb_torrent_id buf"
    "\<And>c. ph_add_block (nb_peer_id nb) (served_block c nb) h1 =
      (Inr (nb_block_metadata nb), ?h\<lparr>ph_piece_buffer := Some (serve_round c buf)\<rparr>)"
    by (rule current_request [of ?h buf "be_shuffle env w"])
      (use not_full_if_missing [OF assms(1,4)] assms(3-5) in simp_all)
  have "nb_block_metadata nb \<in> set (piece_layout (pb_piece_index buf) (length (content (pb_piece_index buf))))"
    using missing_in_layout [OF pb_inv_safe [OF assms(1)]] assms(2,4) nb(2) by simp
  from block_rounds [OF assms(8,9) nb(1) [folded assms(10)] nb(3) [unfolded assms(6)] this assms(7) nb(4), of f]
  show ?thesis unfolding nb(2) by auto
qed

lemma piece_rounds:
  assumes "pb_inv buf" and "length (content i) = pb_piece_length buf" and "pb_piece_index buf = i" and "pb_peers buf \<noteq> []"
    and "length (pb_missing_blocks buf) = Suc n" and "pb_pending_blocks buf = []" and "all_from (content i) buf"
    and "pb_torrent_id buf = tid" and "on_wire content i" and "settles env w s (client b tid t h0 jobs [])"
    and "lively env w tid t h0" and "lively env w tid t h"
    and "ph_poll (be_shuffle env w) h0 = ph_poll (be_shuffle env w) (h\<lparr>ph_piece_buffer := Some buf\<rparr>)"
  shows "\<exists>acts. client_run env (Suc (Suc f)) content (2 * Suc n) s w = Some (acts,
      client b tid t (h\<lparr>ph_piece_buffer := Some ((serve_round (content i) ^^ Suc n) buf)\<rparr>) jobs [], w) \<and>
    requested acts = map BlockMetadata_into_request (rev (pb_missing_blocks buf)) \<and> list_all (transfer tid) acts"
  using assms(1-8,10,11,13)
proof (induction n arbitrary: s buf h0)
  case (Suc n)
  have ne: "pb_missing_blocks buf \<noteq> []" using Suc.prems(5) by auto
  let ?buf = "serve_round (content i) buf"
  let ?h = "h\<lparr>ph_piece_buffer := Some ?buf\<rparr>"
  from block_rounds_current [where content = content and buf = buf, unfolded Suc.prems(3), OF Suc.prems(1,2,4) ne Suc.prems(6,8) assms(9) Suc.prems(9,10,11)]
  obtain p nb where first: "client_run env (Suc (Suc f)) content 2 s w = Some
    ([SendEvent p (BitTorrentHandlerIn.GetPieceReq (BlockMetadata_into_request (last (pb_missing_blocks buf))) tid), block_taken tid nb],
     client b tid t ?h jobs [], w)" by blast
  note step = serve_round_step [OF Suc.prems(1,2,4) ne Suc.prems(6,7)]
  have "pb_torrent_id ?buf = tid"
    using Suc.prems(8) by (cases buf rule: next_cases) (simp_all add: serve_round_def)
  with step Suc.prems(2,3,5) assms(12)
  have "\<exists>acts. client_run env (Suc (Suc f)) content (2 * Suc n) (client b tid t ?h jobs []) w = Some (acts,
      client b tid t (h\<lparr>ph_piece_buffer := Some ((serve_round (content i) ^^ Suc n) ?buf)\<rparr>) jobs [], w) \<and>
    requested acts = map BlockMetadata_into_request (rev (pb_missing_blocks ?buf)) \<and> list_all (transfer tid) acts"
    by (intro Suc.IH [where ?h0.0 = ?h]) (simp_all add: settles_self)
  then obtain acts where rest: "client_run env (Suc (Suc f)) content (2 * Suc n) (client b tid t ?h jobs []) w = Some (acts,
      client b tid t (h\<lparr>ph_piece_buffer := Some ((serve_round (content i) ^^ Suc n) ?buf)\<rparr>) jobs [], w)"
    "requested acts = map BlockMetadata_into_request (rev (pb_missing_blocks ?buf))" "list_all (transfer tid) acts" by blast
  have twice: "2 * Suc (Suc n) = 2 + 2 * Suc n" by simp
  obtain ms m where ms: "pb_missing_blocks buf = ms @ [m]" using ne by (metis append_butlast_last_id)
  show ?case
    unfolding twice client_run_add first
    using rest step ms by (auto simp: funpow_Suc_right simp del: funpow.simps client_run.simps)
next
  case 0
  then have ne: "pb_missing_blocks buf \<noteq> []" by auto
  from 0 obtain m where m: "pb_missing_blocks buf = [m]" by (metis One_nat_def length_0_conv length_Suc_conv)
  from block_rounds_current [where content = content and buf = buf, unfolded "0.prems"(3), OF "0.prems"(1,2,4) ne "0.prems"(6,8) assms(9) "0.prems"(9,10,11)]
  obtain p nb where first: "client_run env (Suc (Suc f)) content 2 s w = Some
    ([SendEvent p (BitTorrentHandlerIn.GetPieceReq (BlockMetadata_into_request (last (pb_missing_blocks buf))) tid), block_taken tid nb],
     client b tid t (h\<lparr>ph_piece_buffer := Some (serve_round (content i) buf)\<rparr>) jobs [], w)" by blast
  have two: "2 * Suc 0 = 2" by simp
  show ?case unfolding two first by (auto simp: m)
qed

lemma client_piece:
  assumes "ph_inv h" and "permutes (be_shuffle env w)" and "ph_piece_buffer h = None" and "\<not> bv_all (ph_bitfield h)"
    and "all_seed h content" and "ph_id h = tid" and "lively env w tid t h"
    and "\<forall>i < length (ph_bitfield h). on_wire content i" and "settles env w s (client b tid t h jobs [])"
  obtains i acts s' where "i \<in> set (missing_piece_indices h)"
    "client_run env (Suc (Suc f)) content (2 * num_blocks (piece_length_of h i)) s w = Some (acts, s', w)"
    "settles env w s' (client b tid t (h\<lparr>ph_bitfield := (ph_bitfield h)[i := True]\<rparr>) (jobs @ [WriteBlock tid (whole_piece h content i)]) [])"
    "requested acts = map BlockMetadata_into_request (rev (piece_layout i (piece_length_of h i)))" "list_all (transfer tid) acts"
proof -
  obtain i buf where p: "i \<in> set (missing_piece_indices h)" "i < length (ph_bitfield h)" "length (content i) = piece_length_of h i"
    "0 < num_blocks (piece_length_of h i)" "ph_poll (be_shuffle env w) h = ph_poll (be_shuffle env w) (h\<lparr>ph_piece_buffer := Some buf\<rparr>)"
    and buf: "pb_inv buf" "pb_piece_index buf = i" "pb_piece_length buf = piece_length_of h i" "pb_torrent_id buf = ph_id h"
    "pb_pending_blocks buf = []" "pb_missing_blocks buf = piece_layout i (piece_length_of h i)" "pb_peers buf \<noteq> []"
    "all_from (content i) buf"
    and full: "ph_poll (be_shuffle env w) (h\<lparr>ph_piece_buffer := Some ((serve_round (content i) ^^ num_blocks (piece_length_of h i)) buf)\<rparr>) =
      (PieceFinished (Inr (whole_piece h content i)), h\<lparr>ph_bitfield := (ph_bitfield h)[i := True]\<rparr>)"
    by (rule fresh_piece [OF assms(1-5)])
  from p(4) obtain n where n: "num_blocks (piece_length_of h i) = Suc n" by (metis gr0_implies_Suc)
  have len: "length (pb_missing_blocks buf) = Suc n" using buf(6) n by (simp add: piece_layout_def)
  have "length (content i) = pb_piece_length buf" "pb_torrent_id buf = tid" "on_wire content i"
    using p(2,3) buf(3,4) assms(6,8) by simp_all
  with piece_rounds [where content = content and buf = buf and i = i and h = h and ?h0.0 = h and tid = tid and env = env and w = w
      and s = s and b = b and t = t and jobs = jobs and n = n and f = f] buf(1,2,5,7,8) len assms(7,9) p(5)
  obtain acts where "client_run env (Suc (Suc f)) content (2 * Suc n) s w = Some (acts,
      client b tid t (h\<lparr>ph_piece_buffer := Some ((serve_round (content i) ^^ Suc n) buf)\<rparr>) jobs [], w)"
    "requested acts = map BlockMetadata_into_request (rev (pb_missing_blocks buf))" "list_all (transfer tid) acts" by auto
  then show thesis
    using p(1) settles_piece [OF _ full] assms(7) buf(6) by (intro that [of i acts]) (simp_all add: n)
qed

section \<open>All the pieces\<close>

text \<open>What the missing pieces cost in polls, the requests they need, and the handler that has them all.\<close>

definition block_polls :: "TorrentPieceHandler \<Rightarrow> usize list \<Rightarrow> nat" where
  "block_polls h is = sum_list (map (\<lambda>i. 2 * num_blocks (piece_length_of h i)) is)"

definition piece_requests :: "TorrentPieceHandler \<Rightarrow> usize list \<Rightarrow> PeerRequest multiset" where
  "piece_requests h is =
     sum_list (map (\<lambda>i. mset (map BlockMetadata_into_request (piece_layout i (piece_length_of h i)))) is)"

definition completed :: "TorrentPieceHandler \<Rightarrow> TorrentPieceHandler" where
  "completed h = h\<lparr>ph_bitfield := replicate (length (ph_bitfield h)) True, ph_finished := True\<rparr>"

lemma sum_list_mset_eq:
  fixes f :: "'a \<Rightarrow> 'b :: comm_monoid_add"
  shows "mset xs = mset ys \<Longrightarrow> sum_list (map f xs) = sum_list (map f ys)"
  by (metis mset_map sum_mset_sum_list)

text \<open>One missing piece less.\<close>

lemma with_piece:
  assumes "ph_piece_buffer h = None" and "i \<in> set (missing_piece_indices h)" and "h' = h\<lparr>ph_bitfield := (ph_bitfield h)[i := True]\<rparr>"
  shows "length (missing_piece_indices h) = Suc (length (missing_piece_indices h'))"
    and "mset (missing_piece_indices h) = mset (i # missing_piece_indices h')"
    and "block_polls h (missing_piece_indices h) = 2 * num_blocks (piece_length_of h i) + block_polls h' (missing_piece_indices h')"
    and "piece_requests h (missing_piece_indices h) =
      mset (map BlockMetadata_into_request (piece_layout i (piece_length_of h i))) + piece_requests h' (missing_piece_indices h')"
    and "completed h' = completed h" and "whole_piece h' = whole_piece h" and "piece_length_of h' = piece_length_of h"
proof -
  show plen: "piece_length_of h' = piece_length_of h" by (auto simp: assms(3) piece_length_of_def)
  show miss: "mset (missing_piece_indices h) = mset (i # missing_piece_indices h')"
    using missing_after_piece [OF assms(1,2)] by (simp add: assms(3))
  then show "length (missing_piece_indices h) = Suc (length (missing_piece_indices h'))" by (metis length_Cons size_mset)
  show "block_polls h (missing_piece_indices h) = 2 * num_blocks (piece_length_of h i) + block_polls h' (missing_piece_indices h')"
    unfolding block_polls_def sum_list_mset_eq [OF miss] by (simp add: plen)
  show "piece_requests h (missing_piece_indices h) =
      mset (map BlockMetadata_into_request (piece_layout i (piece_length_of h i))) + piece_requests h' (missing_piece_indices h')"
    unfolding piece_requests_def sum_list_mset_eq [OF miss] by (simp add: plen)
  show "completed h' = completed h" by (simp add: completed_def assms(3))
  show "whole_piece h' = whole_piece h" by (simp add: whole_piece_def plen fun_eq_iff)
qed

text \<open>The poll after the last piece reports the torrent as finished.\<close>

lemma client_finish:
  assumes "ph_piece_buffer h = None" and "\<not> ph_finished h" and "lively env w tid t h" and "settles env w s (client b tid t h jobs [])"
    and "missing_piece_indices h = []"
  shows "client_run env (Suc (Suc f)) content 1 s w = Some ([GenerateEvent (TorrentFinished tid)],
    client b tid (t\<lparr>t_seed_leech := SeedOnly\<rparr>) (completed h) jobs [], w)"
proof -
  from assms(1,5) have all: "bv_all (ph_bitfield h)" using missing_empty by simp
  then have "replicate (length (ph_bitfield h)) True = ph_bitfield h"
    by (simp add: bv_all_def list_all_iff replicate_length_same)
  then have "h\<lparr>ph_finished := True\<rparr> = completed h" by (cases h) (simp add: completed_def)
  with all have "ph_poll (be_shuffle env w) h = (TorrentPieceHandlerState.Finished, completed h)"
    using assms(1,2) by (simp add: ph_poll_def)
  from settled_poll [OF assms(4) loop_finished [OF assms(3) this], of f]
  show ?thesis by (simp add: client_round_def)
qed

text \<open>All missing pieces, one after the other, until the torrent is reported as finished.\<close>

lemma client_pieces:
  assumes "ph_inv h" and "permutes (be_shuffle env w)" and "ph_piece_buffer h = None" and "\<not> ph_finished h"
    and "all_seed h content" and "ph_id h = tid" and "lively env w tid t h"
    and "\<forall>i < length (ph_bitfield h). on_wire content i" and "settles env w s (client b tid t h jobs [])"
  shows "\<exists>acts order. mset order = mset (missing_piece_indices h) \<and>
    client_run env (Suc (Suc f)) content (Suc (block_polls h (missing_piece_indices h))) s w =
      Some (acts @ [GenerateEvent (TorrentFinished tid)], client b tid (t\<lparr>t_seed_leech := SeedOnly\<rparr>) (completed h)
        (jobs @ map (\<lambda>i. WriteBlock tid (whole_piece h content i)) order) [], w) \<and>
    list_all (transfer tid) acts \<and> mset (requested acts) = piece_requests h (missing_piece_indices h)"
  using assms
proof (induction "length (missing_piece_indices h)" arbitrary: h s jobs)
  case 0
  then show ?case
    using client_finish [OF "0.prems"(3,4,7,9), of f content]
    by (intro exI [of _ "[]"]) (simp add: block_polls_def piece_requests_def del: client_run.simps)
next
  case (Suc n)
  then have nf: "\<not> bv_all (ph_bitfield h)" using missing_empty [of h] by auto
  obtain i acts1 s1 where i: "i \<in> set (missing_piece_indices h)"
    and run: "client_run env (Suc (Suc f)) content (2 * num_blocks (piece_length_of h i)) s w = Some (acts1, s1, w)"
    and s1: "settles env w s1 (client b tid t (h\<lparr>ph_bitfield := (ph_bitfield h)[i := True]\<rparr>)
      (jobs @ [WriteBlock tid (whole_piece h content i)]) [])"
    and acts1: "requested acts1 = map BlockMetadata_into_request (rev (piece_layout i (piece_length_of h i)))" "list_all (transfer tid) acts1"
    by (rule client_piece [OF Suc.prems(1-3) nf Suc.prems(5-9)])
  define h' where "h' = h\<lparr>ph_bitfield := (ph_bitfield h)[i := True]\<rparr>"
  note less = with_piece [OF Suc.prems(3) i h'_def]
  have n: "n = length (missing_piece_indices h')" using Suc.hyps(2) less(1) by simp
  have h': "ph_inv h'" "ph_piece_buffer h' = None" "\<not> ph_finished h'" "ph_id h' = tid" "lively env w tid t h'"
    "\<forall>i < length (ph_bitfield h'). on_wire content i"
    using Suc.prems by (auto simp: ph_inv_def h'_def)
  have seed: "all_seed h' content" using Suc.prems(5) less(7) by (simp add: all_seed_def h'_def)
  from Suc.hyps(1) [OF n h'(1) Suc.prems(2) h'(2,3) seed h'(4-6) s1 [folded h'_def]]
  obtain acts2 order where rest: "mset order = mset (missing_piece_indices h')"
    "client_run env (Suc (Suc f)) content (Suc (block_polls h' (missing_piece_indices h'))) s1 w =
      Some (acts2 @ [GenerateEvent (TorrentFinished tid)], client b tid (t\<lparr>t_seed_leech := SeedOnly\<rparr>) (completed h')
        ((jobs @ [WriteBlock tid (whole_piece h content i)]) @ map (\<lambda>i. WriteBlock tid (whole_piece h' content i)) order) [], w)"
    "list_all (transfer tid) acts2" "mset (requested acts2) = piece_requests h' (missing_piece_indices h')"
    by (elim exE conjE)
  have count: "Suc (block_polls h (missing_piece_indices h)) =
      2 * num_blocks (piece_length_of h i) + Suc (block_polls h' (missing_piece_indices h'))" using less(3) by simp
  show ?case
    unfolding count client_run_add run
    using rest acts1 less(2,4-6) by (intro exI [of _ "acts1 @ acts2"] exI [of _ "i # order"]) (simp del: client_run.simps)
qed

section \<open>Writing the pieces\<close>

text \<open>The client with its disk manager, once all pieces were received.\<close>

definition client_disk ::
  "('f, 'c) BitTorrent \<Rightarrow> TorrentId \<Rightarrow> Torrent \<Rightarrow> TorrentPieceHandler \<Rightarrow> ('f, 'c) DiskManager
    \<Rightarrow> NetworkBehaviourAction list \<Rightarrow> ('f, 'c) BitTorrent" where
  "client_disk b tid t h dm q = client (b\<lparr>disk_manager := dm\<rparr>) tid t h (dm_queued_events dm) q"

text \<open>The announcements of a piece to the peers.\<close>

definition haves :: "TorrentPieceHandler \<Rightarrow> Block \<Rightarrow> NetworkBehaviourAction list" where
  "haves h piece = map (\<lambda>peer. SendEvent peer (BitTorrentHandlerIn.Have (word_of_nat (bm_piece_index (bl_metadata piece)))))
     (keys (ph_peers h))"

definition complete :: "TorrentPieceHandler \<Rightarrow> bool" where
  "complete h \<longleftrightarrow> ph_finished h \<and> ph_piece_buffer h = None \<and> (\<forall>x \<in> set (ph_bitfield h). x)"

lemma client_disk_simps [simp]:
  "queued_events (client_disk b tid t h dm q) = q"
  "disk_manager (client_disk b tid t h dm q) = dm"
  "(client_disk b tid t h dm q)\<lparr>queued_events := q'\<rparr> = client_disk b tid t h dm q'"
  "(client_disk b tid t h dm q)\<lparr>disk_manager := dm'\<rparr> = client_disk b tid t h dm' q"
  by (simp_all add: client_disk_def client_def)

lemma set_owned:
  assumes "complete h" and "i < length (ph_bitfield h)"
  shows "set_piece i h = (Inr (), h)"
proof -
  have "(ph_bitfield h)[i := True] = ph_bitfield h" using assms by (intro list_update_same_conv [THEN iffD2]) (auto simp: complete_def)
  then have "h\<lparr>ph_bitfield := (ph_bitfield h)[i := True]\<rparr> = h" by (cases h) simp
  with assms(2) show ?thesis by (simp add: set_piece_def)
qed

lemma piece_written:
  assumes "complete h" and "bm_piece_index (bl_metadata piece) < length (ph_bitfield h)"
  shows "on_piece_written tid piece (client_disk b tid t h dm q) = client_disk b tid t h dm (q @ haves h piece)"
  using set_owned [OF assms]
  by (simp add: on_piece_written_def on_torrent_def t_set_piece_def on_handler_def hm_get_def hm_insert_def iter_peer_ids_def
      haves_def client_disk_def client_def)

text \<open>One run of the loop over the disk manager writes one piece, or the last two.\<close>

definition writes_to ::
  "('f, 'e, 'w, 'c) disk_env \<Rightarrow> ('c \<Rightarrow> TorrentFileId \<Rightarrow> 'f FileState option) \<Rightarrow> ('f \<Rightarrow> u8 list) \<Rightarrow> ('f \<Rightarrow> nat) \<Rightarrow> TorrentId
    \<Rightarrow> TorrentFile \<Rightarrow> FileEntry \<Rightarrow> (Block \<Rightarrow> nat) \<Rightarrow> ('f, 'c) DiskManager \<Rightarrow> TorrentPieceHandler \<Rightarrow> Block \<Rightarrow> bool" where
  "writes_to env look bytes pos tid tf entry off d h piece \<longleftrightarrow>
     prompt_fs (de_fs env) bytes pos \<and> (\<exists>cap. lru_laws (de_lru env) look cap) \<and> tf_torrent (fe_id entry) = tid \<and>
     dm_torrent d tid = Some tf \<and> fits env tf entry off piece \<and> bm_piece_index (bl_metadata piece) < length (ph_bitfield h)"

lemma writes_to_put:
  assumes "writes_to env look bytes pos tid tf entry off d h piece"
  obtains f2 w2 where "prompt_write (de_fs env) f (off piece) (bl_data piece) w f2 w2" "bytes f2 = put off [piece] (bytes f)"
proof -
  from assms have p: "prompt_fs (de_fs env) bytes pos" by (simp add: writes_to_def)
  then obtain f2 w2 where "prompt_write (de_fs env) f (off piece) (bl_data piece) w f2 w2" unfolding prompt_fs_def by blast
  with p show thesis using that prompt_write_bytes by (fastforce simp: prompt_fs_def put_def)
qed

lemma disk_done:
  "writing look tid entry off d f [] dm \<Longrightarrow>
   disk_loop env (Suc n) (client_disk b tid t' h dm q) w = Some (Some (None, client_disk b tid t' h dm q, w))"
  by (simp add: writing_done del: dm_poll.simps)

lemma waiting_pass:
  assumes "waiting (be_disk env) look tid entry d f w w1 (p # ps) dm" and "complete h"
    and "\<forall>x \<in> set (p # ps). writes_to (be_disk env) look bytes pos tid tf entry off d h x"
  obtains ws rest dm' f2 w2 where
    "disk_loop env (Suc (Suc n)) (client_disk b tid t h dm q) w =
      Some (Some (None, client_disk b tid t h dm' (q @ concat (map (haves h) ws)), w2))"
    "writing look tid entry off d f2 rest dm'" "bytes f2 = put off ws (bytes f)" "mset (ws @ rest) = mset (p # ps)"
    "if ps = [] then ws = [p] else ws = []"
proof (cases ps)
  case Nil
  from assms(3) have wr: "writes_to (be_disk env) look bytes pos tid tf entry off d h p" by simp
  then obtain f2 w2 where w: "prompt_write (de_fs (be_disk env)) f (off p) (bl_data p) w1 f2 w2" "bytes f2 = put off [p] (bytes f)"
    by (rule writes_to_put)
  from waiting_one [OF assms(1) [unfolded Nil], where t = tf and off = off and ?f2.0 = f2 and ?w2.0 = w2 and n = n] w(1) wr obtain dm' where
    "dm_poll (be_disk env) (Suc (Suc n)) dm w = Some (Some (poll.Ready (PieceWritten tid p), dm', w2))"
    "writing look tid entry off d f2 [] dm'" by (auto simp: writes_to_def simp del: dm_poll.simps)
  moreover from wr have "bm_piece_index (bl_metadata p) < length (ph_bitfield h)" by (simp add: writes_to_def)
  ultimately show thesis
    using w(2) Nil by (intro that [of dm' "[p]" w2 f2 "[]"])
      (simp_all add: piece_written [OF assms(2)] writing_done del: dm_poll.simps)
next
  case (Cons r rs)
  from assms(3) Cons have wr: "writes_to (be_disk env) look bytes pos tid tf entry off d h p"
    "writes_to (be_disk env) look bytes pos tid tf entry off d h r" by simp_all
  from waiting_two [OF assms(1) [unfolded Cons], where t = tf and off = off and n = "Suc n"] wr obtain dm' where
    "dm_poll (be_disk env) (Suc (Suc n)) dm w = Some (Some (Pending, dm', w1))"
    "writing look tid entry off d f (p # rs @ [r]) dm'" by (auto simp: writes_to_def simp del: dm_poll.simps)
  then show thesis
    using Cons by (intro that [of dm' "[]" w1 f "p # rs @ [r]"]) (simp_all add: put_def del: dm_poll.simps)
qed

lemma writing_pass:
  assumes "writing look tid entry off d f (p # ps) dm" and "complete h"
    and "\<forall>x \<in> set (p # ps). writes_to (be_disk env) look bytes pos tid tf entry off d h x"
  obtains ws rest dm' f2 w2 where
    "disk_loop env (Suc (Suc (Suc n))) (client_disk b tid t h dm q) w =
      Some (Some (None, client_disk b tid t h dm' (q @ concat (map (haves h) ws)), w2))"
    "writing look tid entry off d f2 rest dm'" "bytes f2 = put off ws (bytes f)" "mset (ws @ rest) = mset (p # ps)" "ws \<noteq> []"
proof -
  from assms(3) have wr: "writes_to (be_disk env) look bytes pos tid tf entry off d h p" by simp
  then obtain f1 w1 where w: "prompt_write (de_fs (be_disk env)) f (off p) (bl_data p) w f1 w1" "bytes f1 = put off [p] (bytes f)"
    by (rule writes_to_put)
  from writing_poll [OF assms(1), where env = "be_disk env" and w = w and ?f2.0 = f1 and ?w2.0 = w1 and n = "Suc (Suc n)"] w(1) wr obtain dm1 where
    dm1: "dm_poll (be_disk env) (Suc (Suc (Suc n))) dm w = Some (Some (poll.Ready (PieceWritten tid p), dm1, w1))"
    "waiting (be_disk env) look tid entry d f1 w1 w1 ps dm1" "ps = [] \<Longrightarrow> writing look tid entry off d f1 [] dm1"
    by (auto simp: writes_to_def simp del: dm_poll.simps)
  have idx: "bm_piece_index (bl_metadata p) < length (ph_bitfield h)" using wr by (simp add: writes_to_def)
  have first: "disk_loop env (Suc (Suc (Suc n))) (client_disk b tid t h dm q) w =
      disk_loop env (Suc (Suc n)) (client_disk b tid t h dm1 (q @ haves h p)) w1"
    by (subst disk_loop.simps) (simp add: dm1(1) piece_written [OF assms(2) idx] del: disk_loop.simps dm_poll.simps)
  show thesis
  proof (cases ps)
    case Nil
    with dm1(3) w(2) show thesis
      by (intro that [of dm1 "[p]" w1 f1 "[]"]) (simp_all add: first disk_done del: disk_loop.simps)
  next
    case (Cons r rs)
    with dm1(2) have wt: "waiting (be_disk env) look tid entry d f1 w1 w1 (r # rs) dm1" by simp
    from assms(3) Cons have "\<forall>x \<in> set (r # rs). writes_to (be_disk env) look bytes pos tid tf entry off d h x" by simp
    from waiting_pass [OF wt assms(2) this, of n b t "q @ haves h p"] obtain ws rest dm2 f2 w2 where
      "disk_loop env (Suc (Suc n)) (client_disk b tid t h dm1 (q @ haves h p)) w1 =
        Some (Some (None, client_disk b tid t h dm2 ((q @ haves h p) @ concat (map (haves h) ws)), w2))"
      "writing look tid entry off d f2 rest dm2" "bytes f2 = put off ws (bytes f1)" "mset (ws @ rest) = mset (r # rs)" .
    with w(2) Cons show thesis
      by (intro that [of dm2 "p # ws" w2 f2 rest]) (simp_all add: first put_def del: disk_loop.simps)
  qed
qed


text \<open>A poll of the complete client: the pool is quiet, so the disk manager is polled.\<close>

lemma quiet_loop:
  assumes "complete h" and "lively env w tid t h"
  shows "pool_loop env (Suc n) (be_clock env w) (client_disk b tid t h dm q) w = Some (Some (None, client_disk b tid t h dm q))"
proof -
  from assms(1) have "ph_poll (be_shuffle env w) h = (Seed, h)" by (simp add: ph_poll_def complete_def)
  from loop_idle [OF assms(2) this] show ?thesis unfolding client_disk_def .
qed

definition announcement :: "NetworkBehaviourAction \<Rightarrow> bool" where
  "announcement a \<longleftrightarrow> (\<exists>p i. a = SendEvent p (BitTorrentHandlerIn.Have i))"

lemma pop_run:
  "list_all announcement q \<Longrightarrow> client_run env (Suc n) content (length q) (client_disk b tid t h dm q) w =
    Some (q, client_disk b tid t h dm [], w)"
proof (induction q)
  case (Cons a q)
  then have "client_round env (Suc n) content (client_disk b tid t h dm (a # q)) w = Some (poll.Ready a, client_disk b tid t h dm q, w)"
    by (subst round_pop) (auto simp: announcement_def)
  with Cons show ?case by simp
qed simp

lemma haves_announce: "list_all announcement (concat (map (haves h) ws))"
  by (auto simp: list_all_iff haves_def announcement_def)

lemma pass_run:
  assumes "complete h" and "lively env w tid t h" and "list_all announcement q"
    and "disk_loop env (Suc (Suc n)) (client_disk b tid t h dm []) w = Some (Some (None, client_disk b tid t h dm' q, w2))"
  shows "client_run env (Suc (Suc n)) content (max 1 (length q)) (client_disk b tid t h dm []) w =
    Some (q, client_disk b tid t h dm' [], w2)"
proof (cases q)
  case Nil
  have "bt_poll env (Suc (Suc n)) (client_disk b tid t h dm []) w = Some (Some (Pending, client_disk b tid t h dm' [], w2))"
    unfolding bt_poll_def using assms(4) Nil quiet_loop [OF assms(1,2)]
    by (subst poll_rounds.simps) (simp del: pool_loop.simps disk_loop.simps poll_rounds.simps)
  then show ?thesis using Nil by (simp add: client_round_def)
next
  case (Cons a q')
  with assms(3) obtain p i where a: "a = SendEvent p (BitTorrentHandlerIn.Have i)" by (auto simp: announcement_def)
  have "bt_poll env (Suc (Suc n)) (client_disk b tid t h dm []) w = Some (Some (poll.Ready a, client_disk b tid t h dm' q', w2))"
    unfolding bt_poll_def using assms(4) Cons quiet_loop [OF assms(1,2)]
    by (subst poll_rounds.simps) (simp del: pool_loop.simps disk_loop.simps)
  then have "client_round env (Suc (Suc n)) content (client_disk b tid t h dm []) w = Some (poll.Ready a, client_disk b tid t h dm' q', w2)"
    by (simp add: client_round_def a)
  then show ?thesis using Cons assms(3) pop_run [of q' env "Suc n" content] by simp
qed

lemma client_run_then:
  assumes "client_run env fuel c m b w = Some (as, b1, w1)" and "client_run env fuel c n b1 w1 = Some (as', b2, w2)"
  shows "client_run env fuel c (m + n) b w = Some (as @ as', b2, w2)"
  using assms by (simp add: client_run_add del: client_run.simps)

text \<open>All the pieces of the queue are written, each exactly once, and announced to every peer.\<close>

lemma length_haves: "length (concat (map (haves h) ws)) = length ws * length (ph_peers h)"
  by (induction ws) (simp_all add: haves_def)

lemma writing_run:
  assumes "writing look tid entry off d f pieces dm" and "complete h" and "\<forall>w. lively env w tid t h" and "ph_peers h \<noteq> []"
    and "\<forall>x \<in> set pieces. writes_to (be_disk env) look bytes pos tid tf entry off d h x"
  shows "\<exists>order dm' f' w'. mset order = mset pieces \<and>
    client_run env (Suc (Suc (Suc n))) content (length pieces * length (ph_peers h)) (client_disk b tid t h dm []) w =
      Some (concat (map (haves h) order), client_disk b tid t h dm' [], w') \<and>
    writing look tid entry off d f' [] dm' \<and> bytes f' = put off order (bytes f)"
  using assms(1,5)
proof (induction "length pieces" arbitrary: pieces dm f w rule: less_induct)
  case less
  show ?case
  proof (cases pieces)
    case Nil
    then show ?thesis using less.prems(1) by (intro exI [of _ "[]"]) (auto simp: put_def)
  next
    case (Cons p ps)
    obtain ws rest dm1 f1 w1 where
      pass: "disk_loop env (Suc (Suc (Suc n))) (client_disk b tid t h dm []) w =
        Some (Some (None, client_disk b tid t h dm1 (concat (map (haves h) ws)), w1))"
      and dm1: "writing look tid entry off d f1 rest dm1" and f1: "bytes f1 = put off ws (bytes f)"
      and ms: "mset (ws @ rest) = mset pieces" and ne: "ws \<noteq> []"
      by (rule writing_pass [OF less.prems(1) [unfolded Cons] assms(2) less.prems(2) [unfolded Cons], of n b t "[]" w,
            unfolded append_Nil Cons [symmetric]])
    from ms have len: "length pieces = length ws + length rest" and st: "set rest \<subseteq> set pieces"
      by (metis length_append size_mset, metis Un_upper2 set_append set_mset_mset)
    have rest: "\<forall>x \<in> set rest. writes_to (be_disk env) look bytes pos tid tf entry off d h x" using less.prems(2) st by blast
    have "max 1 (length (concat (map (haves h) ws))) = length ws * length (ph_peers h)"
      using ne assms(4) unfolding length_haves by (cases ws; cases "ph_peers h") simp_all
    with pass_run [OF assms(2) assms(3) [rule_format] haves_announce pass, of content]
    have one: "client_run env (Suc (Suc (Suc n))) content (length ws * length (ph_peers h)) (client_disk b tid t h dm []) w =
        Some (concat (map (haves h) ws), client_disk b tid t h dm1 [], w1)" by simp
    from less.hyps [OF _ dm1 rest, of w1] len ne obtain order dm' f' w' where
      o: "mset order = mset rest"
      "client_run env (Suc (Suc (Suc n))) content (length rest * length (ph_peers h)) (client_disk b tid t h dm1 []) w1 =
        Some (concat (map (haves h) order), client_disk b tid t h dm' [], w')"
      "writing look tid entry off d f' [] dm'" "bytes f' = put off order (bytes f1)" by auto
    then show ?thesis
      using f1 ms client_run_then [OF one o(2)] by (intro exI [of _ "ws @ order"] exI [of _ dm'] exI [of _ f'] exI [of _ w'])
        (simp add: len add_mult_distrib put_def del: client_run.simps)
  qed
qed

lemma waiting_run:
  assumes "waiting (be_disk env) look tid entry d f w w1 pieces dm" and "pieces \<noteq> []" and "complete h" and "\<forall>w. lively env w tid t h"
    and "ph_peers h \<noteq> []" and "\<forall>x \<in> set pieces. writes_to (be_disk env) look bytes pos tid tf entry off d h x"
  shows "\<exists>order dm' f' w'. mset order = mset pieces \<and>
    client_run env (Suc (Suc (Suc n))) content ((if length pieces = 1 then 0 else 1) + length pieces * length (ph_peers h))
        (client_disk b tid t h dm []) w =
      Some (concat (map (haves h) order), client_disk b tid t h dm' [], w') \<and>
    writing look tid entry off d f' [] dm' \<and> bytes f' = put off order (bytes f)"
proof -
  from assms(2) obtain p ps where Cons: "pieces = p # ps" by (cases pieces) auto
  obtain ws rest dm1 f1 w1 where
    pass: "disk_loop env (Suc (Suc (Suc n))) (client_disk b tid t h dm []) w =
      Some (Some (None, client_disk b tid t h dm1 (concat (map (haves h) ws)), w1))"
    and dm1: "writing look tid entry off d f1 rest dm1" and f1: "bytes f1 = put off ws (bytes f)"
    and ms: "mset (ws @ rest) = mset pieces" and ws: "if ps = [] then ws = [p] else ws = []"
    by (rule waiting_pass [OF assms(1) [unfolded Cons] assms(3) assms(6) [unfolded Cons], of "Suc n" b t "[]",
          unfolded append_Nil Cons [symmetric]])
  from ms have len: "length pieces = length ws + length rest" and st: "set rest \<subseteq> set pieces"
    by (metis length_append size_mset, metis Un_upper2 set_append set_mset_mset)
  have rest: "\<forall>x \<in> set rest. writes_to (be_disk env) look bytes pos tid tf entry off d h x" using assms(6) st by blast
  have "max 1 (length (concat (map (haves h) ws))) = (if length pieces = 1 then 0 else 1) + length ws * length (ph_peers h)"
    using ws assms(5) unfolding length_haves Cons by (cases "ph_peers h"; cases ps) simp_all
  with pass_run [OF assms(3) assms(4) [rule_format] haves_announce pass, of content]
  have one: "client_run env (Suc (Suc (Suc n))) content ((if length pieces = 1 then 0 else 1) + length ws * length (ph_peers h))
      (client_disk b tid t h dm []) w = Some (concat (map (haves h) ws), client_disk b tid t h dm1 [], w1)" by simp
  from writing_run [OF dm1 assms(3-5) rest, of n content b w1] obtain order dm' f' w' where
    o: "mset order = mset rest"
    "client_run env (Suc (Suc (Suc n))) content (length rest * length (ph_peers h)) (client_disk b tid t h dm1 []) w1 =
      Some (concat (map (haves h) order), client_disk b tid t h dm' [], w')"
    "writing look tid entry off d f' [] dm'" "bytes f' = put off order (bytes f1)" by blast
  have count: "(if length pieces = 1 then 0 else 1) + length pieces * length (ph_peers h) =
      ((if length pieces = 1 then 0 else 1) + length ws * length (ph_peers h)) + length rest * length (ph_peers h)"
    unfolding len add_mult_distrib by simp
  show ?thesis
    unfolding count
    using client_run_then [OF one o(2)] f1 ms o(1,3,4) by (intro exI [of _ "ws @ order"] exI [of _ dm'] exI [of _ f'] exI [of _ w'])
      (simp add: put_def del: client_run.simps)
qed

section \<open>The whole download\<close>

text \<open>The metainfo describes the content as one file, in the pieces of the handler and with their hashes.\<close>

definition describes :: "(u8 list \<Rightarrow> ShaHash) \<Rightarrow> MetaInfo \<Rightarrow> TorrentPieceHandler \<Rightarrow> (usize \<Rightarrow> u8 list) \<Rightarrow> bool" where
  "describes sha1 mi h content \<longleftrightarrow>
     ti_content (mi_info mi) = Single (length (concat (map content [0..<length (ph_bitfield h)]))) \<and>
     ti_pieces (mi_info mi) = map (sha1 \<circ> content) [0..<length (ph_bitfield h)] \<and>
     ti_piece_length (mi_info mi) = ph_piece_length h \<and> ph_last_piece_length h \<le> ph_piece_length h \<and>
     ph_piece_length h < 2 ^ 32 \<and> length (ph_bitfield h) < 2 ^ 32"

lemma describes_wire:
  assumes "describes sha1 mi h content" and "all_seed h content"
  shows "\<forall>i < length (ph_bitfield h). on_wire content i"
  using assms by (auto simp: describes_def all_seed_def on_wire_def piece_length_of_def)

lemma content_end:
  assumes "\<forall>i < n. Suc i < n \<longrightarrow> length (content i) = plen" and "i < n"
  shows "plen * i + length (content i) \<le> length (concat (map content [0..<n]))"
proof -
  have full: "\<forall>j < i. length (content j) = plen" using assms by simp
  have "map length (map content [0..<i]) = replicate i plen" using full by (intro replicate_eqI) auto
  then have "length (concat (map content [0..<i])) = plen * i" by (simp add: length_concat sum_list_replicate)
  moreover have "[0..<n] = [0..<i] @ i # [Suc i..<n]"
    using assms(2) by (metis le_add_same_cancel1 less_imp_add_positive less_imp_le_nat upt_add_eq_append upt_conv_Cons zero_le)
  ultimately show ?thesis by simp
qed

lemma content_bound: "\<forall>i < n. length (content i) \<le> plen \<Longrightarrow> length (concat (map content [0..<n])) \<le> n * plen"
  by (induction n) (auto simp: add.commute intro: add_mono)

text \<open>Every piece of the content fits at its place in the file.\<close>

lemma describes_fits:
  assumes "describes (de_sha1 env) mi h content" and "all_seed h content" and "TorrentFile_new (de_checks env) tid mi = Some tf"
    and "i < length (ph_bitfield h)"
  shows "fits env tf (hd (tfl_files tf)) (piece_place (ph_piece_length h)) (whole_piece h content i)"
proof -
  let ?n = "length (ph_bitfield h)"
  let ?m = "BlockMetadata_new i 0 (piece_length_of h i)"
  let ?total = "length (concat (map content [0..<?n]))"
  let ?e = "\<lparr>fe_path = [ti_name (mi_info mi)], fe_id = TorrentFileId_new tid (FileId 0), fe_offset = 0, fe_size = ?total\<rparr>"
  from assms(1) have d: "ti_content (mi_info mi) = Single ?total" "ti_pieces (mi_info mi) = map (de_sha1 env \<circ> content) [0..<?n]"
    "ti_piece_length (mi_info mi) = ph_piece_length h" "ph_last_piece_length h \<le> ph_piece_length h"
    "ph_piece_length h < 2 ^ 32" "?n < 2 ^ 32" by (simp_all add: describes_def)
  have tf: "tf = \<lparr>tfl_id = tid, tfl_meta_info = mi, tfl_files = [?e]\<rparr>"
    using assms(3) d(1) by (simp add: TorrentFile_new_def Let_def)
  have c: "length (content j) = piece_length_of h j" "content j \<noteq> []" if "j < ?n" for j using assms(2) that by (auto simp: all_seed_def)
  have le: "piece_length_of h j \<le> ph_piece_length h" for j using d(4) by (simp add: piece_length_of_def)
  have "\<forall>j < ?n. Suc j < ?n \<longrightarrow> length (content j) = ph_piece_length h" using c by (simp add: piece_length_of_def)
  from content_end [OF this assms(4)] c(1) [OF assms(4)]
  have e: "ph_piece_length h * i + piece_length_of h i \<le> ?total" by simp
  have pos: "0 < piece_length_of h i" using c [OF assms(4)] by (metis length_greater_0_conv)
  have total: "?total < 2 ^ 64"
  proof -
    have "?total \<le> ?n * ph_piece_length h"
      using c(1) le by (intro content_bound) simp
    also have "\<dots> < 2 ^ 32 * 2 ^ 32" using d(5,6) by (intro mult_strict_mono) auto
    finally show ?thesis by simp
  qed
  have start: "block_start tf ?m = ph_piece_length h * i" by (simp add: block_start_def BlockMetadata_new_def tf d(3))
  have r: "block_in_range tf ?m"
    unfolding block_in_range_def start using assms(4) e pos le d by (simp add: tf BlockMetadata_new_def total_length_def)
  have "files_for_block (de_checks env) tf ?m =
      map_option Inr (files_loop (de_checks env) (block_start tf ?m) (block_start tf ?m + bm_block_length ?m) (bm_block_length ?m) [?e] [])"
    using files_for_block_loop [OF r] total d by (simp add: tf total_length_def)
  also have "\<dots> = Some (Inr [(?e, FileWindow_new (ph_piece_length h * i) (piece_length_of h i))])"
    using total e unfolding start by (subst files_loop_single) (simp_all add: holds_def BlockMetadata_new_def)
  finally show ?thesis
    using c(1) [OF assms(4)] assms(4) d(2)
    by (simp add: fits_def whole_piece_def Block_new_def piece_place_def BlockMetadata_new_def is_good_piece_def tf)
qed


text \<open>The handler with all pieces, as the behaviour sees it.\<close>

lemma completed_simps [simp]:
  "ph_peers (completed h) = ph_peers h" "length (ph_bitfield (completed h)) = length (ph_bitfield h)"
  "lively env w tid t (completed h) = lively env w tid t h" "haves (completed h) = haves h"
  by (simp_all add: completed_def haves_def fun_eq_iff)

lemma completed_complete: "ph_piece_buffer h = None \<Longrightarrow> complete (completed h)"
  by (auto simp: completed_def complete_def)

lemma client_as_disk: "client b tid t h jobs q = client_disk b tid t h ((disk_manager b)\<lparr>dm_queued_events := jobs\<rparr>) q"
  by (simp add: client_disk_def client_def)

lemma requested_haves: "list_all announcement acts \<Longrightarrow> requested acts = []"
  by (induction acts) (auto simp: announcement_def)

lemma no_announcement: "list_all (transfer tid) acts \<Longrightarrow> filter announcement acts = []"
  by (auto simp: filter_empty_conv list_all_iff transfer_def announcement_def block_taken_def)

text \<open>The pieces that a finished download leaves in the queue of the disk manager are written.\<close>

lemma queued_pieces_written:
  assumes "ph_piece_buffer h = None" and "all_seed h content" and "\<forall>w. lively env w tid t h" and "order \<noteq> []"
    and "set order \<subseteq> {..<length (ph_bitfield h)}" and "dm_active_blocks (disk_manager b) = []"
    and "prompt_fs (de_fs (be_disk env)) bytes pos" and "lru_laws (de_lru (be_disk env)) look cap"
    and "describes (de_sha1 (be_disk env)) mi h content" and "TorrentFile_new (de_checks (be_disk env)) tid mi = Some tf"
    and "dm_torrent (disk_manager b) tid = Some tf"
    and "available (be_disk env) look (dm_file_cache (disk_manager b)) (hd (tfl_files tf)) w f w1"
  shows "\<exists>acts dm' f' w'.
    client_run env (Suc (Suc (Suc k))) content ((if length order = 1 then 0 else 1) + length order * length (ph_peers h))
      (client b tid (t\<lparr>t_seed_leech := SeedOnly\<rparr>) (completed h) (map (\<lambda>i. WriteBlock tid (whole_piece h content i)) order) []) w =
      Some (acts, client_disk b tid (t\<lparr>t_seed_leech := SeedOnly\<rparr>) (completed h) dm' [], w') \<and>
    mset acts = mset (concat (map (haves h \<circ> whole_piece h content) order)) \<and> list_all announcement acts \<and>
    disk_idle dm' \<and> look (dm_file_cache dm') (fe_id (hd (tfl_files tf))) = Some (FileReady f') \<and>
    (\<exists>pieces. mset pieces = mset (map (whole_piece h content) order) \<and> bytes f' = put (piece_place (ph_piece_length h)) pieces (bytes f))"
proof -
  let ?h = "completed h"
  let ?pieces = "map (whole_piece h content) order"
  let ?entry = "hd (tfl_files tf)"
  let ?off = "piece_place (ph_piece_length h)"
  let ?dm = "(disk_manager b)\<lparr>dm_queued_events := map (WriteBlock tid) ?pieces\<rparr>"
  have wt: "waiting (be_disk env) look tid ?entry (disk_manager b) f w w1 ?pieces ?dm"
    unfolding waiting_def using assms(6,12) by (intro exI [of _ "dm_file_cache (disk_manager b)"]) (cases "disk_manager b", simp)
  have "tfl_files tf \<noteq> []" using assms(9,10) by (auto simp: describes_def TorrentFile_new_def Let_def)
  then have tid: "tf_torrent (fe_id ?entry) = tid" using TorrentFile_new_entries [OF assms(10)] by simp
  have wr: "\<forall>x \<in> set ?pieces. writes_to (be_disk env) look bytes pos tid tf ?entry ?off (disk_manager b) ?h x"
    using describes_fits [OF assms(9,2,10)] assms(5,7,8,11) tid
    by (auto simp: writes_to_def whole_piece_def Block_new_def BlockMetadata_new_def)
  have "\<forall>w. lively env w tid (t\<lparr>t_seed_leech := SeedOnly\<rparr>) ?h" "ph_peers ?h \<noteq> []" "?pieces \<noteq> []"
    using assms(2-4) by (simp_all add: all_seed_def)
  from waiting_run [OF wt this(3) completed_complete [OF assms(1)] this(1,2) wr, of k content b] obtain pieces dm' f' w' where
    run: "mset pieces = mset ?pieces"
    "client_run env (Suc (Suc (Suc k))) content ((if length order = 1 then 0 else 1) + length order * length (ph_peers h))
      (client_disk b tid (t\<lparr>t_seed_leech := SeedOnly\<rparr>) ?h ?dm []) w =
      Some (concat (map (haves h) pieces), client_disk b tid (t\<lparr>t_seed_leech := SeedOnly\<rparr>) ?h dm' [], w')"
    "writing look tid ?entry ?off (disk_manager b) f' [] dm'" "bytes f' = put ?off pieces (bytes f)" by auto
  from run(3) have "disk_idle dm'" "look (dm_file_cache dm') (fe_id ?entry) = Some (FileReady f')"
    by (auto simp: writing_def disk_idle_def)
  moreover have "mset (concat (map (haves h) pieces)) = mset (concat (map (haves h \<circ> whole_piece h content) order))"
    using sum_list_mset_eq [OF run(1), of "\<lambda>p. mset (haves h p)"] by (simp add: mset_concat comp_def)
  ultimately show ?thesis
    unfolding client_as_disk using run haves_announce by (simp add: comp_def) blast
qed


lemma written_content:
  assumes "describes sha1 mi h content" and "all_seed h content" and "ph_piece_buffer h = None"
    and "mset order = mset (missing_piece_indices h)" and "mset pieces = mset (map (whole_piece h content) order)"
    and "\<forall>i < length (ph_bitfield h). ph_bitfield h ! i \<longrightarrow> has_piece (ph_piece_length h) content bytes i"
  defines "whole \<equiv> concat (map content [0..<length (ph_bitfield h)])"
  shows "take (length whole) (put (piece_place (ph_piece_length h)) pieces bytes) = whole"
proof -
  let ?n = "length (ph_bitfield h)"
  let ?idx = "\<lambda>p. bm_piece_index (bl_metadata p)"
  from assms(1) have le: "piece_length_of h j \<le> ph_piece_length h" for j by (simp add: describes_def piece_length_of_def)
  have c: "length (content j) = piece_length_of h j" "content j \<noteq> []" if "j < ?n" for j using assms(2) that by (auto simp: all_seed_def)
  have st: "set pieces = whole_piece h content ` set (missing_piece_indices h)"
    using mset_eq_setD [OF assms(4)] mset_eq_setD [OF assms(5)] by simp
  have miss: "set (missing_piece_indices h) = {i. i < ?n \<and> \<not> ph_bitfield h ! i}" using assms(3) by (simp add: missing_piece_indices_set)
  have w: "?idx (whole_piece h content i) = i" "bl_data (whole_piece h content i) = content i" for i
    by (simp_all add: whole_piece_def Block_new_def BlockMetadata_new_def)
  have "\<forall>i \<in> {..<?n}. has_piece (ph_piece_length h) content (put (piece_place (ph_piece_length h)) pieces bytes) i"
  proof (rule put_pieces)
    show "\<forall>p \<in> set pieces. bl_data p = content (?idx p) \<and> length (bl_data p) \<le> ph_piece_length h"
      using c le by (auto simp: st miss w)
    show "\<forall>i \<in> {..<?n}. length (content i) \<le> ph_piece_length h \<and> content i \<noteq> []" using c le by simp
    show "\<forall>i \<in> {..<?n}. i \<in> ?idx ` set pieces \<or> has_piece (ph_piece_length h) content bytes i"
      using assms(6) by (auto simp: st miss w image_image)
  qed
  then show ?thesis
    unfolding whole_def using c by (intro whole_content) (auto simp: piece_length_of_def)
qed

text \<open>
  An instance over the native file system: files in memory that answer at once, a torrent of three
  bytes in two pieces, and one peer that has them.
\<close>

definition ram_tokio :: "(MemFile, unit, unit) tokio_files" where
  "ram_tokio = \<lparr>tk_open = (\<lambda>_ p w. (poll.Ready (Inr \<lparr>mf_bytes = [], mf_pos = 0\<rparr>), w)),
     tk_sync_all = (\<lambda>f w. (poll.Ready (Inr ()), f, w)),
     tk_metadata = (\<lambda>f w. (poll.Ready (Inr \<lparr>md_len = length (mf_bytes f)\<rparr>), f, w)),
     tk_seek = (\<lambda>f n w. (poll.Ready (Inr n), f\<lparr>mf_pos := n\<rparr>, w)),
     tk_read_buf = (\<lambda>f blk w. (poll.Ready (Inr (length (mf_bytes f) - mf_pos f)), f\<lparr>mf_pos := mf_pos f + (length (mf_bytes f) - mf_pos f)\<rparr>,
        blk @ drop (mf_pos f) (mf_bytes f), w)),
     tk_write = (\<lambda>f buf w. (poll.Ready (Inr (length buf)),
        f\<lparr>mf_bytes := overwrite (mf_pos f) buf (mf_bytes f), mf_pos := mf_pos f + length buf\<rparr>, w))\<rparr>"

definition ram_env :: "(MemFile, unit, unit, (TorrentFileId \<times> MemFile FileState) list) bt_env" where
  "ram_env = \<lparr>be_disk = \<lparr>de_checks = False, de_sha1 = (\<lambda>bytes. bytes),
       de_fs = native_fs ram_tokio (NativeFileSystem_from [[100]]), de_lru = lru_of 100\<rparr>,
     be_clock = (\<lambda>_. 0), be_shuffle = (\<lambda>_ xs. xs)\<rparr>"

definition three_bytes :: "usize \<Rightarrow> u8 list" where
  "three_bytes i = (if i = 0 then [1, 2] else [3])"

definition three_info :: MetaInfo where
  "three_info = one_file\<lparr>mi_info := \<lparr>ti_pieces = [[1, 2], [3]], ti_piece_length = 2, ti_content = Single 3, ti_name = [99]\<rparr>\<rparr>"

definition three_handler :: TorrentPieceHandler where
  "three_handler = snd (insert_peer 1 ((new_with_bitfield 0 [] [True, True])\<lparr>client_interest := InterestType.Interested, remote_choke := UnChoked\<rparr>)
     (TorrentPieceHandler_new (TorrentId 0) Rarest [False, False] 2 1))"

definition three_file :: TorrentFile where
  "three_file = \<lparr>tfl_id = TorrentId 0, tfl_meta_info = three_info,
     tfl_files = [\<lparr>fe_path = [[99]], fe_id = TorrentFileId_new (TorrentId 0) (FileId 0), fe_offset = 0, fe_size = 3\<rparr>]\<rparr>"

definition three_client :: "(MemFile, (TorrentFileId \<times> MemFile FileState) list) BitTorrent" where
  "three_client = (with_config [] [] 0 BitTorrentConfig_default)\<lparr>disk_manager := (with_capacity [])\<lparr>dm_torrents := [three_file]\<rparr>\<rparr>"

lemma ram_prompt: "prompt_fs (native_fs ram_tokio fs) mf_bytes mf_pos"
  by (auto simp: prompt_fs_def fs_laws_def prompt_write_def native_fs_def native_poll_seek_def native_poll_write_block_def
      native_poll_read_block_def ram_tokio_def)

lemma three_handler_eq: "three_handler = (TorrentPieceHandler_new (TorrentId 0) Rarest [False, False] 2 1)
    \<lparr>ph_peers := [(1, (new_with_bitfield 0 [] [True, True])\<lparr>client_interest := InterestType.Interested, remote_choke := UnChoked\<rparr>)]\<rparr>"
  by (simp add: three_handler_def insert_peer_def TorrentPieceHandler_new_def hm_insert_def Let_def)

lemma three_reachable: "ph_reachable three_handler"
  unfolding three_handler_def by (rule ph_more [OF ph_start s_insert]) simp

lemma three_fields:
  "ph_id three_handler = TorrentId 0" "ph_piece_buffer three_handler = None" "ph_bitfield three_handler = [False, False]"
  "ph_piece_length three_handler = 2" "ph_last_piece_length three_handler = 1"
  "missing_piece_indices three_handler = [0, 1]" "length (ph_peers three_handler) = 1" "block_polls three_handler [0, 1] = 4"
  by (simp_all add: three_handler_eq missing_piece_indices_def TorrentPieceHandler_new_def Let_def enumerate_eq_zip
      block_polls_def piece_length_of_def num_blocks_def BLOCK_SIZE_def)

lemma three_seed: "all_seed three_handler three_bytes"
  by (auto simp: all_seed_def three_handler_eq TorrentPieceHandler_new_def remote_can_seed_piece_iff new_with_bitfield_def
      piece_length_of_def three_bytes_def less_Suc_eq)

lemma three_live: "\<forall>w. lively ram_env w (TorrentId 0) (Torrent_new 0 (TorrentId 0) [] three_handler SeedAndLeech Active) three_handler"
  by (auto simp: lively_def alive_def ram_env_def three_handler_eq TorrentPieceHandler_new_def Torrent_new_def new_with_bitfield_def
      overdue_def)

lemma three_described:
  "describes (de_sha1 (be_disk ram_env)) three_info three_handler three_bytes"
  "TorrentFile_new (de_checks (be_disk ram_env)) (TorrentId 0) three_info = Some three_file"
  by (simp_all add: describes_def three_fields ram_env_def three_info_def three_bytes_def upt_rec TorrentFile_new_def three_file_def Let_def)

lemma three_disk:
  "dm_torrent (disk_manager three_client) (TorrentId 0) = Some three_file" "dm_active_blocks (disk_manager three_client) = []"
  "prompt_fs (de_fs (be_disk ram_env)) mf_bytes mf_pos" "lru_laws (de_lru (be_disk ram_env)) map_of 100"
  by (simp_all add: three_client_def dm_torrent_def with_capacity_def three_file_def ram_env_def ram_prompt lru_of_laws)

lemma three_available:
  "available (be_disk ram_env) map_of (dm_file_cache (disk_manager three_client)) (hd (tfl_files three_file)) ()
     \<lparr>mf_bytes = [], mf_pos = 0\<rparr> ()"
  by (simp add: three_client_def with_capacity_def three_file_def ram_env_def available_def native_fs_def native_poll_open_file_def
      ram_tokio_def)

section \<open>Properties\<close>

text \<open>
  C3. A whole download, from the first request to the bytes of the file. The client has one torrent of one
  file, described by its metainfo; some pieces are missing and the file holds the others; its peers
  have all pieces, are never overdue with a heartbeat in either direction and answer every request with
  the content; the file system opens the file and carries out every access at once and in full; the
  cache of open files may have any capacity. Then the stated number of polls of the
  behaviour, each followed by the answer to the request it sent, does the following: every block
  of every missing piece is requested exactly once and nothing else is; the torrent is reported as
  finished; every missing piece is announced exactly once to every peer; and in the end the disk
  manager is idle and the file starts with exactly the whole content. The report of the finished
  torrent comes before the first piece is written: after the polls of the blocks, all missing pieces
  are still in the queue of the disk manager.
\<close>

theorem download_reaches_file:
  assumes "ph_reachable h" and "ph_id h = tid" and "ph_piece_buffer h = None" and "False \<in> set (ph_bitfield h)"
    and "all_seed h content" and "\<forall>w. lively env w tid t h" and "\<forall>xs. mset (be_shuffle env w xs) = mset xs"
    and "describes (de_sha1 (be_disk env)) mi h content" and "TorrentFile_new (de_checks (be_disk env)) tid mi = Some tf"
    and "dm_torrent (disk_manager b) tid = Some tf" and "dm_active_blocks (disk_manager b) = []"
    and "prompt_fs (de_fs (be_disk env)) bytes pos" and "lru_laws (de_lru (be_disk env)) look cap"
    and "available (be_disk env) look (dm_file_cache (disk_manager b)) (hd (tfl_files tf)) w f w1"
    and "\<forall>i < length (ph_bitfield h). ph_bitfield h ! i \<longrightarrow> has_piece (ph_piece_length h) content (bytes f) i"
  shows "\<exists>acts1 acts2 s dm' f' w'.
    client_run env (Suc (Suc (Suc k))) content (Suc (block_polls h (missing_piece_indices h))) (client b tid t h [] []) w =
      Some (acts1 @ [GenerateEvent (TorrentFinished tid)], s, w) \<and>
    mset (dm_queued_events (disk_manager s)) = mset (map (\<lambda>i. WriteBlock tid (whole_piece h content i)) (missing_piece_indices h)) \<and>
    client_run env (Suc (Suc (Suc k))) content
        ((if length (missing_piece_indices h) = 1 then 0 else 1) + length (missing_piece_indices h) * length (ph_peers h)) s w =
      Some (acts2, client_disk b tid (t\<lparr>t_seed_leech := SeedOnly\<rparr>) (completed h) dm' [], w') \<and>
    list_all (transfer tid) acts1 \<and> mset (requested acts1) = piece_requests h (missing_piece_indices h) \<and>
    mset acts2 = mset (concat (map (haves h \<circ> whole_piece h content) (missing_piece_indices h))) \<and>
    disk_idle dm' \<and> look (dm_file_cache dm') (fe_id (hd (tfl_files tf))) = Some (FileReady f') \<and>
    (let whole = concat (map content [0..<length (ph_bitfield h)]) in take (length whole) (bytes f') = whole)"
proof -
  define missing where "missing = missing_piece_indices h"
  define whole where "whole = concat (map content [0..<length (ph_bitfield h)])"
  have inv: "ph_inv h" by (rule ph_run_idle_inv [OF assms(1,3)])
  have nf: "\<not> bv_all (ph_bitfield h)" using assms(4) by (auto simp: bv_all_def list_all_iff)
  then have "\<not> ph_finished h" using inv by (auto simp: ph_inv_def)
  from client_pieces [OF inv assms(7,3) this assms(5,2) assms(6) [rule_format] describes_wire [OF assms(8,5)] settles_self, of b "[]" "Suc k"]
  obtain acts1 order where one: "mset order = mset missing"
    "client_run env (Suc (Suc (Suc k))) content (Suc (block_polls h missing)) (client b tid t h [] []) w =
      Some (acts1 @ [GenerateEvent (TorrentFinished tid)], client b tid (t\<lparr>t_seed_leech := SeedOnly\<rparr>) (completed h)
        (map (\<lambda>i. WriteBlock tid (whole_piece h content i)) order) [], w)"
    "list_all (transfer tid) acts1" "mset (requested acts1) = piece_requests h missing"
    unfolding missing_def by auto
  have ne: "order \<noteq> []" using one(1) nf missing_empty [OF assms(3)] by (auto simp: missing_def)
  have st: "set order \<subseteq> {..<length (ph_bitfield h)}"
    using mset_eq_setD [OF one(1)] by (auto simp: missing_def missing_piece_indices_set)
  have len: "length order = length missing" using one(1) by (metis size_mset)
  from queued_pieces_written [OF assms(3,5,6) ne st assms(11,12,13,8,9,10,14), of k, unfolded len]
  obtain acts2 dm' f' w' pieces where two:
    "client_run env (Suc (Suc (Suc k))) content ((if length missing = 1 then 0 else 1) + length missing * length (ph_peers h))
      (client b tid (t\<lparr>t_seed_leech := SeedOnly\<rparr>) (completed h) (map (\<lambda>i. WriteBlock tid (whole_piece h content i)) order) []) w =
      Some (acts2, client_disk b tid (t\<lparr>t_seed_leech := SeedOnly\<rparr>) (completed h) dm' [], w')"
    "mset acts2 = mset (concat (map (haves h \<circ> whole_piece h content) order))"
    "disk_idle dm'" "look (dm_file_cache dm') (fe_id (hd (tfl_files tf))) = Some (FileReady f')"
    "mset pieces = mset (map (whole_piece h content) order)" "bytes f' = put (piece_place (ph_piece_length h)) pieces (bytes f)"
    by blast
  have "take (length whole) (bytes f') = whole"
    using written_content [OF assms(8,5,3) one(1) [unfolded missing_def] two(5) assms(15)] two(6) by (simp add: whole_def)
  moreover have "mset acts2 = mset (concat (map (haves h \<circ> whole_piece h content) missing))"
    unfolding two(2) mset_concat using sum_list_mset_eq [OF one(1), of "mset \<circ> (haves h \<circ> whole_piece h content)"] by (simp add: comp_def)
  moreover have "mset (dm_queued_events (disk_manager (client b tid (t\<lparr>t_seed_leech := SeedOnly\<rparr>) (completed h)
      (map (\<lambda>i. WriteBlock tid (whole_piece h content i)) order) []))) = mset (map (\<lambda>i. WriteBlock tid (whole_piece h content i)) missing)"
    using one(1) by simp
  ultimately show ?thesis
    unfolding missing_def [symmetric] whole_def [symmetric] Let_def using one(2-4) two(1,3,4) by blast
qed

theorem download_reaches_file_witness:
  "\<exists>acts1 acts2 s dm' f' w'.
    client_run ram_env 3 three_bytes 5 (client three_client (TorrentId 0) (Torrent_new 0 (TorrentId 0) [] three_handler SeedAndLeech Active)
      three_handler [] []) () = Some (acts1 @ [GenerateEvent (TorrentFinished (TorrentId 0))], s, ()) \<and>
    client_run ram_env 3 three_bytes 3 s () = Some (acts2, client_disk three_client (TorrentId 0)
      ((Torrent_new 0 (TorrentId 0) [] three_handler SeedAndLeech Active)\<lparr>t_seed_leech := SeedOnly\<rparr>) (completed three_handler) dm' [], w') \<and>
    mset acts2 = {#SendEvent 1 (BitTorrentHandlerIn.Have 0), SendEvent 1 (BitTorrentHandlerIn.Have 1)#} \<and>
    map_of (dm_file_cache dm') (TorrentFileId_new (TorrentId 0) (FileId 0)) = Some (FileReady f') \<and> take 3 (mf_bytes f') = [1, 2, 3]"
proof -
  have perm: "\<forall>xs. mset (be_shuffle ram_env () xs) = mset xs" by (simp add: ram_env_def)
  have bits: "False \<in> set (ph_bitfield three_handler)" by (simp add: three_fields)
  have owned: "\<forall>i < length (ph_bitfield three_handler). ph_bitfield three_handler ! i \<longrightarrow>
      has_piece (ph_piece_length three_handler) three_bytes (mf_bytes \<lparr>mf_bytes = [], mf_pos = 0\<rparr>) i"
    by (auto simp: three_fields less_Suc_eq)
  have out: "concat (map (haves three_handler \<circ> whole_piece three_handler three_bytes) [0, 1]) =
      [SendEvent 1 (BitTorrentHandlerIn.Have 0), SendEvent 1 (BitTorrentHandlerIn.Have 1)]"
    by (simp add: haves_def three_handler_eq TorrentPieceHandler_new_def whole_piece_def Block_new_def BlockMetadata_new_def)
  have whole: "concat (map three_bytes [0..<length (ph_bitfield three_handler)]) = [1, 2, 3]"
    by (simp add: three_fields three_bytes_def upt_rec)
  have entry: "fe_id (hd (tfl_files three_file)) = TorrentFileId_new (TorrentId 0) (FileId 0)" by (simp add: three_file_def)
  have nums: "Suc (Suc (Suc 0)) = 3" "Suc (4::nat) = 5" "(if length [0::nat, 1] = 1 then 0 else 1) + length [0::nat, 1] * 1 = (3::nat)"
    "length [1 :: u8, 2, 3] = 3" "mset [a, b] = {#a, b#}" for a b :: NetworkBehaviourAction by simp_all
  from download_reaches_file [OF three_reachable three_fields(1,2) bits three_seed three_live perm three_described three_disk three_available owned, where k = 0,
      unfolded three_fields(6-8) out whole entry nums Let_def]
  show ?thesis by blast
qed

end
