(* ===== verification/Spec2Isabelle.thy ===== *)
theory Spec2Isabelle
  imports Codec Tracker Builder Transfers
begin

text \<open>
  Verification of the BitTorrent protocol for libp2p. Paths are those of the repository, below \<^verbatim>\<open>src/\<close>.

  \<^bold>\<open>The program.\<close> A BitTorrent client as a libp2p network behaviour. \<^verbatim>\<open>BitTorrent\<close> (\<^verbatim>\<open>behavior.rs\<close>) owns
  a pool of torrents (\<^verbatim>\<open>peer/torrent.rs\<close>) and a disk manager (\<^verbatim>\<open>disk/manager.rs\<close>). For each connection
  libp2p runs a \<^verbatim>\<open>BitTorrentHandler\<close> (\<^verbatim>\<open>handler.rs\<close>), whose substreams carry frames of the codec
  (\<^verbatim>\<open>proto/codec.rs\<close>). The behaviour turns events of the handlers into calls of the pool, block requests
  into reads of the disk manager, finished pieces into writes, and their results into events again. A
  torrent holds a piece handler (\<^verbatim>\<open>peer/piece.rs\<close>), which tracks peers and drives one piece buffer at a
  time. Torrents come from metainfo files (\<^verbatim>\<open>torrent/mod.rs\<close>) or from the builder
  (\<^verbatim>\<open>torrent/builder.rs\<close>); \<^verbatim>\<open>tracker.rs\<close> has the messages of a tracker.

  \<^bold>\<open>Theories.\<close>
  \<^item> \<open>Prelude\<close>: number types, panics, vectors, hash maps and ordered maps with the interfaces
    \<open>map_iface\<close> and \<open>removable_map\<close>, both interpreted there.
  \<^item> \<open>Bitfield\<close> (\<^verbatim>\<open>bitfield.rs\<close>, \<^verbatim>\<open>util.rs\<close>, \<^verbatim>\<open>piece.rs\<close>), \<open>Messages\<close> (\<^verbatim>\<open>proto/message.rs\<close>) and \<open>Codec\<close>
    (\<^verbatim>\<open>proto/codec.rs\<close>): the wire format. Messages and streams of messages decode to what was encoded,
    incomplete frames wait for input, and the inputs on which the decoder panics are characterised.
    The routines for byte order and bit vectors are the locale \<open>wire_laws\<close>.
  \<^item> \<open>Blocks\<close> and \<open>BlockJobs\<close> (\<^verbatim>\<open>disk/block.rs\<close>, \<^verbatim>\<open>disk/fs.rs\<close>): blocks, and the jobs that read and write
    them as state machines over a file system. In every run a job changes nothing outside its window; in
    an exact run, in which no access is short right after a seek, a job over one file that reports success
    has read or written the bytes of its window. A short access there corrupts the data.
  \<^item> \<open>Metainfo\<close>, \<open>Bencode\<close>, \<open>MetainfoFiles\<close> (\<^verbatim>\<open>torrent/mod.rs\<close>), \<open>Tracker\<close> (\<^verbatim>\<open>tracker.rs\<close>) and \<open>Builder\<close>
    (\<^verbatim>\<open>torrent/builder.rs\<close>, \<^verbatim>\<open>error.rs\<close>): the lengths of pieces; encoding and decoding over the locale
    \<open>bendy_crate\<close>, interpreted on an implementation of bencoding; reading a file into pieces, which is shown
    equal to cutting up its content; and the torrents that cannot be handled.
  \<^item> \<open>Files\<close> (\<^verbatim>\<open>disk/file.rs\<close>): which files a block belongs to.
  \<^item> \<open>Peer\<close> (\<^verbatim>\<open>peer/mod.rs\<close>), \<open>PieceBuffers\<close>, \<open>PieceHandlers\<close> (\<^verbatim>\<open>peer/piece.rs\<close>) and \<open>Downloads\<close>.
    The step relations \<open>pb_step\<close> and \<open>ph_step\<close> have every call the program makes; their flag \<open>orderly\<close>
    restricts them to peers that are inserted once and unchoke only after they choked, which the code
    relies on and does not check. In every run no block is held twice and finished pieces are complete; in
    orderly runs missing, pending and received blocks are a partition of the piece and requests go to
    unchoked peers; a repeated \<^verbatim>\<open>UnChoke\<close> refutes both. Then selection and results of a poll, and a whole
    download by honest peers, with the number of polls it takes.
  \<^item> \<open>Torrents\<close> (\<^verbatim>\<open>peer/torrent.rs\<close>, \<^verbatim>\<open>peer/builder.rs\<close>) and \<open>Pool\<close>: the operations of a torrent and of the
    pool. The locales \<open>torrent_op\<close>, \<open>torrent_query\<close>, \<open>handler_op\<close> and \<open>handler_query\<close> say what an operation on
    one torrent keeps of the invariant of the pool; every operation is an interpretation.
  \<^item> \<open>DiskManagers\<close> (\<^verbatim>\<open>disk/manager.rs\<close>, \<^verbatim>\<open>disk/message.rs\<close>): queue, cache of open files, jobs and poll. The
    locales \<open>manager_step\<close> and \<open>manager_invariant\<close> carry a property through every loop of the poll; they
    are interpreted for verified writes, for exclusive files and for the identifiers of torrents. The
    cache has a capacity; files are exclusive as long as it has room for the files of all torrents, and
    an eviction is shown to break that.
  \<^item> \<open>Native\<close> (\<^verbatim>\<open>disk/native.rs\<close>): the file system of the operating system as an instance of the trait, and
    which paths it opens. \<open>Writes\<close>: how the disk manager works through a queue of pieces for one file, and
    what that leaves of the bytes of the file.
  \<^item> \<open>ProtocolHandler\<close> (\<^verbatim>\<open>handler.rs\<close>, \<^verbatim>\<open>proto/mod.rs\<close>): every state of a substream. The locale
    \<open>substream_measure\<close> counts something over all substreams; its interpretations count requests,
    identifiers and waiting substreams. Reading a substream runs the decoder of \<open>Codec\<close>, panics included
    (\<open>framed_laws\<close>), and the inputs that make the handler panic are characterised.
  \<^item> \<open>Behaviour\<close> (\<^verbatim>\<open>behavior.rs\<close>): the composition. The locale \<open>behaviour_invariant\<close> lifts an invariant of
    the pool and the disk manager to the behaviour; it is interpreted for the invariant
    of the pool together with the torrents that the disk manager knows. Requests
    of remote peers and finished pieces are followed through the pool, the disk and back.
  \<^item> \<open>Transfers\<close>: a whole download through behaviour, pool, handler, disk manager and file system. Among
    honest peers a stated number of polls requests every missing block once, reports the torrent as
    finished, announces every piece and leaves a file that starts with the whole content.
  \<^item> This theory: building, writing and reading a torrent file.

  \<^bold>\<open>Representation.\<close> A struct is a record and an enum a datatype, with the names of the source, a
  prefix where fields of several structs share a name. An operation that mutates its object returns
  the new object. \<open>None\<close> of \<open>'a panics\<close> is a panic, \<open>Inl\<close> of a sum an error. 64-bit numbers are natural
  numbers with checked operations, whose argument \<open>checks\<close> tells a debug build, which panics on overflow,
  from a release build, which wraps around. Clocks are arguments or part of a world.

  \<^bold>\<open>Loops and fuel.\<close> Loops over a collection are structural recursion. \<open>file_loop\<close>, \<open>log_loop\<close>, \<open>hash_loop\<close>
  and \<open>sha_chunks\<close> have termination proofs, as has the loop that advances a substream, where every step
  decreases \<open>steps_left\<close>. The polls of the disk manager and of the behaviour need not
  return in the code, so \<open>dm_poll\<close>, \<open>pool_loop\<close>, \<open>disk_loop\<close> and \<open>poll_rounds\<close> take fuel and \<open>None\<close> is its lack:
  invariants hold for any fuel, the results of a seed request, a good and a bad piece and a whole download
  name the fuel that is enough for each poll, and non-termination is that no fuel is.

  \<^bold>\<open>Parameters.\<close> What is not in the repository is an argument: bendy (\<open>bendy_laws\<close>), byteorder and bit-vec
  (\<open>wire_laws\<close>), sha1, the shuffle of rand, the LRU cache, which is bounded and evicts
  (\<open>lru_laws\<close>), the file system of the disk manager
  (\<open>fs_laws\<close>) and, below it, the files of tokio, walkdir and the file system of the standard library (\<open>walk_laws\<close>),
  the framing of substreams around the codec (\<open>framed_laws\<close>), and the text form of a libp2p peer identifier.

  \<^bold>\<open>Not modelled.\<close> \<^verbatim>\<open>proto/tracker.rs\<close> and \<^verbatim>\<open>disk/context.rs\<close> declare
  data types that no code uses. \<^verbatim>\<open>lib.rs\<close> and \<^verbatim>\<open>disk/mod.rs\<close> declare modules; \<^verbatim>\<open>examples/bittorrent.rs\<close>
  only sets up a swarm. The remaining
  parts of modelled files are accessors, derived and formatting instances, log output, and types that no
  code uses (\<^verbatim>\<open>PieceCheckerState\<close>, \<^verbatim>\<open>FileStorage\<close>, \<^verbatim>\<open>TorrentProgress\<close>, \<^verbatim>\<open>PeerState\<close>).
\<close>

text \<open>\<^verbatim>\<open>TorrentSeed::from_paths\<close> (\<^verbatim>\<open>disk/torrent.rs\<close>): the content and its torrent file.\<close>

definition from_paths ::
  "'e std_fs \<Rightarrow> ('o, 'b) bendy \<Rightarrow> (u8 list \<Rightarrow> ShaHash) \<Rightarrow> nat \<Rightarrow> path \<Rightarrow> path \<Rightarrow> ('e, 'b) Error + TorrentSeed" where
  "from_paths fs B sha1 depth p torrent =
     and_then (from_torrent_file fs B sha1 depth torrent) (\<lambda>m. Inr \<lparr>ts_path = p, ts_torrent = m\<rparr>)"

text \<open>A builder whose fields are what the torrent file can carry.\<close>

definition plain_builder :: "(u8 list \<Rightarrow> bool) \<Rightarrow> TorrentBuilder \<Rightarrow> bool" where
  "plain_builder utf8 b \<longleftrightarrow>
     (\<forall>s. bu_announce b = Some s \<or> bu_comment b = Some s \<or> bu_encoding b = Some s \<or> bu_name b = Some s \<longrightarrow> utf8 s) \<and>
     (\<forall>s \<in> set (or_default (bu_httpseeds b)). utf8 s) \<and>
     (\<forall>n. bu_creation_date b = Some n \<longrightarrow> - (2 ^ 63) \<le> n \<and> n < 2 ^ 63) \<and>
     (\<forall>p. bu_piece_length b = Some p \<longrightarrow> 0 < p \<and> p < 2 ^ 64) \<and>
     or_default (bu_announce_list b) = [] \<and> or_default (bu_webseeds b) = [] \<and> or_default (bu_nodes b) = [] \<and>
     bu_created_by b = None"

text \<open>A store of one file per path, for the witness.\<close>

definition demo_store :: "(path, string, path \<Rightarrow> u8 list) file_out" where
  "demo_store = \<lparr>fo_create = (\<lambda>p w. (Inr p, w(p := []))), fo_write_all = (\<lambda>p data w. (Inr (), w(p := data))),
     fo_fs = (\<lambda>w. (demo_fs False)\<lparr>fs_open := \<lambda>p. Inr (w p, None)\<rparr>)\<rparr>"

text \<open>
  C9. A torrent built from one readable file, written to a torrent file and read from there is the same metainfo:
  the build succeeds, its pieces are the hashes of consecutive parts of the content, writing succeeds,
  and reading gives the metainfo that was built, with the same hash. The builder must not have been
  given an announce list, web seeds, nodes or a creator, which the format loses or cannot encode.
\<close>

theorem built_torrent_reads_back:
  assumes "walk_laws fs tree" and "tree (bu_content_root b) = DirNode entry []" and "ent_is_file entry"
    and "\<not> is_hidden fs entry" and "ent_len entry = Inr (length content)" and "length content < 2 ^ 64"
    and "\<not> fs_is_dir fs (bu_content_root b)" and "file_holds fs b (bu_content_root b) content"
    and "root_name fs (bu_content_root b) = Some nm" and "utf8 nm"
    and "bendy_laws B utf8 ser view" and "plain_builder utf8 b" and "\<forall>bs. length (sha1 bs) = SHA_HASH_LEN" and "3 \<le> depth"
    and "fo_create io p w = (Inr f, w1)"
    and "\<forall>data. \<exists>w2. fo_write_all io f data w1 = (Inr (), w2) \<and> fs_open (fo_fs io w2) p = Inr (data, None)"
  shows "\<exists>m data w2. build fs B sha1 checks b = Some (Inr m) \<and>
    ti_pieces (mi_info m) = map sha1 (chunks (used_piece_length b (length content)) content) \<and>
    write_torrent_file io B m p w = (Inr data, w2) \<and> from_torrent_file (fo_fs io w2) B sha1 depth p = Inr m"
proof -
  let ?n = "used_piece_length b (length content)"
  note crate = bendy_crate.intro [OF assms(11)]
  have n: "?n = (case bu_piece_length b of Some p \<Rightarrow> p | None \<Rightarrow> piece_length_for (length content))"
    by (simp add: used_piece_length_def)
  have pos: "0 < ?n" "?n < 2 ^ 64"
    using assms(12) piece_length_for_pos [of "length content"] by (auto simp: plain_builder_def n split: option.split)
  from build_frame [OF walk_single [OF assms(1-6)] read_single [OF pos(1) assms(8,7), unfolded n] assms(9,11), of sha1]
  obtain m where m: "build fs B sha1 checks b = Some (Inr m)"
    "mi_info m = \<lparr>ti_pieces = map sha1 (chunks ?n content), ti_piece_length = ?n, ti_content = Single (length content),
      ti_name = (case bu_name b of Some x \<Rightarrow> x | None \<Rightarrow> nm)\<rparr>"
    "mi_info_hash m = sha1 (ser (TorrentInfo_encode (mi_info m)))"
    "mi_announce m = bu_announce b" "mi_announce_list m = or_default (bu_announce_list b)" "mi_encoding m = bu_encoding b"
    "mi_comment m = bu_comment b" "mi_created_by m = bu_created_by b" "mi_creation_date m = bu_creation_date b"
    "mi_httpseeds m = or_default (bu_httpseeds b)" "mi_webseeds m = or_default (bu_webseeds b)" "mi_nodes m = or_default (bu_nodes b)"
    unfolding n by (metis flat.simps(1))
  have plain: "mi_nodes m = []" "mi_webseeds m = []" "mi_announce_list m = []" "mi_created_by m = None"
    using m assms(12) by (simp_all add: plain_builder_def)
  have flat: "flat (ti_content (mi_info m))" by (simp add: m(2))
  have ok: "meta_ok utf8 m"
    using assms(6,10,12,13) pos(2) unfolding meta_ok_def info_ok_def m(2,4-10) plain_builder_def
    by (auto split: option.split)
  have "MetaInfo_to_bencode B m = Inr (ser (MetaInfo_encode m))"
    unfolding MetaInfo_to_bencode_def
    by (rule bendy_crate.emit_ok [OF crate meta_encode_sorted [OF plain(1,2)] meta_encode_depth [OF flat plain(1)]])
  moreover have "m\<lparr>mi_announce_list := [], mi_created_by := None, mi_info_hash := sha1 (ser (TorrentInfo_encode (mi_info m)))\<rparr> = m"
    using m(3) plain(3,4) by (cases m) simp
  moreover obtain w2 where "fo_write_all io f (ser (MetaInfo_encode m)) w1 = (Inr (), w2)"
    "fs_open (fo_fs io w2) p = Inr (ser (MetaInfo_encode m), None)" using assms(16) by blast
  ultimately show ?thesis
    using m(1,2) assms(15) bendy_crate.meta_from_bencode [OF crate ok flat plain(1,2) assms(14), of sha1]
    by (intro exI [of _ m] exI [of _ "ser (MetaInfo_encode m)"] exI [of _ w2])
      (simp add: write_torrent_file_def from_torrent_file_def read_to_end_def and_then_def map_err_def)
qed

theorem built_torrent_reads_back_witness:
  "\<exists>m data w2. build (demo_fs False) bencoding (\<lambda>bs. take 20 (bs @ replicate 20 0)) False (TorrentBuilder_new [bstr ''x'']) = Some (Inr m) \<and>
    write_torrent_file demo_store bencoding m [bstr ''t''] (\<lambda>_. []) = (Inr data, w2) \<and>
    from_torrent_file (fo_fs demo_store w2) bencoding (\<lambda>bs. take 20 (bs @ replicate 20 0)) 2048 [bstr ''t''] = Inr m"
proof -
  let ?sha = "\<lambda>bs :: u8 list. take 20 (bs @ replicate 20 0)" and ?b = "TorrentBuilder_new [bstr ''x'']"
  have a: "ascii (bstr ''x'')" by code_simp
  have store: "fo_create demo_store [bstr ''t''] (\<lambda>_. []) = (Inr [bstr ''t''], (\<lambda>_. [])([bstr ''t''] := []))"
    by (simp add: demo_store_def)
  have written: "\<forall>data. \<exists>w2. fo_write_all demo_store [bstr ''t''] data ((\<lambda>_. [])([bstr ''t''] := [])) = (Inr (), w2) \<and>
      fs_open (fo_fs demo_store w2) [bstr ''t''] = Inr (data, None)" by (simp add: demo_store_def)
  have sha: "\<forall>bs. length (?sha bs) = SHA_HASH_LEN" by (auto simp: SHA_HASH_LEN_def min_def)
  have "\<exists>m data w2. build (demo_fs False) bencoding ?sha False ?b = Some (Inr m) \<and>
    ti_pieces (mi_info m) = map ?sha (chunks (used_piece_length ?b (length [1, 2, 3 :: u8])) [1, 2, 3]) \<and>
    write_torrent_file demo_store bencoding m [bstr ''t''] (\<lambda>_. []) = (Inr data, w2) \<and>
    from_torrent_file (fo_fs demo_store w2) bencoding ?sha 2048 [bstr ''t''] = Inr m"
    by (rule built_torrent_reads_back [where entry = "demo_entry True [bstr ''x'']" and nm = "bstr ''x''",
          OF demo_walk_laws _ _ _ _ _ _ _ _ _ bencoding_laws _ sha _ store written])
      (use a demo_root in \<open>simp_all add: demo_tree_def TorrentBuilder_new_def demo_entry_def file_holds_def plain_builder_def
        or_default_def\<close>, simp_all add: demo_fs_def)
  then show ?thesis by blast
qed

end
